(* ===== verification/Prelude.thy ===== *)
theory Prelude
  imports Main "HOL-Library.Multiset" "HOL-Library.Sublist"
begin

text \<open>
  The vocabulary every component shares: the faults a C++ operation can end in and the
  sequencing of fallible operations, the \<open>std::string\<close> operations of the code on
  character lists (searching, splitting at a separator and joining again), and the theorem
  collections the component proofs use.
\<close>

named_theorems store_simps \<open>lookups after updates of the program's containers\<close>
named_theorems wf_intros \<open>preservation of the components' invariants\<close>

section \<open>Faults\<close>

text \<open>
  How an operation can end other than by returning: an exception of the standard library or of
  the JSON library, undefined behaviour of C++ (an iterator moved past the end of its range, a
  signed addition that overflows, a read of an indeterminate value or past the end of an array), or
  the end of the model's fuel. Only the exceptions can be caught.
\<close>

datatype fault =
    InvalidArgument
  | OutOfRange
  | TypeError
  | LengthError
  | PastEndIterator
  | SignedOverflow
  | Indeterminate
  | ReadPastEnd
  | OutOfFuel

definition is_exception :: "fault \<Rightarrow> bool" where
  "is_exception e \<longleftrightarrow> e \<in> {InvalidArgument, OutOfRange, TypeError, LengthError}"

lemma is_exception_simps [simp]:
  "is_exception InvalidArgument" "is_exception OutOfRange" "is_exception TypeError"
  "is_exception LengthError" "\<not> is_exception ReadPastEnd"
  "\<not> is_exception PastEndIterator" "\<not> is_exception SignedOverflow"
  "\<not> is_exception Indeterminate" "\<not> is_exception OutOfFuel"
  by (simp_all add: is_exception_def)

definition bindR :: "'e + 'a \<Rightarrow> ('a \<Rightarrow> 'e + 'b) \<Rightarrow> 'e + 'b" where
  "bindR m f = (case m of Inl e \<Rightarrow> Inl e | Inr x \<Rightarrow> f x)"

text \<open>A \<open>try\<close> block with a handler for \<open>std::exception\<close>; undefined behaviour passes through.\<close>

definition catchR :: "fault + 'a \<Rightarrow> (fault \<Rightarrow> fault + 'a) \<Rightarrow> fault + 'a" where
  "catchR m h = (case m of Inl e \<Rightarrow> if is_exception e then h e else Inl e | Inr x \<Rightarrow> Inr x)"

lemma bindR_simps [simp]:
  "bindR (Inl e) f = Inl e"
  "bindR (Inr x) f = f x"
  by (simp_all add: bindR_def)

lemma catchR_simps [simp]:
  "is_exception e \<Longrightarrow> catchR (Inl e) h = h e"
  "\<not> is_exception e \<Longrightarrow> catchR (Inl e) h = Inl e"
  "catchR (Inr x) h = Inr x"
  by (simp_all add: catchR_def)

lemma bindR_cong [fundef_cong]:
  assumes "m = m'" and "\<And>x. m' = Inr x \<Longrightarrow> f x = f' x"
  shows "bindR m f = bindR m' f'"
  using assms by (auto simp: bindR_def split: sum.split)

lemma bindR_eq_Inr:
  "bindR m f = Inr y \<longleftrightarrow> (\<exists>x. m = Inr x \<and> f x = Inr y)"
  by (auto simp: bindR_def split: sum.splits)

lemma bindR_eq_Inl:
  "bindR m f = Inl e \<longleftrightarrow> m = Inl e \<or> (\<exists>x. m = Inr x \<and> f x = Inl e)"
  by (auto simp: bindR_def split: sum.splits)

lemmas bindR_iffs = bindR_eq_Inr bindR_eq_Inl

lemma catchR_eq_Inr:
  "catchR m h = Inr y \<longleftrightarrow> m = Inr y \<or> (\<exists>e. m = Inl e \<and> is_exception e \<and> h e = Inr y)"
  by (auto simp: catchR_def split: sum.splits)

lemma catchR_eq_Inl:
  "catchR m h = Inl e' \<longleftrightarrow>
     (\<exists>e. m = Inl e \<and> (if is_exception e then h e = Inl e' else e = e'))"
  by (auto simp: catchR_def split: sum.splits)

lemma bindR_assoc: "bindR (bindR m f) g = bindR m (\<lambda>x. bindR (f x) g)"
  by (cases m) auto

text \<open>A loop that applies a fallible operation to each element and collects the results.\<close>

fun mapR :: "('a \<Rightarrow> 'e + 'b) \<Rightarrow> 'a list \<Rightarrow> 'e + 'b list" where
  "mapR f [] = Inr []"
| "mapR f (x # xs) = bindR (f x) (\<lambda>y. bindR (mapR f xs) (\<lambda>ys. Inr (y # ys)))"

lemma mapR_Inr: "(\<And>x. x \<in> set xs \<Longrightarrow> f x = Inr (g x)) \<Longrightarrow> mapR f xs = Inr (map g xs)"
  by (induction xs) auto

section \<open>Strings\<close>

text \<open>
  An iterator into a string is the suffix it points at, \<open>end()\<close> the empty suffix.
  \<open>std::find(it, end, c)\<close> is then \<open>find_from c it\<close> and the range between the two
  iterators is \<open>until c it\<close>.
\<close>

definition find_from :: "char \<Rightarrow> string \<Rightarrow> string" where
  "find_from c s = dropWhile (\<lambda>x. x \<noteq> c) s"

definition until :: "char \<Rightarrow> string \<Rightarrow> string" where
  "until c s = takeWhile (\<lambda>x. x \<noteq> c) s"

lemma until_find_from: "until c s @ find_from c s = s"
  by (simp add: until_def find_from_def)

lemma find_from_Nil_iff: "find_from c s = [] \<longleftrightarrow> c \<notin> set s"
  by (auto simp: find_from_def dropWhile_eq_Nil_conv)

lemma find_from_ConsD: "find_from c s = d # r \<Longrightarrow> d = c"
  by (auto simp: find_from_def dropWhile_eq_Cons_conv)

lemma find_from_length: "length (find_from c s) \<le> length s"
  by (simp add: find_from_def length_dropWhile_le)

lemma find_from_append: "c \<notin> set a \<Longrightarrow> find_from c (a @ c # b) = c # b"
  by (induction a) (auto simp: find_from_def)

lemma until_append: "c \<notin> set a \<Longrightarrow> until c (a @ c # b) = a"
  by (induction a) (auto simp: until_def)

lemma find_from_skip: "c \<notin> set a \<Longrightarrow> find_from c (a @ b) = find_from c b"
  by (induction a) (auto simp: find_from_def)

lemma until_skip: "c \<notin> set a \<Longrightarrow> until c (a @ b) = a @ until c b"
  by (induction a) (auto simp: until_def)

lemma until_notin_set: "c \<notin> set (until c s)"
  by (auto simp: until_def dest: set_takeWhileD)

lemma find_from_notin: "c \<notin> set a \<Longrightarrow> find_from c a = []"
  by (simp add: find_from_Nil_iff)

lemma until_notin: "c \<notin> set a \<Longrightarrow> until c a = a"
  by (auto simp: until_def takeWhile_eq_all_conv)

lemma find_from_simps [simp]:
  "find_from c [] = []"
  "find_from c (x # s) = (if x = c then x # s else find_from c s)"
  by (simp_all add: find_from_def)

lemma until_simps [simp]:
  "until c [] = []"
  "until c (x # s) = (if x = c then [] else x # until c s)"
  by (simp_all add: until_def)

text \<open>\<open>std::string::find\<close> of a pattern: the first position, \<open>None\<close> for \<open>npos\<close>.\<close>

fun str_find :: "string \<Rightarrow> string \<Rightarrow> nat option" where
  "str_find pat [] = (if pat = [] then Some 0 else None)"
| "str_find pat (c # s) =
     (if prefix pat (c # s) then Some 0 else map_option Suc (str_find pat s))"

lemma str_find_None: "str_find pat s = None \<longleftrightarrow> \<not> sublist pat s"
  by (induction s) (auto simp: sublist_Cons_right)

section \<open>Splitting and joining dotted names\<close>

text \<open>
  The reading of a dotted name as its list of components, against which the iterator loops of
  the code are proved. Splitting a string with no separator gives one component, so joining is
  its inverse on every string.
\<close>

fun split_on :: "char \<Rightarrow> string \<Rightarrow> string list" where
  "split_on c [] = [[]]"
| "split_on c (x # s) =
     (if x = c then [] # split_on c s
      else (case split_on c s of [] \<Rightarrow> [[x]] | w # ws \<Rightarrow> (x # w) # ws))"

fun join_with :: "char \<Rightarrow> string list \<Rightarrow> string" where
  "join_with c [] = []"
| "join_with c [w] = w"
| "join_with c (w # ws) = w @ c # join_with c ws"

lemma split_on_nonempty [simp]: "split_on c s \<noteq> []"
  by (cases s) (auto split: list.splits)

lemma join_with_Cons: "ws \<noteq> [] \<Longrightarrow> join_with c (w # ws) = w @ c # join_with c ws"
  by (cases ws) auto

lemma join_split: "join_with c (split_on c s) = s"
proof (induction s)
  case (Cons x s)
  then show ?case
    by (cases "split_on c s"; cases "tl (split_on c s)") (auto simp: join_with_Cons)
qed simp

lemma split_on_until:
  "split_on c s =
     until c s # (case find_from c s of [] \<Rightarrow> [] | _ # r \<Rightarrow> split_on c r)"
  by (induction s) (auto split: list.splits)

lemma split_on_append: "c \<notin> set a \<Longrightarrow> split_on c (a @ c # b) = a # split_on c b"
  by (subst split_on_until) (simp add: until_append find_from_append)

lemma split_on_notin: "c \<notin> set a \<Longrightarrow> split_on c a = [a]"
  by (subst split_on_until) (simp add: until_notin find_from_notin)

lemma split_join:
  "ws \<noteq> [] \<Longrightarrow> \<forall>w \<in> set ws. c \<notin> set w \<Longrightarrow> split_on c (join_with c ws) = ws"
proof (induction ws)
  case (Cons w ws)
  then show ?case
    by (cases ws) (auto simp: split_on_notin split_on_append)
qed simp

lemma split_on_components: "w \<in> set (split_on c s) \<Longrightarrow> c \<notin> set w"
  by (induction s arbitrary: w) (auto split: if_splits list.splits)

lemma split_on_subset: "w \<in> set (split_on c s) \<Longrightarrow> set w \<subseteq> set s"
proof (induction s arbitrary: w)
  case (Cons x s)
  then show ?case
    by (cases "split_on c s") (fastforce split: if_splits)+
qed simp

end
