(* ===== verification/Numbers.thy ===== *)
theory Numbers
  imports Prelude "HOL-Library.Word"
begin

text \<open>
  The machine integers of the program and their decimal text: \<open>int\<close> is 32 bits,
  \<open>uintptr_t\<close>, \<open>unsigned long\<close> and \<open>size_t\<close> are 64 bits and \<open>unsigned short\<close> is 16 bits
  (the LP64 targets the project builds for). \<open>std::to_string\<close> and \<open>std::stoul\<close> follow the
  C++ standard; the lemmas show that they are inverse on every 64-bit value, that
  \<open>to_string\<close> is injective and that it never prints a separator character.
\<close>

type_synonym int32 = "32 word"
type_synonym uintptr = "64 word"
type_synonym ushort = "16 word"

section \<open>Decimal digits\<close>

definition digit_char :: "nat \<Rightarrow> char" where
  "digit_char d = ''0123456789'' ! d"

definition is_digit :: "char \<Rightarrow> bool" where
  "is_digit c \<longleftrightarrow> c \<in> set ''0123456789''"

definition digit_val :: "char \<Rightarrow> nat" where
  "digit_val c = length (takeWhile (\<lambda>x. x \<noteq> c) ''0123456789'')"

lemma less_10_cases:
  "d < (10::nat) \<Longrightarrow> d = 0 \<or> d = 1 \<or> d = 2 \<or> d = 3 \<or> d = 4 \<or> d = 5 \<or> d = 6 \<or> d = 7 \<or> d = 8 \<or> d = 9"
  by arith

lemma digit_char_digit: "d < 10 \<Longrightarrow> is_digit (digit_char d)"
  by (drule less_10_cases) (auto simp: digit_char_def is_digit_def)

lemma digit_val_char: "d < 10 \<Longrightarrow> digit_val (digit_char d) = d"
  by (drule less_10_cases) (auto simp: digit_char_def digit_val_def)

text \<open>The decimal notation of a number, as \<open>std::to_string\<close> prints an unsigned value.\<close>

fun nat_to_string :: "nat \<Rightarrow> string" where
  "nat_to_string n =
     (if n < 10 then [digit_char n] else nat_to_string (n div 10) @ [digit_char (n mod 10)])"

declare nat_to_string.simps [simp del]

definition digits_value :: "string \<Rightarrow> nat" where
  "digits_value ds = foldl (\<lambda>n c. 10 * n + digit_val c) 0 ds"

lemma digits_value_snoc: "digits_value (ds @ [c]) = 10 * digits_value ds + digit_val c"
  by (simp add: digits_value_def)

lemma nat_to_string_nonempty [simp]: "nat_to_string n \<noteq> []"
  by (subst nat_to_string.simps) simp

lemma nat_to_string_digits: "c \<in> set (nat_to_string n) \<Longrightarrow> is_digit c"
proof (induction n rule: nat_to_string.induct)
  case (1 n)
  then show ?case
    by (cases "n < 10") (auto simp: nat_to_string.simps [of n] digit_char_digit)
qed

lemma digits_value_to_string [simp]: "digits_value (nat_to_string n) = n"
proof (induction n rule: nat_to_string.induct)
  case (1 n)
  show ?case
  proof (cases "n < 10")
    case True
    then show ?thesis
      by (simp add: nat_to_string.simps [of n] digits_value_def digit_val_char)
  next
    case False
    with 1 show ?thesis
      by (simp add: nat_to_string.simps [of n] digits_value_snoc digit_val_char)
  qed
qed

lemma nat_to_string_inject [simp]: "nat_to_string m = nat_to_string n \<longleftrightarrow> m = n"
  by (metis digits_value_to_string)

section \<open>\<open>std::to_string\<close>\<close>

definition to_string :: "uintptr \<Rightarrow> string" where
  "to_string w = nat_to_string (unat w)"

definition int_to_string :: "int32 \<Rightarrow> string" where
  "int_to_string w =
     (if sint w < 0 then CHR ''-'' # nat_to_string (nat (- sint w))
      else nat_to_string (nat (sint w)))"

definition ushort_to_string :: "ushort \<Rightarrow> string" where
  "ushort_to_string w = nat_to_string (unat w)"

lemma to_string_inject [simp]: "to_string v = to_string w \<longleftrightarrow> v = w"
  by (simp add: to_string_def word_unat_eq_iff)

lemma to_string_nonempty [simp]: "to_string w \<noteq> []"
  by (simp add: to_string_def)

lemma to_string_digits: "c \<in> set (to_string w) \<Longrightarrow> is_digit c"
  by (auto simp: to_string_def nat_to_string_digits)

lemma to_string_no_sep [simp]: "CHR ''.'' \<notin> set (to_string w)" "CHR ''$'' \<notin> set (to_string w)"
  by (auto dest!: to_string_digits simp: is_digit_def)

section \<open>\<open>std::stoul\<close>\<close>

definition is_space :: "char \<Rightarrow> bool" where
  "is_space c \<longleftrightarrow> (of_char c :: nat) = 32 \<or> 9 \<le> (of_char c :: nat) \<and> (of_char c :: nat) \<le> 13"

text \<open>
  \<open>std::stoul(s)\<close> in base ten: white space is skipped, one sign is read, then the longest run
  of digits; characters after it are ignored. No digit at all throws \<open>invalid_argument\<close>, a
  magnitude above \<open>ULONG_MAX\<close> throws \<open>out_of_range\<close>, and a minus sign negates the value in the
  unsigned type.
\<close>

definition stoul :: "string \<Rightarrow> fault + uintptr" where
  "stoul s =
     (let s1 = dropWhile is_space s;
          neg = (case s1 of c # _ \<Rightarrow> c = CHR ''-'' | [] \<Rightarrow> False);
          s2 = (case s1 of c # r \<Rightarrow> if c = CHR ''-'' \<or> c = CHR ''+'' then r else s1 | [] \<Rightarrow> []);
          ds = takeWhile is_digit s2;
          n = digits_value ds
      in if ds = [] then Inl InvalidArgument
         else if 2 ^ 64 \<le> n then Inl OutOfRange
         else Inr (if neg then - of_nat n else of_nat n))"

lemma digit_not_special: "is_digit c \<Longrightarrow> \<not> is_space c \<and> c \<noteq> CHR ''-'' \<and> c \<noteq> CHR ''+''"
  by (auto simp: is_digit_def is_space_def)

lemma stoul_digits:
  assumes "\<forall>c \<in> set ds. is_digit c" "ds \<noteq> []" "digits_value ds < 2 ^ 64"
  shows "stoul ds = Inr (of_nat (digits_value ds))"
proof -
  obtain c r where ds: "ds = c # r" using assms(2) by (cases ds) auto
  with assms(1) have "is_digit c" by simp
  then have "\<not> is_space c" "c \<noteq> CHR ''-''" "c \<noteq> CHR ''+''" using digit_not_special by blast+
  moreover have tw: "takeWhile is_digit r = r"
    using assms(1) ds by (simp add: takeWhile_eq_all_conv)
  ultimately show ?thesis
    using assms(3) ds \<open>is_digit c\<close> by (simp add: stoul_def Let_def tw)
qed

lemma stoul_to_string [simp]: "stoul (to_string w) = Inr w"
proof -
  have "unat w < 2 ^ 64" using unsigned_less [of w, where ?'a = nat] by simp
  then show ?thesis
    by (simp add: to_string_def stoul_digits nat_to_string_digits)
qed

lemma stoul_exception: "stoul s = Inl e \<Longrightarrow> is_exception e"
  by (auto simp: stoul_def Let_def split: if_splits)

lemma stoul_ushort: "stoul (ushort_to_string p) = Inr (ucast p)"
proof -
  have "unat p < 2 ^ 64" using unsigned_less [of p, where ?'a = nat] by simp
  moreover have "(of_nat (unat p) :: uintptr) = ucast p" by (simp add: unsigned_of_nat)
  ultimately show ?thesis
    by (simp add: ushort_to_string_def stoul_digits nat_to_string_digits)
qed

text \<open>
  \<open>std::stoi(s)\<close> reads the same notation; a value that is no \<open>int\<close> throws \<open>out_of_range\<close>.
\<close>

definition stoi :: "string \<Rightarrow> fault + int32" where
  "stoi s =
     (let s1 = dropWhile is_space s;
          neg = (case s1 of c # _ \<Rightarrow> c = CHR ''-'' | [] \<Rightarrow> False);
          s2 = (case s1 of c # r \<Rightarrow> if c = CHR ''-'' \<or> c = CHR ''+'' then r else s1 | [] \<Rightarrow> []);
          ds = takeWhile is_digit s2;
          v = (if neg then - int (digits_value ds) else int (digits_value ds))
      in if ds = [] then Inl InvalidArgument
         else if v < - (2 ^ 31) \<or> 2 ^ 31 \<le> v then Inl OutOfRange
         else Inr (word_of_int v))"

lemma stoi_decimal:
  "stoi (nat_to_string n) = (if n < 2 ^ 31 then Inr (of_nat n) else Inl OutOfRange)"
proof -
  obtain c r where ds: "nat_to_string n = c # r" by (cases "nat_to_string n") auto
  have "\<forall>x \<in> set (c # r). is_digit x" using nat_to_string_digits [of _ n] ds by auto
  then have c: "is_digit c" and tw: "takeWhile is_digit r = r" by (simp_all add: takeWhile_eq_all_conv)
  from c have "\<not> is_space c" "c \<noteq> CHR ''-''" "c \<noteq> CHR ''+''" using digit_not_special by blast+
  moreover have "digits_value (c # r) = n" using digits_value_to_string [of n] ds by simp
  ultimately show ?thesis using c by (auto simp: stoi_def ds tw Let_def)
qed

section \<open>Signed addition\<close>

text \<open>\<open>int + int\<close>: undefined behaviour outside the range of \<open>int\<close>.\<close>

definition add_int :: "int32 \<Rightarrow> int32 \<Rightarrow> fault + int32" where
  "add_int a b =
     (let s = sint a + sint b
      in if - (2 ^ 31) \<le> s \<and> s < 2 ^ 31 then Inr (a + b) else Inl SignedOverflow)"

lemma sint_add_no_overflow:
  fixes a b :: int32
  assumes "- (2 ^ 31) \<le> sint a + sint b" "sint a + sint b < 2 ^ 31"
  shows "sint (a + b) = sint a + sint b"
proof -
  have "sint (a + b) = signed_take_bit 31 (sint a + sint b)"
    by (simp add: sint_word_ariths)
  then show ?thesis
    using assms by (simp add: signed_take_bit_int_eq_self)
qed

lemma add_int_sint: "add_int a b = Inr c \<Longrightarrow> sint c = sint a + sint b"
  by (auto simp: add_int_def Let_def sint_add_no_overflow split: if_splits)

lemma add_int_total:
  "- (2 ^ 31) \<le> sint a + sint b \<Longrightarrow> sint a + sint b < 2 ^ 31 \<Longrightarrow> add_int a b = Inr (a + b)"
  by (simp add: add_int_def)

lemma add_int_fault: "add_int a b = Inl e \<Longrightarrow> e = SignedOverflow"
  by (auto simp: add_int_def Let_def split: if_splits)

section \<open>\<open>std::string\<close> with positions of type \<open>size_t\<close>\<close>

type_synonym size_t = "64 word"

definition npos :: size_t where
  "npos = - 1"

text \<open>\<open>find\<close> of one character: its first position, or \<open>npos\<close>.\<close>

definition str_find_char :: "string \<Rightarrow> char \<Rightarrow> size_t" where
  "str_find_char s c = (if c \<in> set s then of_nat (length (until c s)) else npos)"

text \<open>\<open>substr\<close> throws when the position is past the end and cuts the count at the end.\<close>

definition substr :: "string \<Rightarrow> size_t \<Rightarrow> size_t \<Rightarrow> fault + string" where
  "substr s pos n =
     (if length s < unat pos then Inl OutOfRange
      else Inr (take (unat n) (drop (unat pos) s)))"

text \<open>No string is longer than \<open>max_size\<close>, which leaves \<open>npos\<close> unreachable.\<close>

definition storable :: "string \<Rightarrow> bool" where
  "storable s \<longleftrightarrow> length s < 2 ^ 63"

lemma length_until: "c \<in> set s \<Longrightarrow> length (until c s) < length s"
  by (induction s) auto

lemma unat_npos: "unat npos = 2 ^ 64 - 1"
  by (simp add: npos_def unsigned_minus_1_eq_mask mask_eq_exp_minus_1)

lemma unat_size_t: "n < 2 ^ 64 \<Longrightarrow> unat (of_nat n :: size_t) = n"
  by (simp add: unsigned_of_nat take_bit_nat_eq_self)

lemma unat_find_char:
  "storable s \<Longrightarrow> c \<in> set s \<Longrightarrow> unat (str_find_char s c) = length (until c s)"
  using length_until [of c s]
  by (simp add: str_find_char_def storable_def unat_size_t)

text \<open>The word before the first space, after a one-character prefix.\<close>

lemma substr_command:
  assumes "storable (p # s)" "p \<noteq> CHR '' ''"
  shows "substr (p # s) 1 (str_find_char (p # s) CHR '' '' - 1) = Inr (until CHR '' '' s)"
proof (cases "CHR '' '' \<in> set s")
  case True
  have "str_find_char (p # s) CHR '' '' = of_nat (Suc (length (until CHR '' '' s)))"
    using True assms(2) by (simp add: str_find_char_def)
  then have "str_find_char (p # s) CHR '' '' - 1 = of_nat (length (until CHR '' '' s))" by simp
  moreover have "unat (of_nat (length (until CHR '' '' s)) :: size_t) = length (until CHR '' '' s)"
    using length_until [OF True] assms(1) by (intro unat_size_t) (simp add: storable_def)
  moreover have "take (length (until CHR '' '' s)) s = until CHR '' '' s"
    by (metis append_eq_conv_conj until_find_from)
  ultimately show ?thesis by (simp add: substr_def)
next
  case False
  then have "str_find_char (p # s) CHR '' '' - 1 = - 2"
    using assms(2) by (simp add: str_find_char_def npos_def)
  then have u: "unat (str_find_char (p # s) CHR '' '' - 1) = 2 ^ 64 - 2" by (simp only:) simp
  then have "take (unat (str_find_char (p # s) CHR '' '' - 1)) s = s"
    using assms(1) by (simp only: u) (simp add: storable_def)
  then show ?thesis using False by (simp add: substr_def until_notin)
qed

text \<open>Everything after the first space; the whole string when there is none, since \<open>npos + 1\<close> is 0.\<close>

lemma substr_argument:
  assumes "storable s"
  shows "substr s (str_find_char s CHR '' '' + 1) npos =
         Inr (if CHR '' '' \<in> set s then tl (find_from CHR '' '' s) else s)"
proof (cases "CHR '' '' \<in> set s")
  case True
  have len: "length (until CHR '' '' s) < length s" by (rule length_until [OF True])
  have "str_find_char s CHR '' '' + 1 = of_nat (Suc (length (until CHR '' '' s)))"
    using True by (simp add: str_find_char_def)
  moreover have "unat (of_nat (Suc (length (until CHR '' '' s))) :: size_t) = Suc (length (until CHR '' '' s))"
    using len assms by (intro unat_size_t) (simp add: storable_def)
  ultimately have pos: "unat (str_find_char s CHR '' '' + 1) = Suc (length (until CHR '' '' s))"
    by (simp only:)
  have tail: "drop (Suc (length (until CHR '' '' s))) s = tl (find_from CHR '' '' s)"
    by (metis append_eq_conv_conj drop_Suc tl_drop until_find_from)
  have "take (unat npos) (tl (find_from CHR '' '' s)) = tl (find_from CHR '' '' s)"
    using assms find_from_length [of "CHR '' ''" s] by (simp add: storable_def unat_npos)
  then show ?thesis
    using True len by (simp add: substr_def pos tail)
next
  case False
  then have "str_find_char s CHR '' '' + 1 = 0" by (simp add: str_find_char_def npos_def)
  with False assms show ?thesis by (simp add: substr_def unat_npos storable_def)
qed

end
