(* ===== verification/Json_Library.thy ===== *)
theory Json_Library
  imports Numbers
begin

text \<open>
  The JSON library the parsers call (nlohmann::json, not part of the repository) as a parameter:
  a record with one field per member function the code uses. The documented behaviour the proofs
  rely on is stated as predicates on this record and appears as a named hypothesis where it is
  needed. The second half gives one concrete library over a datatype of JSON values, which the
  witnesses use.
\<close>

datatype value_t =
    VNull | VObject | VArray | VString | VBoolean
  | VNumberInteger | VNumberUnsigned | VNumberFloat | VBinary | VDiscarded

text \<open>
  \<open>j_null\<close> is the value constructed from \<open>nullptr\<close>, \<open>j_is_null\<close> the comparison with it,
  \<open>j_at\<close> is \<open>operator[]\<close> (only used after \<open>contains\<close>), \<open>j_elements\<close> the range of a \<open>for\<close> loop,
  \<open>j_items\<close> the range of \<open>items()\<close>; the conversions throw on a value of another type and the two
  parsers throw \<open>parse_error\<close>, written \<open>None\<close>. A number too large for the library makes them throw
  \<open>out_of_range\<close> instead; texts with such a number are outside the model.
\<close>

record 'j json_lib =
  j_type :: "'j \<Rightarrow> value_t"
  j_null :: "'j"
  j_is_null :: "'j \<Rightarrow> bool"
  j_contains :: "'j \<Rightarrow> string \<Rightarrow> bool"
  j_size :: "'j \<Rightarrow> nat"
  j_at :: "'j \<Rightarrow> string \<Rightarrow> 'j"
  j_elements :: "'j \<Rightarrow> 'j list"
  j_items :: "'j \<Rightarrow> (string \<times> 'j) list"
  j_eq_string :: "'j \<Rightarrow> string \<Rightarrow> bool"
  j_get_string :: "'j \<Rightarrow> fault + string"
  j_get_int :: "'j \<Rightarrow> fault + int32"
  j_get_ushort :: "'j \<Rightarrow> fault + ushort"
  j_parse_string :: "string \<Rightarrow> 'j option"
  j_parse_file :: "string \<Rightarrow> 'j option"

text \<open>A conversion that fails throws an exception of the library, derived from \<open>std::exception\<close>.\<close>

definition json_throws :: "('j, 'x) json_lib_scheme \<Rightarrow> bool" where
  "json_throws J \<longleftrightarrow>
     (\<forall>j e. j_get_string J j = Inl e \<longrightarrow> is_exception e) \<and>
     (\<forall>j e. j_get_int J j = Inl e \<longrightarrow> is_exception e) \<and>
     (\<forall>j e. j_get_ushort J j = Inl e \<longrightarrow> is_exception e)"

text \<open>
  JSON values are finite: the \<open>rules\<close> member of an element of a list of rules is nested less
  deeply than the list.
\<close>

definition json_nesting :: "('j, 'x) json_lib_scheme \<Rightarrow> ('j \<Rightarrow> nat) \<Rightarrow> bool" where
  "json_nesting J depth \<longleftrightarrow>
     (\<forall>j x. x \<in> set (j_elements J j) \<and> j_contains J x ''rules'' \<longrightarrow>
        depth (j_at J x ''rules'') < depth j)"

text \<open>The value types and the conversions agree; comparison with \<open>nullptr\<close> recognises null.\<close>

definition json_types :: "('j, 'x) json_lib_scheme \<Rightarrow> bool" where
  "json_types J \<longleftrightarrow>
     j_is_null J (j_null J) \<and>
     (\<forall>j. j_is_null J j \<longrightarrow> j_type J j = VNull) \<and>
     (\<forall>j. j_type J j = VString \<longrightarrow> (\<exists>s. j_get_string J j = Inr s)) \<and>
     (\<forall>j. j_type J j = VNumberUnsigned \<longrightarrow> (\<exists>p. j_get_ushort J j = Inr p))"

section \<open>A concrete library\<close>

text \<open>
  JSON documents with integers (unsigned when not negative, as the library's parser classifies
  them). Object members are kept in the order given; keys are distinct in the documents used.
\<close>

datatype jval =
    JNull
  | JBool bool
  | JInt int
  | JStr string
  | JArr "jval list"
  | JObj "(string \<times> jval) list"

fun jval_type :: "jval \<Rightarrow> value_t" where
  "jval_type JNull = VNull"
| "jval_type (JBool b) = VBoolean"
| "jval_type (JInt i) = (if i < 0 then VNumberInteger else VNumberUnsigned)"
| "jval_type (JStr s) = VString"
| "jval_type (JArr xs) = VArray"
| "jval_type (JObj ms) = VObject"

fun jval_contains :: "jval \<Rightarrow> string \<Rightarrow> bool" where
  "jval_contains (JObj ms) k = (map_of ms k \<noteq> None)"
| "jval_contains j k = False"

fun jval_size :: "jval \<Rightarrow> nat" where
  "jval_size JNull = 0"
| "jval_size (JArr xs) = length xs"
| "jval_size (JObj ms) = length ms"
| "jval_size j = 1"

fun jval_at :: "jval \<Rightarrow> string \<Rightarrow> jval" where
  "jval_at (JObj ms) k = (case map_of ms k of Some v \<Rightarrow> v | None \<Rightarrow> JNull)"
| "jval_at j k = JNull"

fun jval_elements :: "jval \<Rightarrow> jval list" where
  "jval_elements JNull = []"
| "jval_elements (JArr xs) = xs"
| "jval_elements (JObj ms) = map snd ms"
| "jval_elements j = [j]"

fun jval_items :: "jval \<Rightarrow> (string \<times> jval) list" where
  "jval_items (JObj ms) = ms"
| "jval_items j = []"

fun jval_string :: "jval \<Rightarrow> fault + string" where
  "jval_string (JStr s) = Inr s"
| "jval_string j = Inl TypeError"

fun jval_int :: "jval \<Rightarrow> fault + int32" where
  "jval_int (JInt i) = Inr (word_of_int i)"
| "jval_int (JBool b) = Inr (if b then 1 else 0)"
| "jval_int j = Inl TypeError"

fun jval_ushort :: "jval \<Rightarrow> fault + ushort" where
  "jval_ushort (JInt i) = Inr (word_of_int i)"
| "jval_ushort (JBool b) = Inr (if b then 1 else 0)"
| "jval_ushort j = Inl TypeError"

fun jval_is_null :: "jval \<Rightarrow> bool" where
  "jval_is_null JNull = True"
| "jval_is_null j = False"

fun jval_eq_string :: "jval \<Rightarrow> string \<Rightarrow> bool" where
  "jval_eq_string (JStr s) t = (s = t)"
| "jval_eq_string j t = False"

text \<open>The library over given files; strings are parsed by the same table.\<close>

definition jval_lib :: "(string \<rightharpoonup> jval) \<Rightarrow> jval json_lib" where
  "jval_lib files =
     \<lparr>j_type = jval_type, j_null = JNull, j_is_null = jval_is_null, j_contains = jval_contains,
      j_size = jval_size, j_at = jval_at, j_elements = jval_elements, j_items = jval_items,
      j_eq_string = jval_eq_string, j_get_string = jval_string, j_get_int = jval_int,
      j_get_ushort = jval_ushort, j_parse_string = files, j_parse_file = files\<rparr>"

lemma jval_lib_simps [simp]:
  "j_type (jval_lib fs) = jval_type" "j_null (jval_lib fs) = JNull"
  "j_is_null (jval_lib fs) = jval_is_null" "j_contains (jval_lib fs) = jval_contains"
  "j_size (jval_lib fs) = jval_size" "j_at (jval_lib fs) = jval_at"
  "j_elements (jval_lib fs) = jval_elements" "j_items (jval_lib fs) = jval_items"
  "j_eq_string (jval_lib fs) = jval_eq_string" "j_get_string (jval_lib fs) = jval_string"
  "j_get_int (jval_lib fs) = jval_int" "j_get_ushort (jval_lib fs) = jval_ushort"
  "j_parse_string (jval_lib fs) = fs" "j_parse_file (jval_lib fs) = fs"
  by (simp_all add: jval_lib_def)

lemma jval_throws: "json_throws (jval_lib fs)"
proof -
  have "jval_string j = Inl e \<Longrightarrow> is_exception e" "jval_int j = Inl e \<Longrightarrow> is_exception e"
    "jval_ushort j = Inl e \<Longrightarrow> is_exception e" for j e
    by (cases j; auto)+
  then show ?thesis by (auto simp: json_throws_def)
qed

lemma jval_types: "json_types (jval_lib fs)"
proof -
  have "jval_is_null j \<Longrightarrow> jval_type j = VNull" "jval_type j = VString \<Longrightarrow> \<exists>s. jval_string j = Inr s"
    "jval_type j = VNumberUnsigned \<Longrightarrow> \<exists>p. jval_ushort j = Inr p" for j
    by (cases j; auto split: if_splits)+
  then show ?thesis by (simp add: json_types_def)
qed

lemma size_elements: "x \<in> set (jval_elements j) \<Longrightarrow> size x \<le> size j"
proof (cases j)
  case (JObj ms)
  assume "x \<in> set (jval_elements j)"
  then obtain k where "(k, x) \<in> set ms" using JObj by auto
  then have "size_prod (\<lambda>_. 0) size (k, x) \<le> size_list (size_prod (\<lambda>_. 0) size) ms"
    by (rule size_list_estimation') simp
  with JObj show ?thesis by simp
qed (auto dest: size_list_estimation' [where f = size])

lemma size_member: "jval_contains x k \<Longrightarrow> size (jval_at x k) < size x"
proof (cases x)
  case (JObj ms)
  assume "jval_contains x k"
  with JObj obtain v where v: "map_of ms k = Some v" by auto
  then have "(k, v) \<in> set ms" by (rule map_of_SomeD)
  then have "size_prod (\<lambda>_. 0) size (k, v) \<le> size_list (size_prod (\<lambda>_. 0) size) ms"
    by (rule size_list_estimation') simp
  with JObj v show ?thesis by simp
qed simp_all

lemma jval_nesting: "json_nesting (jval_lib fs) size"
  unfolding json_nesting_def
  by (auto intro: order_less_le_trans [OF size_member size_elements])

end
