(* ===== verification/Unordered_Map.thy ===== *)
theory Unordered_Map
  imports Prelude
begin

text \<open>
  \<open>std::unordered_map\<close> as the program uses it: an association list whose keys are distinct,
  with the container's \<open>contains\<close>, \<open>at\<close>, \<open>insert\<close> (which keeps the value of a key that is
  present), \<open>erase\<close> and \<open>size\<close>. The order of iteration is unspecified by the standard, so
  no operation here exposes it: the one loop of the program over such a map takes the order
  as a parameter (\<open>iteration_order\<close>).

  The locale \<open>keyed_store\<close> is the interface the game's variables share: reading by a key, and
  writing a key that must already exist. Its lemmas are proved once and reach the global
  variables, the variables of one player, and the whole game through interpretations.
\<close>

type_synonym ('k, 'v) umap = "('k \<times> 'v) list"

definition um_wf :: "('k, 'v) umap \<Rightarrow> bool" where
  "um_wf m \<longleftrightarrow> distinct (map fst m)"

definition um_contains :: "('k, 'v) umap \<Rightarrow> 'k \<Rightarrow> bool" where
  "um_contains m k \<longleftrightarrow> k \<in> set (map fst m)"

definition um_insert :: "('k, 'v) umap \<Rightarrow> 'k \<Rightarrow> 'v \<Rightarrow> ('k, 'v) umap" where
  "um_insert m k v = (if um_contains m k then m else m @ [(k, v)])"

definition um_erase :: "('k, 'v) umap \<Rightarrow> 'k \<Rightarrow> ('k, 'v) umap" where
  "um_erase m k = filter (\<lambda>p. fst p \<noteq> k) m"

text \<open>Mutation through the reference \<open>at(k)\<close> returns.\<close>

definition um_modify :: "('k, 'v) umap \<Rightarrow> 'k \<Rightarrow> ('v \<Rightarrow> 'v) \<Rightarrow> ('k, 'v) umap" where
  "um_modify m k f = map (\<lambda>p. if fst p = k then (fst p, f (snd p)) else p) m"

definition um_keys :: "('k, 'v) umap \<Rightarrow> 'k list" where
  "um_keys m = map fst m"

section \<open>Lookup after an update\<close>

lemma um_contains_iff: "um_contains m k \<longleftrightarrow> map_of m k \<noteq> None"
  by (simp add: um_contains_def map_of_eq_None_iff)

lemma um_contains_Some: "map_of m k = Some v \<Longrightarrow> um_contains m k"
  by (simp add: um_contains_iff)

lemma map_of_um_insert [store_simps]:
  "map_of (um_insert m k v) = (if um_contains m k then map_of m else (map_of m)(k \<mapsto> v))"
  by (auto simp: um_insert_def um_contains_iff map_add_def fun_eq_iff split: option.split)

lemma map_of_um_erase [store_simps]: "map_of (um_erase m k) = (map_of m)(k := None)"
  unfolding um_erase_def by (induction m) (auto simp: fun_eq_iff)

lemma map_of_um_modify [store_simps]:
  "map_of (um_modify m k f) = (map_of m)(k := map_option f (map_of m k))"
  unfolding um_modify_def by (induction m) (auto simp: fun_eq_iff)

lemma um_contains_erase [store_simps]: "um_contains (um_erase m k) j \<longleftrightarrow> j \<noteq> k \<and> um_contains m j"
  by (auto simp: um_contains_def um_erase_def)

lemma um_contains_modify [store_simps]: "um_contains (um_modify m k f) j \<longleftrightarrow> um_contains m j"
  by (simp add: um_contains_iff map_of_um_modify)

lemma um_contains_insert [store_simps]: "um_contains (um_insert m k v) j \<longleftrightarrow> j = k \<or> um_contains m j"
  by (auto simp: um_contains_def um_insert_def)

lemma um_erase_absent: "\<not> um_contains m k \<Longrightarrow> um_erase m k = m"
  unfolding um_erase_def um_contains_def by (induction m) auto

text \<open>The code overwrites a value by erasing the key and inserting it again.\<close>

lemma map_of_overwrite [store_simps]:
  "map_of (um_insert (um_erase m k) k v) = (map_of m)(k \<mapsto> v)"
  by (simp add: store_simps)

section \<open>Keys stay distinct\<close>

lemma um_wf_Nil [simp]: "um_wf []"
  by (simp add: um_wf_def)

lemma um_wf_insert [wf_intros]: "um_wf m \<Longrightarrow> um_wf (um_insert m k v)"
  by (auto simp: um_wf_def um_insert_def um_contains_def)

lemma um_wf_erase [wf_intros]: "um_wf m \<Longrightarrow> um_wf (um_erase m k)"
  by (auto simp: um_wf_def um_erase_def distinct_map_filter)

lemma map_fst_modify [store_simps]: "map fst (um_modify m k f) = map fst m"
  by (simp add: um_modify_def comp_def)

lemma um_wf_modify [wf_intros]: "um_wf m \<Longrightarrow> um_wf (um_modify m k f)"
  by (simp add: um_wf_def map_fst_modify)

lemma um_keys_modify [store_simps]: "um_keys (um_modify m k f) = um_keys m"
  by (simp add: um_keys_def map_fst_modify)

lemma set_um_keys: "set (um_keys m) = dom (map_of m)"
  by (simp add: um_keys_def dom_map_of_conv_image_fst)

section \<open>Iteration\<close>

text \<open>An order of iteration visits every element exactly once; nothing more is promised.\<close>

definition iteration_order :: "('k list \<Rightarrow> 'k list) \<Rightarrow> bool" where
  "iteration_order ord \<longleftrightarrow> (\<forall>ks. mset (ord ks) = mset ks)"

lemma iteration_order_set: "iteration_order ord \<Longrightarrow> set (ord ks) = set ks"
  unfolding iteration_order_def by (metis set_mset_mset)

lemma iteration_order_distinct: "iteration_order ord \<Longrightarrow> distinct (ord ks) \<longleftrightarrow> distinct ks"
  unfolding iteration_order_def by (metis mset_eq_imp_distinct_iff)

lemma iteration_order_length: "iteration_order ord \<Longrightarrow> length (ord ks) = length ks"
  unfolding iteration_order_def by (metis mset_eq_length)

lemma iteration_order_id: "iteration_order id"
  by (simp add: iteration_order_def)

lemma iteration_order_rev: "iteration_order rev"
  by (simp add: iteration_order_def)

section \<open>Stores of existing keys\<close>

locale keyed_store =
  fixes get :: "'s \<Rightarrow> 'k \<Rightarrow> 'v option"
    and put :: "'s \<Rightarrow> 'k \<Rightarrow> 'v \<Rightarrow> 's option"
  assumes put_None: "put s k v = None \<longleftrightarrow> get s k = None"
    and get_put: "put s k v = Some s' \<Longrightarrow> get s' = (get s)(k \<mapsto> v)"
begin

lemma put_Some: "get s k = Some u \<Longrightarrow> \<exists>s'. put s k v = Some s' \<and> get s' = (get s)(k \<mapsto> v)"
  using put_None [of s k v] get_put by (cases "put s k v") auto

lemma get_put_same: "put s k v = Some s' \<Longrightarrow> get s' k = Some v"
  by (simp add: get_put)

lemma get_put_other: "put s k v = Some s' \<Longrightarrow> j \<noteq> k \<Longrightarrow> get s' j = get s j"
  by (simp add: get_put)

lemma dom_put: "put s k v = Some s' \<Longrightarrow> dom (get s') = dom (get s)"
  using put_None [of s k v] by (auto simp: get_put)

lemma put_put:
  "put s k v = Some s' \<Longrightarrow> \<exists>s''. put s' k w = Some s'' \<and> get s'' = (get s)(k \<mapsto> w)"
  using put_Some [of s' k v w] by (simp add: get_put)

lemma put_commute:
  assumes "j \<noteq> k" "put s j v = Some s1" "put s1 k w = Some s2"
  shows "\<exists>t1 t2. put s k w = Some t1 \<and> put t1 j v = Some t2 \<and> get t2 = get s2"
proof -
  have "get s1 k = get s k" using assms by (simp add: get_put)
  then obtain t1 where t1: "put s k w = Some t1"
    using assms(3) put_None by (metis option.exhaust)
  moreover have "get t1 j = get s j" using t1 assms(1) by (simp add: get_put)
  then obtain t2 where t2: "put t1 j v = Some t2"
    using assms(2) put_None by (metis option.exhaust)
  ultimately show ?thesis
    using assms by (auto simp: get_put fun_upd_twist)
qed

end

text \<open>A map that overwrites by erasing and inserting is such a store.\<close>

definition um_put :: "('k, 'v) umap \<Rightarrow> 'k \<Rightarrow> 'v \<Rightarrow> ('k, 'v) umap option" where
  "um_put m k v = (if um_contains m k then Some (um_insert (um_erase m k) k v) else None)"

interpretation umap_store: keyed_store map_of um_put
  by unfold_locales (auto simp: um_put_def um_contains_iff map_of_overwrite split: if_splits)

end
