(* ===== verification/Game_State.thy ===== *)
theory Game_State
  imports Numbers Unordered_Map
begin

text \<open>
  The variables of a running game (\<open>src/GameState/GameState.cpp\<close>): global integer variables,
  one map of variables per player, and the active scope variables that \<open>forEach\<close> rules bind.
  A dotted name such as \<open>players.$player.input\<close> is first rewritten with the scope
  (\<open>parseRuntimeVariables\<close>) and then taken apart (\<open>extractPlayerVariableInfo\<close>).

  The contract of the component is stated over locations: a name resolves to a global variable
  or to a variable of one player, \<open>store\<close> reads the state as a map from locations, and
  \<open>getValue\<close> and \<open>setValue\<close> are a lookup and an update of that map.
\<close>

section \<open>State\<close>

type_synonym NestedVariableKey = string
type_synonym VariableKey = string
type_synonym VariableValue = int32
type_synonym VariableMap = "(VariableKey, VariableValue) umap"
type_synonym PlayerID = uintptr
type_synonym PlayerVariableMaps = "(VariableKey, VariableMap) umap"
type_synonym ActiveScopeVariableMap = "(VariableKey, PlayerID) umap"

record 'v GetResult =
  wasSuccessful :: bool
  result_value :: 'v

type_synonym GetVariableResult = "VariableValue GetResult"
type_synonym GetScopedVariableResult = "PlayerID GetResult"

text \<open>The default-initialised result \<open>{}\<close> the code returns on failure, and the successful one.\<close>

definition get_failed :: "('v::zero) GetResult" where
  "get_failed = \<lparr>wasSuccessful = False, result_value = 0\<rparr>"

definition get_ok :: "'v \<Rightarrow> 'v GetResult" where
  "get_ok v = \<lparr>wasSuccessful = True, result_value = v\<rparr>"

lemma get_result_simps [simp]:
  "wasSuccessful (get_ok v)" "result_value (get_ok v) = v"
  "\<not> wasSuccessful get_failed" "result_value get_failed = 0"
  by (simp_all add: get_ok_def get_failed_def)

datatype SetVariableResult = SetSuccess | SetFailure

record GameState =
  variableMap :: VariableMap
  playerVariableMaps :: PlayerVariableMaps
  activeScopeVariables :: ActiveScopeVariableMap

text \<open>The constructor: every player gets a copy of the per-player variables.\<close>

definition mkGameState :: "VariableMap \<Rightarrow> PlayerID list \<Rightarrow> VariableMap \<Rightarrow> GameState" where
  "mkGameState vm playerIds perPlayer =
     \<lparr>variableMap = vm,
      playerVariableMaps =
        foldl (\<lambda>m playerID. um_insert m (to_string playerID) perPlayer) [] playerIds,
      activeScopeVariables = []\<rparr>"

section \<open>Operations\<close>

definition getPlayerIDs :: "(string list \<Rightarrow> string list) \<Rightarrow> GameState \<Rightarrow> fault + PlayerID list" where
  "getPlayerIDs ord gs = mapR stoul (ord (um_keys (playerVariableMaps gs)))"

definition setActiveScopeVariable ::
    "GameState \<Rightarrow> VariableKey \<Rightarrow> PlayerID \<Rightarrow> SetVariableResult \<times> GameState" where
  "setActiveScopeVariable gs n v =
     (if um_contains (activeScopeVariables gs) n then (SetFailure, gs)
      else (SetSuccess, gs\<lparr>activeScopeVariables := um_insert (activeScopeVariables gs) n v\<rparr>))"

definition unsetActiveScopeVariable :: "GameState \<Rightarrow> VariableKey \<Rightarrow> SetVariableResult \<times> GameState" where
  "unsetActiveScopeVariable gs n =
     (if \<not> um_contains (activeScopeVariables gs) n then (SetFailure, gs)
      else (SetSuccess, gs\<lparr>activeScopeVariables := um_erase (activeScopeVariables gs) n\<rparr>))"

definition getActiveScopeVariable :: "GameState \<Rightarrow> VariableKey \<Rightarrow> GetScopedVariableResult" where
  "getActiveScopeVariable gs n =
     (case map_of (activeScopeVariables gs) n of None \<Rightarrow> get_failed | Some v \<Rightarrow> get_ok v)"

definition getVariable :: "GameState \<Rightarrow> VariableKey \<Rightarrow> GetVariableResult" where
  "getVariable gs n =
     (case map_of (variableMap gs) n of None \<Rightarrow> get_failed | Some v \<Rightarrow> get_ok v)"

definition setVariable ::
    "GameState \<Rightarrow> VariableKey \<Rightarrow> VariableValue \<Rightarrow> SetVariableResult \<times> GameState" where
  "setVariable gs n v =
     (if \<not> um_contains (variableMap gs) n then (SetFailure, gs)
      else (SetSuccess, gs\<lparr>variableMap := um_insert (um_erase (variableMap gs) n) n v\<rparr>))"

definition getPlayerVariable :: "GameState \<Rightarrow> PlayerID \<Rightarrow> VariableKey \<Rightarrow> GetVariableResult" where
  "getPlayerVariable gs pid n =
     (case map_of (playerVariableMaps gs) (to_string pid) of
        None \<Rightarrow> get_failed
      | Some playerVariables \<Rightarrow>
          (case map_of playerVariables n of None \<Rightarrow> get_failed | Some v \<Rightarrow> get_ok v))"

definition setPlayerVariable ::
    "GameState \<Rightarrow> PlayerID \<Rightarrow> VariableKey \<Rightarrow> VariableValue \<Rightarrow> SetVariableResult \<times> GameState" where
  "setPlayerVariable gs pid n v =
     (case map_of (playerVariableMaps gs) (to_string pid) of
        None \<Rightarrow> (SetFailure, gs)
      | Some playerVariables \<Rightarrow>
          (if \<not> um_contains playerVariables n then (SetFailure, gs)
           else (SetSuccess,
                 gs\<lparr>playerVariableMaps :=
                     um_modify (playerVariableMaps gs) (to_string pid)
                       (\<lambda>vars. um_insert (um_erase vars n) n v)\<rparr>)))"

text \<open>
  The loop of \<open>parseRuntimeVariables\<close>: the accumulated new name, and the suffix that starts at
  the current \<open>$\<close> (empty at \<open>end()\<close>). An unknown scope variable makes it return the empty name.
\<close>

function parseRuntimeLoop :: "GameState \<Rightarrow> string \<Rightarrow> string \<Rightarrow> string" where
  "parseRuntimeLoop gs newName [] = newName"
| "parseRuntimeLoop gs newName (d # s) =
     (let scopedVarEnd = find_from CHR ''.'' (d # s);
          scopedVariableName = until CHR ''.'' s;
          r = getActiveScopeVariable gs scopedVariableName
      in if \<not> wasSuccessful r then []
         else parseRuntimeLoop gs
                (newName @ to_string (result_value r) @ until CHR ''$'' scopedVarEnd)
                (find_from CHR ''$'' scopedVarEnd))"
  by pat_completeness auto
termination
proof (relation "measure (\<lambda>(gs, newName, s). length s)", goal_cases)
  case (2 gs newName d s scopedVarEnd)
  have "length (find_from CHR ''$'' s) \<le> length s" "length (find_from CHR ''.'' s) \<le> length s"
       "length (find_from CHR ''$'' (find_from CHR ''.'' s)) \<le> length (find_from CHR ''.'' s)"
    by (rule find_from_length)+
  with 2(1) show ?case by auto
qed simp

definition parseRuntimeVariables :: "GameState \<Rightarrow> NestedVariableKey \<Rightarrow> NestedVariableKey" where
  "parseRuntimeVariables gs raw =
     (if find_from CHR ''$'' raw = [] then raw
      else parseRuntimeLoop gs (until CHR ''$'' raw) (find_from CHR ''$'' raw))"

text \<open>
  \<open>playerIDStart_it++\<close> and \<open>playerIDEnd_it + 1\<close> move past \<open>end()\<close> when the name has fewer than
  two dots: undefined behaviour.
\<close>

definition extractPlayerVariableInfo :: "NestedVariableKey \<Rightarrow> fault + PlayerID \<times> VariableKey" where
  "extractPlayerVariableInfo n =
     (case find_from CHR ''.'' n of
        [] \<Rightarrow> Inl PastEndIterator
      | _ # playerIDStart \<Rightarrow>
          bindR (stoul (until CHR ''.'' playerIDStart)) (\<lambda>playerID.
            case find_from CHR ''.'' playerIDStart of
              [] \<Rightarrow> Inl PastEndIterator
            | _ # perPlayerVariableName \<Rightarrow> Inr (playerID, perPlayerVariableName)))"

definition getValue :: "GameState \<Rightarrow> NestedVariableKey \<Rightarrow> fault + GetVariableResult" where
  "getValue gs raw =
     (if str_find ''players'' raw = None then Inr (getVariable gs raw)
      else bindR (extractPlayerVariableInfo (parseRuntimeVariables gs raw)) (\<lambda>(pid, n).
             Inr (getPlayerVariable gs pid n)))"

definition setValue ::
    "GameState \<Rightarrow> NestedVariableKey \<Rightarrow> VariableValue \<Rightarrow> fault + SetVariableResult \<times> GameState" where
  "setValue gs raw v =
     (if str_find ''players'' raw = None then Inr (setVariable gs raw v)
      else bindR (extractPlayerVariableInfo (parseRuntimeVariables gs raw)) (\<lambda>(pid, n).
             Inr (setPlayerVariable gs pid n v)))"

section \<open>Locations\<close>

datatype location = GlobalVar VariableKey | PlayerVar PlayerID VariableKey

definition resolve :: "GameState \<Rightarrow> NestedVariableKey \<Rightarrow> fault + location" where
  "resolve gs raw =
     (if \<not> sublist ''players'' raw then Inr (GlobalVar raw)
      else bindR (extractPlayerVariableInfo (parseRuntimeVariables gs raw)) (\<lambda>(pid, n).
             Inr (PlayerVar pid n)))"

text \<open>The abstract state: the value at every location.\<close>

fun store :: "GameState \<Rightarrow> location \<Rightarrow> VariableValue option" where
  "store gs (GlobalVar n) = map_of (variableMap gs) n"
| "store gs (PlayerVar pid n) =
     Option.bind (map_of (playerVariableMaps gs) (to_string pid)) (\<lambda>vars. map_of vars n)"

definition scope :: "GameState \<Rightarrow> VariableKey \<Rightarrow> PlayerID option" where
  "scope gs = map_of (activeScopeVariables gs)"

definition players :: "GameState \<Rightarrow> PlayerID set" where
  "players gs = {pid. um_contains (playerVariableMaps gs) (to_string pid)}"

definition result_of :: "VariableValue option \<Rightarrow> GetVariableResult" where
  "result_of r = (case r of None \<Rightarrow> get_failed | Some v \<Rightarrow> get_ok v)"

lemma result_of_simps [simp]:
  "result_of None = get_failed" "result_of (Some v) = get_ok v"
  "wasSuccessful (result_of r) \<longleftrightarrow> r \<noteq> None"
  by (auto simp: result_of_def split: option.split)

text \<open>Writing a location through the class's private setters.\<close>

fun put_location :: "GameState \<Rightarrow> location \<Rightarrow> VariableValue \<Rightarrow> SetVariableResult \<times> GameState" where
  "put_location gs (GlobalVar n) v = setVariable gs n v"
| "put_location gs (PlayerVar pid n) v = setPlayerVariable gs pid n v"

definition put_opt :: "GameState \<Rightarrow> location \<Rightarrow> VariableValue \<Rightarrow> GameState option" where
  "put_opt gs l v = (case put_location gs l v of (SetSuccess, gs') \<Rightarrow> Some gs' | (SetFailure, _) \<Rightarrow> None)"

lemma store_setVariable [store_simps]:
  "setVariable gs n v = (SetSuccess, gs') \<Longrightarrow> store gs' = (store gs)(GlobalVar n \<mapsto> v)"
proof (rule ext)
  fix l assume "setVariable gs n v = (SetSuccess, gs')"
  then show "store gs' l = ((store gs)(GlobalVar n \<mapsto> v)) l"
    by (cases l) (auto simp: setVariable_def store_simps split: if_splits)
qed

lemma store_setPlayerVariable [store_simps]:
  "setPlayerVariable gs pid n v = (SetSuccess, gs') \<Longrightarrow>
   store gs' = (store gs)(PlayerVar pid n \<mapsto> v)"
proof (rule ext)
  fix l assume "setPlayerVariable gs pid n v = (SetSuccess, gs')"
  then show "store gs' l = ((store gs)(PlayerVar pid n \<mapsto> v)) l"
    by (cases l) (auto simp: setPlayerVariable_def store_simps split: if_splits option.splits)
qed

lemma setPlayerVariable_fails:
  "fst (setPlayerVariable gs pid n v) = SetFailure \<longleftrightarrow> store gs (PlayerVar pid n) = None"
  by (auto simp: setPlayerVariable_def um_contains_iff split: option.splits)

lemma setVariable_fails:
  "fst (setVariable gs n v) = SetFailure \<longleftrightarrow> store gs (GlobalVar n) = None"
  by (auto simp: setVariable_def um_contains_iff)

lemma put_location_fails: "fst (put_location gs l v) = SetFailure \<longleftrightarrow> store gs l = None"
  by (cases l) (simp_all add: setVariable_fails setPlayerVariable_fails)

lemma put_location_failure_unchanged: "put_location gs l v = (SetFailure, gs') \<Longrightarrow> gs' = gs"
  by (cases l) (auto simp: setVariable_def setPlayerVariable_def split: if_splits option.splits)

lemma store_put_location: "put_location gs l v = (SetSuccess, gs') \<Longrightarrow> store gs' = (store gs)(l \<mapsto> v)"
  by (cases l) (simp_all add: store_setVariable store_setPlayerVariable)

interpretation game_store: keyed_store store put_opt
proof unfold_locales
  fix gs l v
  show "put_opt gs l v = None \<longleftrightarrow> store gs l = None"
    using put_location_fails [of gs l v]
    by (auto simp: put_opt_def split: prod.split SetVariableResult.split)
next
  fix gs l v gs'
  show "put_opt gs l v = Some gs' \<Longrightarrow> store gs' = (store gs)(l \<mapsto> v)"
    by (auto simp: put_opt_def store_put_location split: prod.splits SetVariableResult.splits)
qed

text \<open>The access functions are a lookup and an update at the location the name resolves to.\<close>

lemma getValue_resolve: "getValue gs raw = bindR (resolve gs raw) (\<lambda>l. Inr (result_of (store gs l)))"
  by (auto simp: getValue_def resolve_def str_find_None getVariable_def getPlayerVariable_def
      result_of_def bindR_assoc bindR_def split: option.splits sum.splits)

lemma setValue_resolve: "setValue gs raw v = bindR (resolve gs raw) (\<lambda>l. Inr (put_location gs l v))"
  by (auto simp: setValue_def resolve_def str_find_None bindR_def split: sum.splits)

text \<open>What no assignment touches.\<close>

lemma put_location_frame:
  assumes "put_location gs l v = (r, gs')"
  shows "activeScopeVariables gs' = activeScopeVariables gs"
    and "um_keys (playerVariableMaps gs') = um_keys (playerVariableMaps gs)"
    and "players gs' = players gs"
    and "scope gs' = scope gs"
  using assms
  by (cases l; auto simp: setVariable_def setPlayerVariable_def um_keys_modify players_def scope_def
      um_contains_modify split: if_splits option.splits)+

lemma setValue_frame:
  assumes "setValue gs raw v = Inr (r, gs')"
  shows "activeScopeVariables gs' = activeScopeVariables gs"
    and "um_keys (playerVariableMaps gs') = um_keys (playerVariableMaps gs)"
    and "players gs' = players gs"
    and "scope gs' = scope gs"
    and "dom (store gs') = dom (store gs)"
proof -
  obtain l where l: "put_location gs l v = (r, gs')"
    using assms by (auto simp: setValue_resolve bindR_iffs)
  show "activeScopeVariables gs' = activeScopeVariables gs"
       "um_keys (playerVariableMaps gs') = um_keys (playerVariableMaps gs)"
       "players gs' = players gs" "scope gs' = scope gs"
    using l by (rule put_location_frame)+
  show "dom (store gs') = dom (store gs)"
  proof (cases r)
    case SetSuccess
    then show ?thesis
      using l game_store.dom_put [of gs l v gs'] by (simp add: put_opt_def)
  next
    case SetFailure
    then show ?thesis using l put_location_failure_unchanged by blast
  qed
qed

section \<open>Invariant\<close>

text \<open>
  Every container has distinct keys and the keys of the player maps are the decimal notations of
  identifiers, which is what lets \<open>getPlayerIDs\<close> read them back.
\<close>

definition gs_wf :: "GameState \<Rightarrow> bool" where
  "gs_wf gs \<longleftrightarrow>
     um_wf (variableMap gs) \<and> um_wf (playerVariableMaps gs) \<and> um_wf (activeScopeVariables gs) \<and>
     (\<forall>k \<in> set (um_keys (playerVariableMaps gs)). \<exists>pid. k = to_string pid)"

lemma gs_wf_setActive [wf_intros]: "gs_wf gs \<Longrightarrow> gs_wf (snd (setActiveScopeVariable gs n v))"
  by (simp add: gs_wf_def setActiveScopeVariable_def um_wf_insert)

lemma gs_wf_unsetActive [wf_intros]: "gs_wf gs \<Longrightarrow> gs_wf (snd (unsetActiveScopeVariable gs n))"
  by (simp add: gs_wf_def unsetActiveScopeVariable_def um_wf_erase)

lemma gs_wf_put_location [wf_intros]: "gs_wf gs \<Longrightarrow> gs_wf (snd (put_location gs l v))"
  by (cases l)
     (auto simp: gs_wf_def setVariable_def setPlayerVariable_def um_keys_modify
       intro!: um_wf_insert um_wf_erase um_wf_modify split: option.split)

lemma gs_wf_setValue [wf_intros]: "gs_wf gs \<Longrightarrow> setValue gs raw v = Inr (r, gs') \<Longrightarrow> gs_wf gs'"
  using gs_wf_put_location [of gs _ v] by (auto simp: setValue_resolve bindR_iffs) (metis snd_conv)

section \<open>Players\<close>

lemma mkGameState_players_aux:
  "um_wf m \<Longrightarrow> (\<forall>k \<in> set (um_keys m). \<exists>pid. k = to_string pid) \<Longrightarrow>
   (let m' = foldl (\<lambda>m playerID. um_insert m (to_string playerID) pm) m ids in
     um_wf m' \<and> (\<forall>k \<in> set (um_keys m'). \<exists>pid. k = to_string pid) \<and>
     map_of m' = (\<lambda>k. case map_of m k of Some x \<Rightarrow> Some x
                     | None \<Rightarrow> if k \<in> to_string ` set ids then Some pm else None))"
proof (induction ids arbitrary: m)
  case Nil
  then show ?case by (auto simp: Let_def fun_eq_iff split: option.split)
next
  case (Cons i ids)
  let ?m = "um_insert m (to_string i) pm"
  have "um_wf ?m" "\<forall>k \<in> set (um_keys ?m). \<exists>pid. k = to_string pid"
    using Cons.prems by (simp add: um_wf_insert) (use Cons.prems in \<open>auto simp: um_keys_def um_insert_def\<close>)
  from Cons.IH [OF this] show ?case
    by (auto simp: Let_def fun_eq_iff map_of_um_insert um_contains_iff split: option.splits if_splits)
qed

lemma mkGameState_players_map:
  "map_of (playerVariableMaps (mkGameState vm ids pm)) =
     (\<lambda>k. if k \<in> to_string ` set ids then Some pm else None)"
  using mkGameState_players_aux [of "[]" pm ids]
  by (simp add: mkGameState_def Let_def um_keys_def)

lemma gs_wf_mkGameState [wf_intros]: "um_wf vm \<Longrightarrow> gs_wf (mkGameState vm ids pm)"
  using mkGameState_players_aux [of "[]" pm ids]
  by (simp add: mkGameState_def gs_wf_def Let_def um_keys_def)

lemma players_mkGameState [simp]: "players (mkGameState vm ids pm) = set ids"
  by (auto simp: players_def um_contains_iff mkGameState_players_map split: if_splits)

lemma scope_mkGameState [simp]: "scope (mkGameState vm ids pm) = Map.empty"
  by (simp add: scope_def mkGameState_def)

lemma store_mkGameState:
  "store (mkGameState vm ids pm) (GlobalVar n) = map_of vm n"
  "store (mkGameState vm ids pm) (PlayerVar pid n) = (if pid \<in> set ids then map_of pm n else None)"
  by (auto simp: mkGameState_players_map) (simp add: mkGameState_def)

text \<open>The identifiers are read back exactly once each, whatever the order of iteration.\<close>

lemma getPlayerIDs_spec:
  assumes "iteration_order ord" "gs_wf gs"
  obtains ids where "getPlayerIDs ord gs = Inr ids" "distinct ids" "set ids = players gs"
proof -
  define ks where "ks = ord (um_keys (playerVariableMaps gs))"
  have ks: "distinct ks" "set ks = set (um_keys (playerVariableMaps gs))"
    using assms by (simp_all add: ks_def iteration_order_distinct iteration_order_set gs_wf_def
        um_wf_def um_keys_def)
  then have "\<forall>k \<in> set ks. \<exists>pid. k = to_string pid" using assms(2) by (auto simp: gs_wf_def)
  then obtain f where f: "\<forall>k \<in> set ks. k = to_string (f k)" by metis
  then have "mapR stoul ks = Inr (map f ks)"
    by (intro mapR_Inr) (metis stoul_to_string)
  moreover have "distinct (map f ks)"
    using ks(1) f by (metis distinct_map inj_onI)
  moreover have "set (map f ks) = players gs"
  proof -
    have "pid \<in> f ` set ks \<longleftrightarrow> to_string pid \<in> set ks" for pid
    proof
      assume "to_string pid \<in> set ks"
      moreover from this f have "to_string pid = to_string (f (to_string pid))" by blast
      ultimately show "pid \<in> f ` set ks" by simp
    qed (use f in auto)
    moreover have "players gs = {pid. to_string pid \<in> set ks}"
      using ks(2) by (simp add: players_def um_contains_def um_keys_def)
    ultimately show ?thesis by auto
  qed
  ultimately show ?thesis using that by (simp add: getPlayerIDs_def ks_def)
qed

section \<open>Scope\<close>

lemma store_scope_update [simp]: "store (gs\<lparr>activeScopeVariables := a\<rparr>) = store gs"
proof
  show "store (gs\<lparr>activeScopeVariables := a\<rparr>) l = store gs l" for l by (cases l) auto
qed

lemma players_scope_update [simp]: "players (gs\<lparr>activeScopeVariables := a\<rparr>) = players gs"
  by (simp add: players_def)

lemma setActive_spec:
  "setActiveScopeVariable gs n v = (SetSuccess, gs') \<Longrightarrow>
     scope gs n = None \<and> scope gs' = (scope gs)(n \<mapsto> v) \<and> store gs' = store gs \<and> players gs' = players gs"
  by (auto simp: setActiveScopeVariable_def scope_def um_contains_iff map_of_um_insert split: if_splits)

lemma setActive_ok:
  "scope gs n = None \<Longrightarrow> \<exists>gs'. setActiveScopeVariable gs n v = (SetSuccess, gs')"
  by (simp add: setActiveScopeVariable_def scope_def um_contains_iff)

lemma setActive_bound:
  "scope gs n = Some u \<Longrightarrow> setActiveScopeVariable gs n v = (SetFailure, gs)"
  by (simp add: setActiveScopeVariable_def scope_def um_contains_iff)

lemma unsetActive_spec:
  "unsetActiveScopeVariable gs n = (SetSuccess, gs') \<Longrightarrow>
     scope gs n \<noteq> None \<and> scope gs' = (scope gs)(n := None) \<and> store gs' = store gs \<and> players gs' = players gs"
  by (auto simp: unsetActiveScopeVariable_def scope_def um_contains_iff map_of_um_erase split: if_splits)

lemma unsetActive_ok:
  "scope gs n = Some u \<Longrightarrow> \<exists>gs'. unsetActiveScopeVariable gs n = (SetSuccess, gs')"
  by (simp add: unsetActiveScopeVariable_def scope_def um_contains_iff)

lemma getActive_scope:
  "getActiveScopeVariable gs n = (case scope gs n of None \<Rightarrow> get_failed | Some v \<Rightarrow> get_ok v)"
  by (simp add: getActiveScopeVariable_def scope_def)

section \<open>Run-time names\<close>

text \<open>
  What the iterator loop of \<open>parseRuntimeVariables\<close> computes: in every dot-separated component
  the part from its first \<open>$\<close> on is replaced by the identifier that part is bound to.
\<close>

definition substComponent :: "GameState \<Rightarrow> string \<Rightarrow> string option" where
  "substComponent gs w =
     (case find_from CHR ''$'' w of
        [] \<Rightarrow> Some w
      | _ # n \<Rightarrow> map_option (\<lambda>pid. until CHR ''$'' w @ to_string pid) (scope gs n))"

definition substName :: "GameState \<Rightarrow> string \<Rightarrow> string option" where
  "substName gs s =
     map_option (join_with CHR ''.'') (those (map (substComponent gs) (split_on CHR ''.'' s)))"

lemma those_not_Nil: "those (map f xs) = Some ys \<Longrightarrow> xs \<noteq> [] \<Longrightarrow> ys \<noteq> []"
  by (cases xs) (auto split: option.splits)

lemma substName_plain:
  assumes "CHR ''$'' \<notin> set s"
  shows "substName gs s = Some s"
proof -
  have "CHR ''$'' \<notin> set w" if "w \<in> set (split_on CHR ''.'' s)" for w
    using split_on_subset [OF that] assms by blast
  then have "map (substComponent gs) (split_on CHR ''.'' s) = map Some (split_on CHR ''.'' s)"
    by (simp add: substComponent_def find_from_notin)
  moreover have "those (map Some xs) = Some xs" for xs :: "string list" by (induction xs) auto
  ultimately have "those (map (substComponent gs) (split_on CHR ''.'' s)) = Some (split_on CHR ''.'' s)"
    by (simp only:)
  then show ?thesis by (simp add: substName_def join_split)
qed

lemma substName_Cons:
  assumes "CHR ''.'' \<notin> set w"
  shows "substName gs (w @ CHR ''.'' # r) =
     (case substComponent gs w of None \<Rightarrow> None
      | Some w' \<Rightarrow> map_option (\<lambda>r'. w' @ CHR ''.'' # r') (substName gs r))"
  using assms
  by (auto simp: substName_def split_on_append join_with_Cons map_option_case
      split: option.splits dest: those_not_Nil)

lemma substName_single: "CHR ''.'' \<notin> set w \<Longrightarrow> substName gs w = substComponent gs w"
  by (auto simp: substName_def split_on_notin split: option.split)

text \<open>
  The loop, started anywhere in the name with the text before the next \<open>$\<close> already appended,
  produces the component-wise substitution of what is left.
\<close>

lemma parseRuntimeLoop_eq:
  "parseRuntimeLoop gs (acc @ until CHR ''$'' t) (find_from CHR ''$'' t) =
     (case substName gs t of None \<Rightarrow> [] | Some t' \<Rightarrow> acc @ t')"
proof (induction t arbitrary: acc rule: length_induct)
  case (1 t)
  define w where "w = until CHR ''.'' t"
  define rest where "rest = find_from CHR ''.'' t"
  have t: "t = w @ rest" by (simp add: w_def rest_def until_find_from)
  have w: "CHR ''.'' \<notin> set w" by (simp add: w_def until_notin_set)
  have rest: "rest = [] \<or> (\<exists>r. rest = CHR ''.'' # r)"
    by (cases rest) (auto simp: rest_def dest: find_from_ConsD)
  show ?case
  proof (cases "CHR ''$'' \<in> set w")
    case False
    then show ?thesis
      using rest
    proof (elim disjE exE)
      assume "rest = []"
      with t False w show ?thesis
        by (simp add: substName_plain until_notin find_from_notin)
    next
      fix r assume r: "rest = CHR ''.'' # r"
      have "until CHR ''$'' t = w @ CHR ''.'' # until CHR ''$'' r"
           "find_from CHR ''$'' t = find_from CHR ''$'' r"
        using False t r by (simp_all add: until_skip find_from_skip)
      moreover have "length r < length t" using t r by simp
      note 1[rule_format, OF this, of "acc @ w @ CHR ''.'' # []"]
      ultimately show ?thesis
        using t r w False
        by (simp add: substName_Cons substComponent_def find_from_notin split: option.split)
    qed
  next
    case True
    then obtain p n where pn: "w = p @ CHR ''$'' # n" "CHR ''$'' \<notin> set p"
      by (meson split_list_first)
    have sub: "substComponent gs w = map_option (\<lambda>pid. p @ to_string pid) (scope gs n)"
      using pn by (simp add: substComponent_def find_from_append until_append)
    have t': "t = p @ CHR ''$'' # (n @ rest)" using t pn by simp
    have dots: "CHR ''.'' \<notin> set n" "CHR ''.'' \<notin> set p" using w pn by auto
    have nrest: "until CHR ''.'' (n @ rest) = n" "find_from CHR ''.'' (n @ rest) = rest"
      using rest dots by (auto simp: until_append find_from_append until_notin find_from_notin)
    have loop: "parseRuntimeLoop gs (acc @ until CHR ''$'' t) (find_from CHR ''$'' t) =
        (case scope gs n of None \<Rightarrow> []
         | Some pid \<Rightarrow> parseRuntimeLoop gs (acc @ p @ to_string pid @ until CHR ''$'' rest)
                        (find_from CHR ''$'' rest))"
      using pn(2) nrest
      by (simp add: t' until_append find_from_append Let_def getActive_scope split: option.split)
    show ?thesis
      using rest
    proof (elim disjE exE)
      assume "rest = []"
      with t w loop sub show ?thesis
        by (simp add: substName_single split: option.split)
    next
      fix r assume r: "rest = CHR ''.'' # r"
      have "length r < length t" using t r by simp
      note IH = 1[rule_format, OF this, of "acc @ p @ to_string pid @ CHR ''.'' # []" for pid]
      show ?thesis
        using t r w loop sub IH by (simp add: substName_Cons split: option.split)
    qed
  qed
qed

lemma parseRuntimeVariables_eq:
  "parseRuntimeVariables gs s = (case substName gs s of None \<Rightarrow> [] | Some s' \<Rightarrow> s')"
proof (cases "CHR ''$'' \<in> set s")
  case False
  then show ?thesis
    by (simp add: parseRuntimeVariables_def find_from_notin substName_plain)
next
  case True
  then show ?thesis
    using parseRuntimeLoop_eq [of gs "[]" s]
    by (simp add: parseRuntimeVariables_def find_from_Nil_iff split: option.split)
qed

section \<open>Resolving player names\<close>

lemma extract_spec:
  "extractPlayerVariableInfo n =
     (case split_on CHR ''.'' n of
        _ # pid # rest \<Rightarrow>
          bindR (stoul pid) (\<lambda>i. if rest = [] then Inl PastEndIterator else Inr (i, join_with CHR ''.'' rest))
      | _ \<Rightarrow> Inl PastEndIterator)"
proof (cases "find_from CHR ''.'' n")
  case Nil
  then show ?thesis by (simp add: split_on_until [of _ n] extractPlayerVariableInfo_def)
next
  case (Cons d s)
  show ?thesis
  proof (cases "find_from CHR ''.'' s")
    case Nil
    with Cons show ?thesis
      by (simp add: split_on_until [of _ n] split_on_until [of _ s] extractPlayerVariableInfo_def)
  next
    case (Cons d' s')
    with \<open>find_from CHR ''.'' n = d # s\<close> show ?thesis
      by (simp add: split_on_until [of _ n] split_on_until [of _ s] extractPlayerVariableInfo_def
          join_split)
  qed
qed

lemma extract_player_name:
  assumes "CHR ''.'' \<notin> set l"
  shows "extractPlayerVariableInfo (l @ CHR ''.'' # to_string pid @ CHR ''.'' # v) = Inr (pid, v)"
  using assms
  by (simp add: extractPlayerVariableInfo_def find_from_append until_append)

text \<open>The two forms of a player's variable the rules use: through a scope variable, or by identifier.\<close>

lemma substName_scoped:
  assumes "CHR ''.'' \<notin> set e" "CHR ''$'' \<notin> set v" "scope gs e = Some pid"
  shows "substName gs (''players.$'' @ e @ CHR ''.'' # v) =
         Some (''players.'' @ to_string pid @ CHR ''.'' # v)"
proof -
  have "substName gs (''players'' @ CHR ''.'' # (CHR ''$'' # e) @ CHR ''.'' # v) =
        Some (''players'' @ CHR ''.'' # to_string pid @ CHR ''.'' # v)"
    using assms
    by (subst substName_Cons, simp, subst substName_Cons, simp)
       (simp add: substComponent_def substName_plain)
  then show ?thesis by simp
qed

lemma resolve_scoped:
  assumes "CHR ''.'' \<notin> set e" "CHR ''$'' \<notin> set v" "scope gs e = Some pid"
  shows "resolve gs (''players.$'' @ e @ CHR ''.'' # v) = Inr (PlayerVar pid v)"
proof -
  have "sublist ''players'' (''players.$'' @ e @ CHR ''.'' # v)"
    by (rule prefix_imp_sublist) simp
  moreover have "extractPlayerVariableInfo (''players'' @ CHR ''.'' # to_string pid @ CHR ''.'' # v)
     = Inr (pid, v)"
    by (rule extract_player_name) simp
  ultimately show ?thesis
    using substName_scoped [OF assms]
    by (simp add: resolve_def parseRuntimeVariables_eq)
qed

lemma resolve_direct:
  assumes "CHR ''$'' \<notin> set v"
  shows "resolve gs (''players.'' @ to_string pid @ CHR ''.'' # v) = Inr (PlayerVar pid v)"
proof -
  have "sublist ''players'' (''players.'' @ to_string pid @ CHR ''.'' # v)"
    by (rule prefix_imp_sublist) simp
  moreover have "extractPlayerVariableInfo (''players'' @ CHR ''.'' # to_string pid @ CHR ''.'' # v)
     = Inr (pid, v)"
    by (rule extract_player_name) simp
  ultimately show ?thesis
    using assms substName_plain [of "''players.'' @ to_string pid @ CHR ''.'' # v" gs]
    by (simp add: resolve_def parseRuntimeVariables_eq)
qed

lemma resolve_global: "\<not> sublist ''players'' n \<Longrightarrow> resolve gs n = Inr (GlobalVar n)"
  by (simp add: resolve_def)

text \<open>An unbound scope variable leaves the empty name, which has no dot to stop at.\<close>

lemma resolve_unbound:
  "sublist ''players'' raw \<Longrightarrow> substName gs raw = None \<Longrightarrow> resolve gs raw = Inl PastEndIterator"
  by (simp add: resolve_def parseRuntimeVariables_eq extractPlayerVariableInfo_def)

lemma resolve_few_dots:
  "sublist ''players'' raw \<Longrightarrow> CHR ''$'' \<notin> set raw \<Longrightarrow> CHR ''.'' \<notin> set raw \<Longrightarrow>
   resolve gs raw = Inl PastEndIterator"
  by (simp add: resolve_def parseRuntimeVariables_eq substName_plain extractPlayerVariableInfo_def
      find_from_notin)

text \<open>Resolution only looks at the scope.\<close>

lemma substName_scope:
  assumes "scope gs' = scope gs"
  shows "substName gs' s = substName gs s"
proof -
  have "substComponent gs' = substComponent gs"
    by (rule ext) (simp add: substComponent_def assms split: list.split)
  then show ?thesis by (simp add: substName_def)
qed

lemma resolve_scope: "scope gs' = scope gs \<Longrightarrow> resolve gs' raw = resolve gs raw"
  using substName_scope [of gs' gs raw] by (simp add: resolve_def parseRuntimeVariables_eq)

lemma extract_faults: "extractPlayerVariableInfo n = Inl e \<Longrightarrow> e = PastEndIterator \<or> is_exception e"
  by (auto simp: extractPlayerVariableInfo_def bindR_eq_Inl neq_Nil_conv dest: stoul_exception
      split: list.split_asm)

lemma resolve_faults: "resolve gs raw = Inl e \<Longrightarrow> e = PastEndIterator \<or> is_exception e"
  by (auto simp: resolve_def bindR_eq_Inl dest: extract_faults split: if_split_asm)

section \<open>Properties\<close>

text \<open>A state with two players, one of them bound to a scope variable.\<close>

definition two_players :: GameState where
  "two_players =
     (mkGameState [(''debug_target'', 0)] [7, 8] [(''score'', 5)])\<lparr>activeScopeVariables := [(''p'', 7)]\<rparr>"

lemma two_players_wf: "gs_wf two_players"
  using gs_wf_mkGameState [of "[(''debug_target'', 0)]" "[7, 8]" "[(''score'', 5)]"]
  by (simp add: two_players_def gs_wf_def um_wf_def)

lemma two_players_names:
  "scope two_players ''p'' = Some 7" "store two_players (PlayerVar 7 ''score'') = Some 5"
  "store two_players (PlayerVar 8 ''score'') = Some 5"
  "resolve two_players ''players.$p.score'' = Inr (PlayerVar 7 ''score'')"
  "resolve two_players ''players.7.score'' = Inr (PlayerVar 7 ''score'')"
  "resolve two_players ''players.8.score'' = Inr (PlayerVar 8 ''score'')"
proof -
  show p: "scope two_players ''p'' = Some 7" by code_simp
  show "store two_players (PlayerVar 7 ''score'') = Some 5"
    "store two_players (PlayerVar 8 ''score'') = Some 5" by code_simp+
  have n: "to_string 7 = ''7''" "to_string 8 = ''8''" by code_simp+
  show "resolve two_players ''players.$p.score'' = Inr (PlayerVar 7 ''score'')"
    using resolve_scoped [of "''p''" "''score''", OF _ _ p] by simp
  show "resolve two_players ''players.7.score'' = Inr (PlayerVar 7 ''score'')"
    "resolve two_players ''players.8.score'' = Inr (PlayerVar 8 ''score'')"
    using resolve_direct [of "''score''" two_players 7] resolve_direct [of "''score''" two_players 8] n by simp_all
qed

text \<open>
  C2. \<open>setValue\<close> refines an update of the abstract store: it faults exactly when the name does not
  resolve; otherwise it succeeds exactly when the location it resolves to already exists, then
  changes the value at that location alone, and on failure changes nothing. The scope and
  the players are kept.
\<close>

theorem setValue_refines_store:
  "case setValue gs raw v of
     Inl e \<Rightarrow> resolve gs raw = Inl e
   | Inr (r, gs') \<Rightarrow> \<exists>l. resolve gs raw = Inr l \<and>
       (r = SetSuccess) = (store gs l \<noteq> None) \<and>
       store gs' = (if store gs l = None then store gs else (store gs)(l \<mapsto> v)) \<and>
       scope gs' = scope gs \<and> players gs' = players gs"
proof (cases "resolve gs raw")
  case (Inr l)
  obtain r gs' where p: "put_location gs l v = (r, gs')" by fastforce
  have "store gs' = (if store gs l = None then store gs else (store gs)(l \<mapsto> v)) \<and>
        (r = SetSuccess) = (store gs l \<noteq> None)"
    using p put_location_fails [of gs l v] store_put_location [of gs l v gs']
      put_location_failure_unchanged [of gs l v gs'] by (cases r) auto
  with Inr p show ?thesis
    using put_location_frame [OF p] by (simp add: setValue_resolve)
qed (simp add: setValue_resolve)

text \<open>
  Reading after writing: the new value is seen through every name that resolves to the location
  written, every other name reads as before, and an unsuccessful \<open>setValue\<close> is not seen at all.
\<close>

theorem getValue_setValue:
  assumes "setValue gs raw v = Inr (r, gs')"
  shows "getValue gs' other =
    (if r = SetSuccess \<and> resolve gs other = resolve gs raw then Inr (get_ok v) else getValue gs other)"
proof -
  obtain l where l: "resolve gs raw = Inr l" "put_location gs l v = (r, gs')"
    using assms by (auto simp: setValue_resolve bindR_iffs)
  have "scope gs' = scope gs" using put_location_frame(4) [OF l(2)] .
  then have other: "resolve gs' other = resolve gs other" by (rule resolve_scope)
  show ?thesis
  proof (cases r)
    case SetSuccess
    then have "store gs' = (store gs)(l \<mapsto> v)" using l(2) store_put_location by simp
    with other l(1) SetSuccess show ?thesis
      by (cases "resolve gs other") (auto simp: getValue_resolve)
  next
    case SetFailure
    then have "gs' = gs" using l(2) put_location_failure_unchanged by simp
    with SetFailure show ?thesis by simp
  qed
qed

theorem getValue_setValue_witness:
  "\<exists>gs. setValue two_players ''players.$p.score'' 9 = Inr (SetSuccess, gs) \<and>
        getValue gs ''players.7.score'' = Inr (get_ok 9) \<and> getValue gs ''players.8.score'' = Inr (get_ok 5)"
proof -
  obtain gs where s: "setValue two_players ''players.$p.score'' 9 = Inr (SetSuccess, gs)"
    using put_location_fails [of two_players "PlayerVar 7 ''score''" 9] two_players_names
    by (cases "put_location two_players (PlayerVar 7 ''score'') 9"; cases "fst (put_location two_players (PlayerVar 7 ''score'') 9)")
       (auto simp: setValue_resolve)
  have "getValue two_players ''players.8.score'' = Inr (get_ok 5)"
    by (simp add: getValue_resolve two_players_names del: store.simps)
  then show ?thesis
    using s getValue_setValue [OF s, of "''players.7.score''"] getValue_setValue [OF s, of "''players.8.score''"]
    by (simp add: two_players_names)
qed

text \<open>
  C3. The iterator loop of \<open>parseRuntimeVariables\<close> computes the component-wise substitution: the
  name is split at its dots, in each component the part from the first \<open>$\<close> on is replaced by the
  identifier bound to it, and the components are joined again; if one of them is not bound the
  result is the empty name.
\<close>

theorem parseRuntimeVariables_substitutes:
  "parseRuntimeVariables gs raw =
     (case those (map (substComponent gs) (split_on CHR ''.'' raw)) of
        None \<Rightarrow> []
      | Some ws \<Rightarrow> join_with CHR ''.'' ws)"
  by (simp add: parseRuntimeVariables_eq substName_def split: option.split)

text \<open>
  A name \<open>players.$e.v\<close> reads variable \<open>v\<close> of the player bound to \<open>e\<close>, and the name
  \<open>players.N.v\<close> that of the player with identifier N; both fail without a fault when that player
  has no such variable.
\<close>

theorem getValue_player_names:
  assumes "CHR ''.'' \<notin> set e" "CHR ''$'' \<notin> set v" "scope gs e = Some pid"
  shows "getValue gs (''players.$'' @ e @ CHR ''.'' # v) = Inr (result_of (store gs (PlayerVar pid v))) \<and>
    getValue gs (''players.'' @ to_string pid @ CHR ''.'' # v) = Inr (result_of (store gs (PlayerVar pid v)))"
  using resolve_scoped [OF assms] resolve_direct [OF assms(2)] by (simp_all add: getValue_resolve)

theorem getValue_player_names_witness:
  "getValue two_players ''players.$p.score'' = Inr (result_of (store two_players (PlayerVar 7 ''score''))) \<and>
   getValue two_players (''players.'' @ to_string 7 @ ''.score'') =
     Inr (result_of (store two_players (PlayerVar 7 ''score'')))"
proof -
  from getValue_player_names [of "''p''" "''score''", OF _ _ two_players_names(1)] show ?thesis by simp
qed

lemma those_None: "None \<in> set xs \<Longrightarrow> those xs = None"
  by (induction xs) (auto split: option.split)

text \<open>
  C29. A name that contains \<open>players\<close> and a component \<open>$e\<close> whose scope variable is not bound makes
  both \<open>getValue\<close> and \<open>setValue\<close> move an iterator past the end: the empty name that
  \<open>parseRuntimeVariables\<close> returns to signal the error is taken apart like any other.
\<close>

theorem unbound_scope_variable_undefined:
  assumes "sublist ''players'' raw" "CHR ''$'' # e \<in> set (split_on CHR ''.'' raw)" "scope gs e = None"
  shows "getValue gs raw = Inl PastEndIterator \<and> setValue gs raw v = Inl PastEndIterator"
proof -
  have "substComponent gs (CHR ''$'' # e) = None" using assms(3) by (simp add: substComponent_def)
  then have "None \<in> set (map (substComponent gs) (split_on CHR ''.'' raw))" using assms(2) by force
  then have "substName gs raw = None" unfolding substName_def by (subst those_None) simp_all
  with assms(1) have "resolve gs raw = Inl PastEndIterator" by (rule resolve_unbound)
  then show ?thesis
    by (simp_all add: getValue_resolve setValue_resolve)
qed

theorem unbound_scope_variable_undefined_witness:
  "getValue two_players ''players.$q.score'' = Inl PastEndIterator \<and>
   setValue two_players ''players.$q.score'' 1 = Inl PastEndIterator"
proof -
  have a: "sublist ''players'' ''players.$q.score''"
    "''$q'' \<in> set (split_on CHR ''.'' ''players.$q.score'')" "scope two_players ''q'' = None" by code_simp+
  from unbound_scope_variable_undefined [OF a] show ?thesis .
qed

text \<open>
  \<open>getPlayerIDs\<close> reads the identifiers back from the decimal keys of the map: whatever the order
  in which the map is traversed it throws nothing and lists every player once.
\<close>

theorem getPlayerIDs_complete:
  assumes "iteration_order ord" "gs_wf gs"
  shows "\<exists>ids. getPlayerIDs ord gs = Inr ids \<and> distinct ids \<and> set ids = players gs"
  using getPlayerIDs_spec [OF assms] by blast

theorem getPlayerIDs_complete_witness:
  "\<exists>ids. getPlayerIDs rev two_players = Inr ids \<and> distinct ids \<and> set ids = players two_players"
  by (rule getPlayerIDs_complete [OF iteration_order_rev two_players_wf])

text \<open>
  The constructed game state: the global variables as given, each listed player with its own
  copy of the per-player variables, nobody else, and no scope variable.
\<close>

theorem mkGameState_initial:
  "store (mkGameState vm ids perPlayer) =
     (\<lambda>l. case l of
            GlobalVar n \<Rightarrow> map_of vm n
          | PlayerVar pid n \<Rightarrow> if pid \<in> set ids then map_of perPlayer n else None) \<and>
   players (mkGameState vm ids perPlayer) = set ids \<and> scope (mkGameState vm ids perPlayer) = Map.empty"
proof -
  have "store (mkGameState vm ids perPlayer) l =
     (case l of GlobalVar n \<Rightarrow> map_of vm n
      | PlayerVar pid n \<Rightarrow> if pid \<in> set ids then map_of perPlayer n else None)" for l
    by (cases l) (simp_all only: store_mkGameState location.simps)
  then show ?thesis by auto
qed

end
