(* ===== verification/Game_Rules.thy ===== *)
theory Game_Rules
  imports Game_State
begin

text \<open>
  The rule interpreter (\<open>src/GameRules/GameRules.cpp\<close>). A rule object is a constructor of the
  datatype \<open>rule\<close>, its \<open>executeRuleImpl\<close> one equation of the interpreter; the state holds the
  game's variables and the lines \<open>GlobalMessageRule\<close> logs. The other calls of \<open>LOG\<close> are
  diagnostics and are left out.

  The \<open>while\<close> loop of \<open>LoopRule\<close> may run forever, so the interpreter takes fuel, spent by loop
  iterations only: \<open>OutOfFuel\<close> says that the fuel given did not suffice. The lemmas show that
  more fuel never changes another outcome, and that rules without a loop need none.
\<close>

section \<open>Rules\<close>

datatype rule =
    AddRule VariableKey VariableValue
  | GlobalMessageRule string
  | LoopRule string "rule list"
  | InputTextRule string string string
  | ForEachRule VariableKey VariableKey "rule list"

datatype RuleExecutionResult = RuleSuccess | RuleFailure

record ExecState =
  game :: GameState
  messages :: "string list"

type_synonym outcome = "fault + RuleExecutionResult \<times> ExecState"

text \<open>\<open>if (... == FAILURE) return FAILURE;\<close> before the rest of a function.\<close>

definition andThen :: "outcome \<Rightarrow> (ExecState \<Rightarrow> outcome) \<Rightarrow> outcome" where
  "andThen m k =
     bindR m (\<lambda>(r, st). case r of RuleFailure \<Rightarrow> Inr (RuleFailure, st) | RuleSuccess \<Rightarrow> k st)"

lemma andThen_simps [simp]:
  "andThen (Inl e) k = Inl e"
  "andThen (Inr (RuleFailure, st)) k = Inr (RuleFailure, st)"
  "andThen (Inr (RuleSuccess, st)) k = k st"
  by (simp_all add: andThen_def)

lemma andThen_cong [fundef_cong]:
  assumes "m = m'" and "\<And>st. m' = Inr (RuleSuccess, st) \<Longrightarrow> k st = k' st"
  shows "andThen m k = andThen m' k'"
  using assms by (auto simp: andThen_def bindR_def split: sum.split RuleExecutionResult.split)

lemma andThen_cases:
  obtains (fault) e where "m = Inl e"
  | (failure) st where "m = Inr (RuleFailure, st)"
  | (success) st where "m = Inr (RuleSuccess, st)"
  by (metis RuleExecutionResult.exhaust sum.exhaust surj_pair)

lemma andThen_eq_Inl:
  "andThen m k = Inl e \<longleftrightarrow> m = Inl e \<or> (\<exists>st. m = Inr (RuleSuccess, st) \<and> k st = Inl e)"
  by (cases m rule: andThen_cases) auto

lemma andThen_eq_Inr:
  "andThen m k = Inr (r, st') \<longleftrightarrow>
     m = Inr (RuleFailure, st') \<and> r = RuleFailure \<or>
     (\<exists>st. m = Inr (RuleSuccess, st) \<and> k st = Inr (r, st'))"
  by (cases m rule: andThen_cases) auto

lemmas andThen_iffs = andThen_eq_Inl andThen_eq_Inr

section \<open>The interpreter\<close>

definition executeAddRule :: "VariableKey \<Rightarrow> VariableValue \<Rightarrow> ExecState \<Rightarrow> outcome" where
  "executeAddRule addTarget val st =
     bindR (getValue (game st) addTarget) (\<lambda>r.
       if \<not> wasSuccessful r then Inr (RuleFailure, st)
       else bindR (add_int (result_value r) val) (\<lambda>newTargetValue.
         bindR (setValue (game st) addTarget newTargetValue) (\<lambda>(sr, gs).
           case sr of
             SetFailure \<Rightarrow> Inr (RuleFailure, st\<lparr>game := gs\<rparr>)
           | SetSuccess \<Rightarrow> Inr (RuleSuccess, st\<lparr>game := gs\<rparr>))))"

definition executeGlobalMessageRule :: "string \<Rightarrow> ExecState \<Rightarrow> outcome" where
  "executeGlobalMessageRule messageValue st =
     Inr (RuleSuccess, st\<lparr>messages := messages st @ [''Msg: '' @ messageValue]\<rparr>)"

text \<open>The input itself is not implemented in the code: a fixed value is stored and the rule fails.\<close>

definition executeInputTextRule :: "string \<Rightarrow> string \<Rightarrow> string \<Rightarrow> ExecState \<Rightarrow> outcome" where
  "executeInputTextRule targettedUser inputPrompt resultVariable st =
     bindR (getValue (game st) targettedUser) (\<lambda>r.
       if \<not> wasSuccessful r then Inr (RuleFailure, st)
       else bindR (setValue (game st) resultVariable 123456789) (\<lambda>(sr, gs).
         Inr (RuleFailure, st\<lparr>game := gs\<rparr>)))"

fun executeRule :: "(string list \<Rightarrow> string list) \<Rightarrow> nat \<Rightarrow> rule \<Rightarrow> ExecState \<Rightarrow> outcome"
and executeRules :: "(string list \<Rightarrow> string list) \<Rightarrow> nat \<Rightarrow> rule list \<Rightarrow> ExecState \<Rightarrow> outcome"
and executeLoop :: "(string list \<Rightarrow> string list) \<Rightarrow> nat \<Rightarrow> rule list \<Rightarrow> ExecState \<Rightarrow> outcome"
and executeForEach :: "(string list \<Rightarrow> string list) \<Rightarrow> nat \<Rightarrow> VariableKey \<Rightarrow> rule list \<Rightarrow>
      PlayerID list \<Rightarrow> ExecState \<Rightarrow> outcome" where
  "executeRule ord n (AddRule t v) st = executeAddRule t v st"
| "executeRule ord n (GlobalMessageRule m) st = executeGlobalMessageRule m st"
| "executeRule ord n (LoopRule stopCondition rules) st =
     bindR (getValue (game st) ''debug_target'') (\<lambda>r.
       if \<not> wasSuccessful r then Inr (RuleFailure, st) else executeLoop ord n rules st)"
| "executeRule ord n (InputTextRule u p v) st = executeInputTextRule u p v st"
| "executeRule ord n (ForEachRule listName elementName rules) st =
     (if listName \<noteq> ''players'' then Inr (RuleFailure, st)
      else bindR (getPlayerIDs ord (game st)) (\<lambda>playerIDs.
             executeForEach ord n elementName rules playerIDs st))"
| "executeRules ord n [] st = Inr (RuleSuccess, st)"
| "executeRules ord n (r # rs) st = andThen (executeRule ord n r st) (\<lambda>st'. executeRules ord n rs st')"
| "executeLoop ord n rules st =
     bindR (getValue (game st) ''debug_target'') (\<lambda>r.
       if result_value r = 10 then Inr (RuleSuccess, st)
       else case n of
              0 \<Rightarrow> Inl OutOfFuel
            | Suc m \<Rightarrow> andThen (executeRules ord m rules st) (\<lambda>st'. executeLoop ord m rules st'))"
| "executeForEach ord n elementName rules [] st = Inr (RuleSuccess, st)"
| "executeForEach ord n elementName rules (playerID # playerIDs) st =
     (case setActiveScopeVariable (game st) elementName playerID of
        (SetFailure, gs) \<Rightarrow> Inr (RuleFailure, st\<lparr>game := gs\<rparr>)
      | (SetSuccess, gs) \<Rightarrow>
          andThen (executeRules ord n rules (st\<lparr>game := gs\<rparr>)) (\<lambda>st'.
            case unsetActiveScopeVariable (game st') elementName of
              (SetFailure, gs') \<Rightarrow> Inr (RuleFailure, st'\<lparr>game := gs'\<rparr>)
            | (SetSuccess, gs') \<Rightarrow>
                executeForEach ord n elementName rules playerIDs (st'\<lparr>game := gs'\<rparr>)))"

declare executeLoop.simps [simp del]

section \<open>The rules over locations\<close>

lemma put_location_case:
  "store gs l = Some u \<Longrightarrow>
   (case put_location gs l w of (sr, g) \<Rightarrow> (case sr of SetFailure \<Rightarrow> h g | SetSuccess \<Rightarrow> f g)) =
   f (snd (put_location gs l w))"
  using put_location_fails [of gs l w]
  by (cases "put_location gs l w"; cases "fst (put_location gs l w)") auto

lemma executeAddRule_spec:
  "executeAddRule t v st =
     bindR (resolve (game st) t) (\<lambda>l.
       case store (game st) l of
         None \<Rightarrow> Inr (RuleFailure, st)
       | Some u \<Rightarrow> bindR (add_int u v) (\<lambda>w.
           Inr (RuleSuccess, st\<lparr>game := snd (put_location (game st) l w)\<rparr>)))"
proof (cases "resolve (game st) t")
  case (Inr l)
  then show ?thesis
    by (cases "store (game st) l")
       (simp_all add: executeAddRule_def getValue_resolve setValue_resolve put_location_case)
qed (simp add: executeAddRule_def getValue_resolve)

lemma store_put_location_Some:
  "store gs l = Some u \<Longrightarrow> store (snd (put_location gs l w)) = (store gs)(l \<mapsto> w)"
  using put_location_fails [of gs l w] store_put_location [of gs l w "snd (put_location gs l w)"]
  by (cases "put_location gs l w"; cases "fst (put_location gs l w)") auto

lemma debug_target_global: "\<not> sublist ''players'' ''debug_target''"
  by (simp add: str_find_None [symmetric])

definition debug_target :: "GameState \<Rightarrow> VariableValue option" where
  "debug_target gs = map_of (variableMap gs) ''debug_target''"

lemma getValue_debug_target [simp]:
  "getValue gs ''debug_target'' = Inr (result_of (debug_target gs))"
  by (simp add: getValue_resolve resolve_global debug_target_global debug_target_def)

lemma result_value_10: "result_value (result_of x) = 10 \<longleftrightarrow> x = Some (10 :: int32)"
  by (auto simp: result_of_def split: option.split)

section \<open>What every execution preserves\<close>

text \<open>
  Whatever the outcome, no execution adds or removes a variable or a player, breaks the invariant
  of the game state or retracts a message; when it succeeds, the scope is what it was.
\<close>

definition exec_frame :: "ExecState \<Rightarrow> ExecState \<Rightarrow> bool" where
  "exec_frame st st' \<longleftrightarrow>
     dom (store (game st')) = dom (store (game st)) \<and>
     players (game st') = players (game st) \<and>
     (gs_wf (game st) \<longrightarrow> gs_wf (game st')) \<and>
     prefix (messages st) (messages st')"

definition exec_ok :: "ExecState \<Rightarrow> outcome \<Rightarrow> bool" where
  "exec_ok st out \<longleftrightarrow>
     (case out of
        Inl e \<Rightarrow> True
      | Inr (r, st') \<Rightarrow> exec_frame st st' \<and> (r = RuleSuccess \<longrightarrow> scope (game st') = scope (game st)))"

lemma exec_frame_refl [simp]: "exec_frame st st"
  by (simp add: exec_frame_def)

lemma exec_frame_trans: "exec_frame s t \<Longrightarrow> exec_frame t u \<Longrightarrow> exec_frame s u"
  by (auto simp: exec_frame_def)

lemma exec_ok_simps [simp]:
  "exec_ok st (Inl e)"
  "exec_ok st (Inr (RuleFailure, st')) \<longleftrightarrow> exec_frame st st'"
  "exec_ok st (Inr (RuleSuccess, st')) \<longleftrightarrow> exec_frame st st' \<and> scope (game st') = scope (game st)"
  by (simp_all add: exec_ok_def)

lemma exec_ok_trans:
  "exec_frame st st' \<Longrightarrow> scope (game st') = scope (game st) \<Longrightarrow> exec_ok st' out \<Longrightarrow> exec_ok st out"
  by (auto simp: exec_ok_def split: sum.splits dest: exec_frame_trans)

lemma exec_ok_andThen:
  assumes "exec_ok st m" "\<And>st'. m = Inr (RuleSuccess, st') \<Longrightarrow> exec_ok st' (k st')"
  shows "exec_ok st (andThen m k)"
  using assms by (cases m rule: andThen_cases) (auto intro: exec_ok_trans)

lemma exec_frame_put_location: "exec_frame st (st\<lparr>game := snd (put_location (game st) l w)\<rparr>)"
proof -
  obtain r gs where p: "put_location (game st) l w = (r, gs)" by fastforce
  have "dom (store gs) = dom (store (game st))"
    using p store_put_location [of "game st" l w gs] put_location_fails [of "game st" l w]
      put_location_failure_unchanged [of "game st" l w gs]
    by (cases r) auto
  then show ?thesis
    using put_location_frame [OF p] gs_wf_put_location [of "game st" l w] p
    by (simp add: exec_frame_def)
qed

lemma exec_frame_put: "put_location (game st) l w = (r, gs) \<Longrightarrow> exec_frame st (st\<lparr>game := gs\<rparr>)"
  by (metis exec_frame_put_location snd_conv)

lemma exec_ok_AddRule: "exec_ok st (executeAddRule t v st)"
  by (auto simp: executeAddRule_spec bindR_def exec_frame_put_location
      intro: put_location_frame(4) [OF prod.collapse [symmetric]] split: sum.split option.split)

lemma exec_ok_InputTextRule: "exec_ok st (executeInputTextRule u p v st)"
  by (auto simp: executeInputTextRule_def getValue_resolve setValue_resolve bindR_def
      exec_frame_put_location dest: exec_frame_put split: sum.split)

lemma exec_ok_GlobalMessageRule: "exec_ok st (executeGlobalMessageRule m st)"
  by (simp add: executeGlobalMessageRule_def exec_frame_def)

lemma exec_frame_scope:
  "setActiveScopeVariable (game st) e p = (r, gs) \<Longrightarrow> exec_frame st (st\<lparr>game := gs\<rparr>)"
  "unsetActiveScopeVariable (game st) e = (r, gs) \<Longrightarrow> exec_frame st (st\<lparr>game := gs\<rparr>)"
  by (auto simp: exec_frame_def setActiveScopeVariable_def unsetActiveScopeVariable_def gs_wf_def
      um_wf_insert um_wf_erase split: if_splits)

lemma execute_ok:
  "exec_ok st (executeRule ord n r st)"
  "exec_ok st (executeRules ord n rs st)"
  "exec_ok st (executeLoop ord n rs st)"
  "exec_ok st (executeForEach ord n e rs ids st)"
proof (induction ord n r st and ord n rs st and ord n rs st and ord n e rs ids st
    rule: executeRule_executeRules_executeLoop_executeForEach.induct)
  case (8 ord n rules st)
  then show ?case
    by (subst executeLoop.simps) (auto simp: result_value_10 split: nat.split intro!: exec_ok_andThen)
next
  case (10 ord n e rules pid pids st)
  show ?case
  proof (cases "setActiveScopeVariable (game st) e pid")
    case (Pair r gs)
    show ?thesis
    proof (cases r)
      case SetFailure
      with Pair show ?thesis by (simp add: exec_frame_scope(1))
    next
      case SetSuccess
      note set = setActive_spec [OF Pair [unfolded SetSuccess]]
      have fr: "exec_frame st (st\<lparr>game := gs\<rparr>)" using Pair by (rule exec_frame_scope)
      from SetSuccess Pair show ?thesis
      proof (cases "executeRules ord n rules (st\<lparr>game := gs\<rparr>)" rule: andThen_cases)
        case (failure st1)
        with 10(1) [OF Pair [symmetric] SetSuccess] fr SetSuccess Pair show ?thesis
          by (auto dest: exec_frame_trans)
      next
        case (success st1)
        have st1: "exec_frame st st1" "scope (game st1) = (scope (game st))(e \<mapsto> pid)"
          using 10(1) [OF Pair [symmetric] SetSuccess] fr set success by (auto dest: exec_frame_trans)
        obtain r' gs' where u: "unsetActiveScopeVariable (game st1) e = (r', gs')" by fastforce
        have fr': "exec_frame st (st1\<lparr>game := gs'\<rparr>)"
          using st1(1) exec_frame_scope(2) [OF u] by (rule exec_frame_trans)
        show ?thesis
        proof (cases r')
          case SetFailure
          with fr' success u SetSuccess Pair \<open>r = SetSuccess\<close> show ?thesis by simp
        next
          case SetSuccess
          then have "scope gs' = scope (game st)"
            using unsetActive_spec u st1(2) set by fastforce
          moreover have "exec_ok (st1\<lparr>game := gs'\<rparr>) (executeForEach ord n e rules pids (st1\<lparr>game := gs'\<rparr>))"
            using 10(2) Pair \<open>r = SetSuccess\<close> success u SetSuccess by simp
          ultimately show ?thesis
            using fr' success u SetSuccess Pair \<open>r = SetSuccess\<close> by (auto intro: exec_ok_trans)
        qed
      qed simp
    qed
  qed
qed (auto simp: exec_ok_AddRule exec_ok_InputTextRule exec_ok_GlobalMessageRule bindR_def
      intro!: exec_ok_andThen split: sum.split)

section \<open>The log\<close>

text \<open>Rules do not read the log: with earlier lines in front everything else is the same.\<close>

definition log_after :: "string list \<Rightarrow> ExecState \<Rightarrow> ExecState" where
  "log_after ms st = st\<lparr>messages := ms @ messages st\<rparr>"

definition out_after :: "string list \<Rightarrow> outcome \<Rightarrow> outcome" where
  "out_after ms out = map_sum id (map_prod id (log_after ms)) out"

lemma out_after_simps [simp]:
  "out_after ms (Inl e) = Inl e"
  "out_after ms (Inr (r, st)) = Inr (r, log_after ms st)"
  by (simp_all add: out_after_def)

lemma log_after_fields [simp]:
  "game (log_after ms st) = game st" "messages (log_after ms st) = ms @ messages st"
  "(log_after ms st)\<lparr>game := g\<rparr> = log_after ms (st\<lparr>game := g\<rparr>)"
  by (simp_all add: log_after_def)

lemma out_after_andThen:
  assumes "m' = out_after ms m" "\<And>st. m = Inr (RuleSuccess, st) \<Longrightarrow> k' (log_after ms st) = out_after ms (k st)"
  shows "andThen m' k' = out_after ms (andThen m k)"
  using assms by (cases m rule: andThen_cases) auto

lemma out_after_bindR:
  assumes "\<And>x. m = Inr x \<Longrightarrow> f' x = out_after ms (f x)"
  shows "bindR m f' = out_after ms (bindR m f)"
  using assms by (cases m) auto

lemma execute_log:
  "executeRule ord n r (log_after ms st) = out_after ms (executeRule ord n r st)"
  "executeRules ord n rs (log_after ms st) = out_after ms (executeRules ord n rs st)"
  "executeLoop ord n rs (log_after ms st) = out_after ms (executeLoop ord n rs st)"
  "executeForEach ord n e rs ids (log_after ms st) = out_after ms (executeForEach ord n e rs ids st)"
proof (induction ord n r st and ord n rs st and ord n rs st and ord n e rs ids st
    rule: executeRule_executeRules_executeLoop_executeForEach.induct)
  case (1 ord n t v st)
  then show ?case
    by (auto simp: executeAddRule_spec intro!: out_after_bindR split: option.split)
next
  case (2 ord n m st)
  then show ?case by (simp add: executeGlobalMessageRule_def log_after_def)
next
  case (4 ord n u p v st)
  then show ?case
    by (auto simp: executeInputTextRule_def intro!: out_after_bindR split: prod.split)
next
  case (7 ord n r rs st)
  then show ?case by (auto intro!: out_after_andThen)
next
  case (8 ord n rules st)
  then show ?case
    by (subst (1 2) executeLoop.simps)
       (auto simp: result_value_10 split: nat.split intro!: out_after_andThen)
next
  case (10 ord n e rules pid pids st)
  then show ?case
    by (auto split: prod.split SetVariableResult.split intro!: out_after_andThen)
qed (auto intro!: out_after_bindR)

section \<open>Properties\<close>

definition two_players_exec :: ExecState where
  "two_players_exec = \<lparr>game = two_players, messages = []\<rparr>"

lemma two_players_debug_target: "debug_target two_players = Some 0"
  by (simp add: debug_target_def two_players_def mkGameState_def)

text \<open>
  C10. Whatever rules run, for however long and with whatever order of iteration: no variable and no
  player appears or disappears, the invariant of the game state is kept, and messages are only
  appended. If the rules succeed the scope is exactly what it was before.
\<close>

theorem executeRules_frame:
  assumes "executeRules ord n rs st = Inr (r, st')" "gs_wf (game st)"
  shows "dom (store (game st')) = dom (store (game st)) \<and> players (game st') = players (game st) \<and>
    gs_wf (game st') \<and> prefix (messages st) (messages st') \<and>
    (scope (game st') = scope (game st) \<or> r = RuleFailure)"
  using execute_ok(2) [of st ord n rs] assms by (cases r) (auto simp: exec_frame_def)

lemma two_players_add:
  "\<exists>st'. executeRules ord n [AddRule ''debug_target'' 1, GlobalMessageRule ''hi''] two_players_exec = Inr (RuleSuccess, st')"
proof -
  have "store two_players (GlobalVar ''debug_target'') = Some 0"
    using two_players_debug_target by (simp add: debug_target_def)
  then show ?thesis
    by (simp add: two_players_exec_def executeAddRule_spec resolve_global debug_target_global
        add_int_def executeGlobalMessageRule_def)
qed

theorem executeRules_frame_witness:
  "\<exists>st'. executeRules id 0 [AddRule ''debug_target'' 1, GlobalMessageRule ''hi''] two_players_exec = Inr (RuleSuccess, st') \<and>
     players (game st') = {7, 8} \<and> gs_wf (game st') \<and> scope (game st') = scope two_players"
proof -
  obtain st' where st': "executeRules id 0 [AddRule ''debug_target'' 1, GlobalMessageRule ''hi''] two_players_exec = Inr (RuleSuccess, st')"
    using two_players_add by blast
  have "gs_wf (game two_players_exec)" by (simp add: two_players_exec_def two_players_wf)
  from executeRules_frame [OF st' this] st' show ?thesis
    by (simp add: two_players_exec_def two_players_def)
qed

text \<open>
  An input-text rule never succeeds: the rules after it in its list never run, whatever they are.
\<close>

theorem inputTextRule_cuts_list:
  "executeRules ord n (InputTextRule u p v # rs) st = executeRules ord n [InputTextRule u p v] st \<and>
   executeRules ord n (InputTextRule u p v # rs) st \<noteq> Inr (RuleSuccess, st')"
proof -
  have *: "executeRule ord n (InputTextRule u p v) st \<noteq> Inr (RuleSuccess, s)" for s
    by (auto simp: executeInputTextRule_def bindR_eq_Inr split: if_splits)
  then show ?thesis
    by (cases "executeInputTextRule u p v st" rule: andThen_cases) auto
qed

end
