(* ===== verification/Rule_Termination.thy ===== *)
theory Rule_Termination
  imports Game_Rules
begin

text \<open>
  Fuel and termination of the rule interpreter: an outcome other than \<open>OutOfFuel\<close> is the same with
  any larger fuel, rules without a loop never run out of fuel, a loop that succeeds leaves
  \<open>debug_target\<close> at 10, a loop whose body only counts up to 10 does succeed, and one whose body
  cannot change \<open>debug_target\<close> runs forever.
\<close>

section \<open>Fuel\<close>

lemma bindR_not_fuel:
  "bindR m f \<noteq> Inl e \<longleftrightarrow> m \<noteq> Inl e \<and> (\<forall>x. m = Inr x \<longrightarrow> f x \<noteq> Inl e)"
  by (auto simp: bindR_eq_Inl)

lemma andThen_not_fuel:
  "andThen m k \<noteq> Inl e \<longleftrightarrow> m \<noteq> Inl e \<and> (\<forall>st. m = Inr (RuleSuccess, st) \<longrightarrow> k st \<noteq> Inl e)"
  by (auto simp: andThen_eq_Inl)

lemma bindR_unless:
  assumes "bindR m f \<noteq> Inl e" and "\<And>x. m = Inr x \<Longrightarrow> f x \<noteq> Inl e \<Longrightarrow> f' x = f x"
  shows "bindR m f' = bindR m f"
  using assms by (cases m) auto

lemma andThen_unless:
  assumes "andThen m k \<noteq> Inl e" and "m \<noteq> Inl e \<Longrightarrow> m' = m"
    and "\<And>st. m = Inr (RuleSuccess, st) \<Longrightarrow> k st \<noteq> Inl e \<Longrightarrow> k' st = k st"
  shows "andThen m' k' = andThen m k"
  using assms by (cases m rule: andThen_cases) auto

lemma fuel_mono:
  "executeRule ord n r st \<noteq> Inl OutOfFuel \<Longrightarrow> n \<le> n' \<Longrightarrow> executeRule ord n' r st = executeRule ord n r st"
  "executeRules ord n rs st \<noteq> Inl OutOfFuel \<Longrightarrow> n \<le> n' \<Longrightarrow> executeRules ord n' rs st = executeRules ord n rs st"
  "executeLoop ord n rs st \<noteq> Inl OutOfFuel \<Longrightarrow> n \<le> n' \<Longrightarrow> executeLoop ord n' rs st = executeLoop ord n rs st"
  "executeForEach ord n e rs ids st \<noteq> Inl OutOfFuel \<Longrightarrow> n \<le> n' \<Longrightarrow>
     executeForEach ord n' e rs ids st = executeForEach ord n e rs ids st"
proof (induction ord n r st and ord n rs st and ord n rs st and ord n e rs ids st
    arbitrary: n' and n' and n' and n'
    rule: executeRule_executeRules_executeLoop_executeForEach.induct)
  case (3 ord n c rules st)
  note fuel = 3(2) [unfolded executeRule.simps]
  show ?case
    unfolding executeRule.simps
    by (rule bindR_unless [OF fuel]) (use 3(1) [OF _ _ _ 3(3)] in \<open>auto split: if_splits\<close>)
next
  case (5 ord n l e rules st)
  show ?case
  proof (cases "l = ''players''")
    case True
    then have fuel: "bindR (getPlayerIDs ord (game st)) (\<lambda>ids. executeForEach ord n e rules ids st)
        \<noteq> Inl OutOfFuel" using 5(2) by simp
    have "bindR (getPlayerIDs ord (game st)) (\<lambda>ids. executeForEach ord n' e rules ids st) =
          bindR (getPlayerIDs ord (game st)) (\<lambda>ids. executeForEach ord n e rules ids st)"
      by (rule bindR_unless [OF fuel]) (use 5(1) [OF _ _ _ 5(3)] True in auto)
    with True show ?thesis by simp
  qed simp
next
  case (7 ord n r rs st)
  note fuel = 7(3) [unfolded executeRules.simps]
  show ?case
    unfolding executeRules.simps
    by (rule andThen_unless [OF fuel 7(1) [OF _ 7(4)] 7(2) [OF _ _ 7(4)]])
next
  case (8 ord n rules st)
  show ?case
  proof (cases "debug_target (game st) = Some 10")
    case True
    then show ?thesis by (simp add: executeLoop.simps)
  next
    case False
    then obtain m where m: "n = Suc m"
      using 8(3) by (cases n) (auto simp: executeLoop.simps result_value_10)
    then obtain m' where m': "n' = Suc m'" "m \<le> m'" using 8(4) by (cases n') auto
    have loop: "executeLoop ord (Suc k) rules st =
        andThen (executeRules ord k rules st) (\<lambda>st'. executeLoop ord k rules st')" for k
      using False by (simp add: executeLoop.simps [of ord "Suc k"] result_value_10)
    have guard: "result_value (result_of (debug_target (game st))) \<noteq> 10"
      using False by (simp add: result_value_10)
    show ?thesis
      unfolding m m' loop
      by (rule andThen_unless [OF 8(3) [unfolded m loop]
            8(1) [OF getValue_debug_target guard m _ m'(2)]
            8(2) [OF getValue_debug_target guard m _ _ m'(2)]])
  qed
next
  case (10 ord n e rules pid pids st)
  show ?case
  proof (cases "setActiveScopeVariable (game st) e pid")
    case (Pair r gs)
    show ?thesis
    proof (cases r)
      case SetSuccess
      let ?k = "\<lambda>n st'. case unsetActiveScopeVariable (game st') e of
              (SetFailure, gs') \<Rightarrow> Inr (RuleFailure, st'\<lparr>game := gs'\<rparr>)
            | (SetSuccess, gs') \<Rightarrow> executeForEach ord n e rules pids (st'\<lparr>game := gs'\<rparr>)"
      have unf: "executeForEach ord n e rules (pid # pids) st =
          andThen (executeRules ord n rules (st\<lparr>game := gs\<rparr>)) (?k n)" for n
        using Pair SetSuccess by simp
      show ?thesis
        unfolding unf
      proof (rule andThen_unless [OF 10(3) [unfolded unf] 10(1) [OF Pair [symmetric] SetSuccess _ 10(4)]])
        fix st'
        assume "executeRules ord n rules (st\<lparr>game := gs\<rparr>) = Inr (RuleSuccess, st')" "?k n st' \<noteq> Inl OutOfFuel"
        then show "?k n' st' = ?k n st'"
          using 10(2) [OF Pair [symmetric] SetSuccess _ _ _ _ 10(4)]
          by (cases "unsetActiveScopeVariable (game st') e";
              cases "fst (unsetActiveScopeVariable (game st') e)") auto
      qed
    qed (simp add: Pair)
  qed
qed simp_all

section \<open>Rules without loops\<close>

primrec loop_free :: "rule \<Rightarrow> bool" where
  "loop_free (AddRule t v) \<longleftrightarrow> True"
| "loop_free (GlobalMessageRule m) \<longleftrightarrow> True"
| "loop_free (LoopRule c rs) \<longleftrightarrow> False"
| "loop_free (InputTextRule u p v) \<longleftrightarrow> True"
| "loop_free (ForEachRule l e rs) \<longleftrightarrow> list_all loop_free rs"

lemma getPlayerIDs_not_fuel: "getPlayerIDs ord gs \<noteq> Inl OutOfFuel"
proof -
  have "mapR stoul ks \<noteq> Inl OutOfFuel" for ks
    by (induction ks) (auto simp: bindR_eq_Inl dest: stoul_exception)
  then show ?thesis by (simp add: getPlayerIDs_def)
qed

lemma executeAddRule_not_fuel: "executeAddRule t v st \<noteq> Inl OutOfFuel"
  by (auto simp: executeAddRule_spec bindR_eq_Inl dest: resolve_faults add_int_fault
      split: option.splits)

lemma executeInputTextRule_not_fuel: "executeInputTextRule u p v st \<noteq> Inl OutOfFuel"
  by (auto simp: executeInputTextRule_def getValue_resolve setValue_resolve bindR_eq_Inl
      dest: resolve_faults split: if_splits)

lemma loop_free_fuel:
  "loop_free r \<Longrightarrow> executeRule ord n r st \<noteq> Inl OutOfFuel"
  "list_all loop_free rs \<Longrightarrow> executeRules ord n rs st \<noteq> Inl OutOfFuel"
  "list_all loop_free rs \<Longrightarrow> True"
  "list_all loop_free rs \<Longrightarrow> executeForEach ord n e rs ids st \<noteq> Inl OutOfFuel"
proof (induction ord n r st and ord n rs st and ord n rs st and ord n e rs ids st
    rule: executeRule_executeRules_executeLoop_executeForEach.induct)
  case (10 ord n e rules pid pids st)
  then show ?case
    by (auto simp: andThen_not_fuel split: prod.splits SetVariableResult.splits)
qed (auto simp: bindR_not_fuel andThen_not_fuel getPlayerIDs_not_fuel executeAddRule_not_fuel
      executeInputTextRule_not_fuel executeGlobalMessageRule_def)

text \<open>So their outcome does not depend on the fuel.\<close>

lemma loop_free_fuel_irrelevant:
  "list_all loop_free rs \<Longrightarrow> executeRules ord n rs st = executeRules ord 0 rs st"
  using fuel_mono(2) [of ord 0 rs st n] loop_free_fuel(2) by simp

section \<open>Loops\<close>

lemma executeLoop_success:
  "executeLoop ord n rules st = Inr (RuleSuccess, st') \<Longrightarrow> debug_target (game st') = Some 10"
proof (induction n arbitrary: st)
  case 0
  then show ?case by (auto simp: executeLoop.simps result_value_10 split: if_splits)
next
  case (Suc m)
  then show ?case
    by (subst (asm) executeLoop.simps) (auto simp: result_value_10 andThen_eq_Inr split: if_splits)
qed

lemma loop_success:
  "executeRule ord n (LoopRule c rules) st = Inr (RuleSuccess, st') \<Longrightarrow>
   debug_target (game st') = Some 10"
  by (auto simp: executeLoop_success split: if_splits)

text \<open>One iteration of a body that adds one to \<open>debug_target\<close>.\<close>

lemma count_step:
  assumes "debug_target (game st) = Some v" "sint v < 10"
  shows "\<exists>st'. executeRules ord n [AddRule ''debug_target'' 1] st = Inr (RuleSuccess, st') \<and>
               debug_target (game st') = Some (v + 1) \<and> sint (v + 1) = sint v + 1"
proof -
  let ?l = "GlobalVar ''debug_target''"
  have st: "store (game st) ?l = Some v" using assms by (simp add: debug_target_def)
  have "- (2 ^ 31) \<le> sint v"
    using sint_range_size [of v] by (simp add: word_size)
  then have add: "add_int v 1 = Inr (v + 1)" "sint (v + 1) = sint v + 1"
    using assms(2) by (auto simp: add_int_def sint_add_no_overflow)
  have "debug_target (snd (put_location (game st) ?l (v + 1))) = Some (v + 1)"
    using store_put_location_Some [OF st, of "v + 1"] store.simps(1)
    by (metis debug_target_def fun_upd_same)
  then show ?thesis
    using st add
    by (simp add: executeAddRule_spec resolve_global debug_target_global)
qed

lemma sint_eq_10: "sint (v :: int32) = 10 \<longleftrightarrow> v = 10"
  by (auto intro: signed_word_eqI)

lemma counting_loop:
  assumes "debug_target (game st) = Some v" "sint v \<le> 10" "nat (10 - sint v) \<le> n"
  shows "\<exists>st'. executeLoop ord n [AddRule ''debug_target'' 1] st = Inr (RuleSuccess, st')"
  using assms
proof (induction n arbitrary: st v)
  case 0
  then have "v = 10" by (simp add: sint_eq_10 [symmetric])
  with 0 show ?case by (simp add: executeLoop.simps)
next
  case (Suc n)
  show ?case
  proof (cases "v = 10")
    case True
    with Suc show ?thesis by (simp add: executeLoop.simps)
  next
    case False
    then have "sint v < 10" using Suc.prems(2) by (auto simp: sint_eq_10 [symmetric])
    from count_step [OF Suc.prems(1) this, of ord n]
    obtain st' where st': "executeRules ord n [AddRule ''debug_target'' 1] st = Inr (RuleSuccess, st')"
      "debug_target (game st') = Some (v + 1)" "sint (v + 1) = sint v + 1" by blast
    then have "\<exists>st''. executeLoop ord n [AddRule ''debug_target'' 1] st' = Inr (RuleSuccess, st'')"
      using Suc.IH [of st' "v + 1"] Suc.prems \<open>sint v < 10\<close> by simp
    with st' Suc.prems(1) False show ?thesis
      by (subst executeLoop.simps) (simp add: result_value_10)
  qed
qed

text \<open>A body that always succeeds and never changes \<open>debug_target\<close> keeps the loop running.\<close>

lemma idle_loop:
  assumes "\<And>m st. \<exists>st'. executeRules ord m rules st = Inr (RuleSuccess, st') \<and>
                  debug_target (game st') = debug_target (game st)"
    and "debug_target (game st) \<noteq> Some 10"
  shows "executeLoop ord n rules st = Inl OutOfFuel"
  using assms(2)
proof (induction n arbitrary: st)
  case 0
  then show ?case by (simp add: executeLoop.simps result_value_10)
next
  case (Suc n)
  obtain st' where "executeRules ord n rules st = Inr (RuleSuccess, st')"
     "debug_target (game st') = debug_target (game st)" using assms(1) by blast
  with Suc show ?case by (subst executeLoop.simps) (simp add: result_value_10)
qed

text \<open>Started above 10, the counting loop never meets 10 and ends in the overflow of \<open>int\<close>.\<close>

lemma count_step_or_overflow:
  assumes "debug_target (game st) = Some v"
  shows "(sint v < 2 ^ 31 - 1 \<and>
          (\<exists>st'. executeRules ord n [AddRule ''debug_target'' 1] st = Inr (RuleSuccess, st') \<and>
                 debug_target (game st') = Some (v + 1) \<and> sint (v + 1) = sint v + 1)) \<or>
         (sint v = 2 ^ 31 - 1 \<and> executeRules ord n [AddRule ''debug_target'' 1] st = Inl SignedOverflow)"
proof -
  let ?l = "GlobalVar ''debug_target''"
  have st: "store (game st) ?l = Some v" using assms by (simp add: debug_target_def)
  have range: "- (2 ^ 31) \<le> sint v" "sint v < 2 ^ 31"
    using sint_range_size [of v] by (simp_all add: word_size)
  show ?thesis
  proof (cases "sint v < 2 ^ 31 - 1")
    case True
    then have add: "add_int v 1 = Inr (v + 1)" "sint (v + 1) = sint v + 1"
      using range by (auto simp: add_int_def sint_add_no_overflow)
    have "debug_target (snd (put_location (game st) ?l (v + 1))) = Some (v + 1)"
      using store_put_location_Some [OF st, of "v + 1"] store.simps(1)
      by (metis debug_target_def fun_upd_same)
    then show ?thesis
      using st add True by (simp add: executeAddRule_spec resolve_global debug_target_global)
  next
    case False
    then have "sint v = 2 ^ 31 - 1" "add_int v 1 = Inl SignedOverflow"
      using range by (auto simp: add_int_def)
    then show ?thesis
      using st by (simp add: executeAddRule_spec resolve_global debug_target_global)
  qed
qed

lemma overflowing_loop:
  assumes "debug_target (game st) = Some v" "10 < sint v" "nat (2 ^ 31 - sint v) \<le> n"
  shows "executeLoop ord n [AddRule ''debug_target'' 1] st = Inl SignedOverflow"
  using assms
proof (induction n arbitrary: st v)
  case 0
  then show ?case using sint_range_size [of v] by (simp add: word_size)
next
  case (Suc n)
  have "v \<noteq> 10" using Suc.prems(2) by (auto simp: sint_eq_10 [symmetric])
  then have unf: "executeLoop ord (Suc n) [AddRule ''debug_target'' 1] st =
      andThen (executeRules ord n [AddRule ''debug_target'' 1] st)
        (\<lambda>st'. executeLoop ord n [AddRule ''debug_target'' 1] st')"
    using Suc.prems(1) by (subst executeLoop.simps) (simp add: result_value_10)
  from count_step_or_overflow [OF Suc.prems(1), of ord n] show ?case
  proof (elim disjE conjE exE)
    fix st' assume st': "executeRules ord n [AddRule ''debug_target'' 1] st = Inr (RuleSuccess, st')"
      "debug_target (game st') = Some (v + 1)" "sint (v + 1) = sint v + 1"
    then have "executeLoop ord n [AddRule ''debug_target'' 1] st' = Inl SignedOverflow"
      using Suc.IH [of st' "v + 1"] Suc.prems by simp
    with st'(1) show ?thesis unfolding unf by simp
  next
    assume "executeRules ord n [AddRule ''debug_target'' 1] st = Inl SignedOverflow"
    then show ?thesis unfolding unf by simp
  qed
qed

section \<open>Properties\<close>

text \<open>
  Fuel is only a device of the model: an execution that does not run out of fuel has the same
  outcome with any larger amount, so that the outcome, where there is one, belongs to the program.
\<close>

theorem executeRules_fuel_independent:
  assumes "executeRules ord n rs st \<noteq> Inl OutOfFuel" "n \<le> n'"
  shows "executeRules ord n' rs st = executeRules ord n rs st"
  using assms by (rule fuel_mono(2))

text \<open>
  Rules without a loop rule always return: no amount of fuel is too small, and the outcome is
  the one computed with none.
\<close>

theorem loop_free_returns:
  assumes "list_all loop_free rs"
  shows "executeRules ord n rs st \<noteq> Inl OutOfFuel \<and> executeRules ord n rs st = executeRules ord 0 rs st"
  using loop_free_fuel(2) [OF assms] loop_free_fuel_irrelevant [OF assms] by blast

theorem loop_free_returns_witness:
  "executeRules id 5 [ForEachRule ''players'' ''e'' [AddRule ''players.$e.score'' 1]] two_players_exec \<noteq> Inl OutOfFuel"
  using loop_free_returns [of "[ForEachRule ''players'' ''e'' [AddRule ''players.$e.score'' 1]]"] by simp

theorem executeRules_fuel_independent_witness:
  "executeRules id 100 [ForEachRule ''players'' ''e'' [AddRule ''players.$e.score'' 1]] two_players_exec =
   executeRules id 5 [ForEachRule ''players'' ''e'' [AddRule ''players.$e.score'' 1]] two_players_exec"
proof (rule executeRules_fuel_independent)
  show "executeRules id 5 [ForEachRule ''players'' ''e'' [AddRule ''players.$e.score'' 1]] two_players_exec \<noteq>
    Inl OutOfFuel" by (rule loop_free_fuel(2)) simp
qed simp

text \<open>
  A loop rule that succeeds has reached its hard-wired exit: \<open>debug_target\<close> is 10, whatever the
  stop condition the rule was built with and whatever its body.
\<close>

theorem loopRule_exit:
  assumes "executeRule ord n (LoopRule stopCondition rules) st = Inr (RuleSuccess, st')"
  shows "debug_target (game st') = Some 10"
  using assms by (rule loop_success)

text \<open>
  The counting loop, whose body adds one to \<open>debug_target\<close>: from a value up to 10 it returns
  success with \<open>debug_target\<close> at 10, after as many iterations as are missing to 10.
\<close>

theorem counting_loop_terminates:
  assumes "debug_target (game st) = Some v" "sint v \<le> 10"
  shows "\<exists>st'. executeRule ord (nat (10 - sint v)) (LoopRule c [AddRule ''debug_target'' 1]) st =
                 Inr (RuleSuccess, st') \<and> debug_target (game st') = Some 10"
proof -
  obtain st' where "executeLoop ord (nat (10 - sint v)) [AddRule ''debug_target'' 1] st = Inr (RuleSuccess, st')"
    using counting_loop [OF assms] by blast
  with assms(1) executeLoop_success show ?thesis by fastforce
qed

theorem counting_loop_terminates_witness:
  "\<exists>st'. executeRule id 10 (LoopRule [] [AddRule ''debug_target'' 1]) two_players_exec = Inr (RuleSuccess, st') \<and>
         debug_target (game st') = Some 10"
proof -
  have "debug_target (game two_players_exec) = Some 0" by (simp add: two_players_exec_def two_players_debug_target)
  from counting_loop_terminates [OF this, of id "[]"] show ?thesis by simp
qed

theorem loopRule_exit_witness:
  "\<exists>st'. executeRule id 10 (LoopRule ''stop'' [AddRule ''debug_target'' 1]) two_players_exec = Inr (RuleSuccess, st') \<and>
         debug_target (game st') = Some 10"
proof -
  have "debug_target (game two_players_exec) = Some 0" by (simp add: two_players_exec_def two_players_debug_target)
  then obtain st' where "executeRule id 10 (LoopRule ''stop'' [AddRule ''debug_target'' 1]) two_players_exec = Inr (RuleSuccess, st')"
    using counting_loop [of two_players_exec 0 10 id] by auto
  with loopRule_exit [OF this] show ?thesis by blast
qed

text \<open>
  The same loop started above 10 never meets its exit: it returns nothing, and ends in the
  signed overflow of \<open>debug_target\<close>, which C++ leaves undefined.
\<close>

theorem counting_loop_overflows:
  assumes "debug_target (game st) = Some v" "10 < sint v"
  shows "executeRule ord (nat (2 ^ 31 - sint v)) (LoopRule c [AddRule ''debug_target'' 1]) st = Inl SignedOverflow"
  using overflowing_loop [OF assms] assms(1) by simp

theorem counting_loop_overflows_witness:
  "executeRule id (2 ^ 31 - 11) (LoopRule [] [AddRule ''debug_target'' 1])
     \<lparr>game = mkGameState [(''debug_target'', 11)] [] [], messages = []\<rparr> = Inl SignedOverflow"
proof -
  have "debug_target (game \<lparr>game = mkGameState [(''debug_target'', 11)] [] [], messages = []\<rparr>) = Some 11"
    by (simp add: debug_target_def mkGameState_def)
  from counting_loop_overflows [OF this, of id "[]"] show ?thesis by simp
qed

text \<open>
  A loop rule runs forever when its body always succeeds and never changes \<open>debug_target\<close>, such
  as a body of messages: no amount of fuel gives a result.
\<close>

theorem idle_loop_diverges:
  assumes "\<And>m st. \<exists>st'. executeRules ord m rules st = Inr (RuleSuccess, st') \<and>
                          debug_target (game st') = debug_target (game st)"
    and "debug_target (game st) = Some v" "v \<noteq> 10"
  shows "executeRule ord n (LoopRule c rules) st = Inl OutOfFuel"
  using idle_loop [OF assms(1), of st n] assms(2,3) by simp

theorem idle_loop_diverges_witness:
  "executeRule id 1000 (LoopRule [] [GlobalMessageRule ''hi'']) two_players_exec = Inl OutOfFuel"
proof (rule idle_loop_diverges)
  show "debug_target (game two_players_exec) = Some 0" by (simp add: two_players_exec_def two_players_debug_target)
qed (simp_all add: executeGlobalMessageRule_def)

text \<open>
  The counting loop, whose body adds one to \<open>debug_target\<close>: from a value up to 10 it returns success
  with \<open>debug_target\<close> at 10, after as many iterations as are missing to 10; from a value above 10 it
  never meets its exit and ends in the signed overflow of \<open>debug_target\<close>, which C++ leaves undefined.
\<close>

theorem counting_loop_outcome:
  assumes "debug_target (game st) = Some v"
  shows "if sint v \<le> 10
    then \<exists>st'. executeRule ord (nat (10 - sint v)) (LoopRule c [AddRule ''debug_target'' 1]) st =
           Inr (RuleSuccess, st') \<and> debug_target (game st') = Some 10
    else executeRule ord (nat (2 ^ 31 - sint v)) (LoopRule c [AddRule ''debug_target'' 1]) st = Inl SignedOverflow"
  using counting_loop_terminates [OF assms] counting_loop_overflows [OF assms] by simp

theorem counting_loop_outcome_witness:
  "(\<exists>st'. executeRule id 10 (LoopRule [] [AddRule ''debug_target'' 1]) two_players_exec = Inr (RuleSuccess, st')) \<and>
   executeRule id (2 ^ 31 - 11) (LoopRule [] [AddRule ''debug_target'' 1])
     \<lparr>game = mkGameState [(''debug_target'', 11)] [] [], messages = []\<rparr> = Inl SignedOverflow"
proof -
  have "debug_target (game two_players_exec) = Some 0"
    "debug_target (game \<lparr>game = mkGameState [(''debug_target'', 11)] [] [], messages = []\<rparr>) = Some 11"
    by (simp_all add: debug_target_def mkGameState_def two_players_exec_def two_players_def)
  from counting_loop_outcome [OF this(1), of id "[]"] counting_loop_outcome [OF this(2), of id "[]"] show ?thesis
    by (simp del: executeRule.simps) blast
qed

end
