(* ===== verification/Rule_Semantics.thy ===== *)
theory Rule_Semantics
  imports Rule_Termination
begin

text \<open>
  What rules do to the variables. A static check of the names a rule uses (\<open>names_ok\<close>) rules out
  every exception and every undefined behaviour but the overflow of an addition; an \<open>AddRule\<close>
  inside a \<open>forEach\<close> over the players updates each player exactly once, for every order of
  iteration; a nested \<open>forEach\<close> over a bound element name fails.
\<close>

section \<open>Names that resolve\<close>

definition component_ok :: "VariableKey list \<Rightarrow> string \<Rightarrow> bool" where
  "component_ok B w \<longleftrightarrow> (case find_from CHR ''$'' w of [] \<Rightarrow> True | _ # n \<Rightarrow> n \<in> set B)"

definition target_ok :: "VariableKey list \<Rightarrow> string \<Rightarrow> bool" where
  "target_ok B t \<longleftrightarrow>
     str_find ''players'' t = None \<or>
     (case split_on CHR ''.'' t of
        l # w # x # rest \<Rightarrow>
          list_ex (\<lambda>e. w = CHR ''$'' # e) B \<and> list_all (component_ok B) (l # x # rest)
      | _ \<Rightarrow> False)"

fun names_ok :: "VariableKey list \<Rightarrow> rule \<Rightarrow> bool" where
  "names_ok B (AddRule t v) \<longleftrightarrow> target_ok B t"
| "names_ok B (GlobalMessageRule m) \<longleftrightarrow> True"
| "names_ok B (LoopRule c rs) \<longleftrightarrow> list_all (names_ok B) rs"
| "names_ok B (InputTextRule u p v) \<longleftrightarrow> target_ok B u \<and> target_ok B v"
| "names_ok B (ForEachRule l e rs) \<longleftrightarrow> list_all (names_ok (e # B)) rs"

definition binds :: "VariableKey list \<Rightarrow> GameState \<Rightarrow> bool" where
  "binds B gs \<longleftrightarrow> (\<forall>e \<in> set B. scope gs e \<noteq> None)"

lemma component_ok_subst:
  "component_ok B w \<Longrightarrow> binds B gs \<Longrightarrow> \<exists>w'. substComponent gs w = Some w'"
  by (auto simp: component_ok_def substComponent_def binds_def split: list.splits)

lemma components_ok_subst:
  "list_all (component_ok B) ws \<Longrightarrow> binds B gs \<Longrightarrow>
   \<exists>ws'. those (map (substComponent gs) ws) = Some ws' \<and> length ws' = length ws"
proof (induction ws)
  case (Cons w ws)
  then show ?case using component_ok_subst [of B w gs] by auto
qed simp

lemma substComponent_no_dot:
  "substComponent gs w = Some w' \<Longrightarrow> CHR ''.'' \<notin> set w \<Longrightarrow> CHR ''.'' \<notin> set w'"
  by (auto simp: substComponent_def until_def split: list.splits dest: set_takeWhileD)

lemma those_no_dot:
  "those (map (substComponent gs) ws) = Some ws' \<Longrightarrow> \<forall>w \<in> set ws. CHR ''.'' \<notin> set w \<Longrightarrow>
   \<forall>w \<in> set ws'. CHR ''.'' \<notin> set w"
  by (induction ws arbitrary: ws') (auto dest: substComponent_no_dot split: option.splits)

lemma resolve_target_ok:
  assumes ok: "target_ok B t" and B: "binds B gs"
  shows "\<exists>l. resolve gs t = Inr l"
proof (cases "sublist ''players'' t")
  case True
  with ok obtain l w x rest e where s: "split_on CHR ''.'' t = l # w # x # rest"
    and e: "e \<in> set B" "w = CHR ''$'' # e" and cs: "list_all (component_ok B) (l # x # rest)"
    by (auto simp: target_ok_def str_find_None list_ex_iff split: list.splits)
  obtain pid where "scope gs e = Some pid" using e B by (auto simp: binds_def)
  then have w: "substComponent gs w = Some (to_string pid)" by (simp add: e substComponent_def)
  obtain ws' where ws': "those (map (substComponent gs) (l # x # rest)) = Some ws'" "length ws' = Suc (Suc (length rest))"
    using components_ok_subst [OF cs B] by auto
  then obtain l' x' rest' where l': "those (map (substComponent gs) (l # w # x # rest)) = Some (l' # to_string pid # x' # rest')"
    using w by (auto split: option.splits)
  have "\<forall>u \<in> set (split_on CHR ''.'' t). CHR ''.'' \<notin> set u" using split_on_components by blast
  then have "\<forall>u \<in> set (l' # to_string pid # x' # rest'). CHR ''.'' \<notin> set u"
    unfolding s by (rule those_no_dot [OF l'])
  then have split: "split_on CHR ''.'' (join_with CHR ''.'' (l' # to_string pid # x' # rest')) = l' # to_string pid # x' # rest'"
    by (intro split_join) auto
  have "parseRuntimeVariables gs t = join_with CHR ''.'' (l' # to_string pid # x' # rest')"
    by (simp only: parseRuntimeVariables_eq substName_def s l' option.map option.case)
  moreover have "extractPlayerVariableInfo (join_with CHR ''.'' (l' # to_string pid # x' # rest')) =
      Inr (pid, join_with CHR ''.'' (x' # rest'))"
    by (simp only: extract_spec split list.case stoul_to_string bindR_simps list.distinct if_False)
  ultimately show ?thesis using True by (simp add: resolve_def)
qed (simp add: resolve_global)

section \<open>Checked rules do not go wrong\<close>

definition benign :: "outcome \<Rightarrow> bool" where
  "benign out \<longleftrightarrow> (\<forall>e. out = Inl e \<longrightarrow> e = SignedOverflow \<or> e = OutOfFuel)"

lemma benign_simps [simp]:
  "benign (Inr x)" "benign (Inl SignedOverflow)" "benign (Inl OutOfFuel)"
  by (simp_all add: benign_def)

lemma benign_andThen:
  "benign m \<Longrightarrow> (\<And>st. m = Inr (RuleSuccess, st) \<Longrightarrow> benign (k st)) \<Longrightarrow> benign (andThen m k)"
  by (cases m rule: andThen_cases) auto

lemma success_frame:
  assumes "exec_ok st out" "out = Inr (RuleSuccess, st')"
  shows "gs_wf (game st) \<Longrightarrow> gs_wf (game st')" "binds B (game st) \<Longrightarrow> binds B (game st')"
    "scope (game st') = scope (game st)"
  using assms by (auto simp: exec_frame_def binds_def)

lemma benign_AddRule: "target_ok B t \<Longrightarrow> binds B (game st) \<Longrightarrow> benign (executeAddRule t v st)"
  using resolve_target_ok [of B t "game st"]
  by (auto simp: executeAddRule_spec benign_def bindR_eq_Inl dest: add_int_fault split: option.splits)

lemma benign_InputTextRule:
  "target_ok B u \<Longrightarrow> target_ok B v \<Longrightarrow> binds B (game st) \<Longrightarrow> benign (executeInputTextRule u p v st)"
  using resolve_target_ok [of B u "game st"] resolve_target_ok [of B v "game st"]
  by (auto simp: executeInputTextRule_def getValue_resolve setValue_resolve benign_def bindR_eq_Inl
      split: if_splits)

lemma gs_wf_scope:
  "setActiveScopeVariable gs e p = (r, gs') \<Longrightarrow> gs_wf gs \<Longrightarrow> gs_wf gs'"
  "unsetActiveScopeVariable gs e = (r, gs') \<Longrightarrow> gs_wf gs \<Longrightarrow> gs_wf gs'"
  by (metis gs_wf_setActive snd_conv) (metis gs_wf_unsetActive snd_conv)

lemma names_ok_benign:
  "iteration_order ord \<Longrightarrow> names_ok B r \<Longrightarrow> gs_wf (game st) \<Longrightarrow> binds B (game st) \<Longrightarrow>
     benign (executeRule ord n r st)"
  "iteration_order ord \<Longrightarrow> list_all (names_ok B) rs \<Longrightarrow> gs_wf (game st) \<Longrightarrow> binds B (game st) \<Longrightarrow>
     benign (executeRules ord n rs st)"
  "iteration_order ord \<Longrightarrow> list_all (names_ok B) rs \<Longrightarrow> gs_wf (game st) \<Longrightarrow> binds B (game st) \<Longrightarrow>
     benign (executeLoop ord n rs st)"
  "iteration_order ord \<Longrightarrow> list_all (names_ok (e # B)) rs \<Longrightarrow> gs_wf (game st) \<Longrightarrow> binds B (game st) \<Longrightarrow>
     benign (executeForEach ord n e rs ids st)"
proof (induction ord n r st and ord n rs st and ord n rs st and ord n e rs ids st
    arbitrary: B and B and B and B
    rule: executeRule_executeRules_executeLoop_executeForEach.induct)
  case (5 ord n l e rules st)
  show ?case
  proof (rule getPlayerIDs_spec [OF 5(2,4)])
    fix ids assume "getPlayerIDs ord (game st) = Inr ids"
    then show ?thesis using 5 by auto
  qed
next
  case (7 ord n r rs st)
  show ?case
    unfolding executeRules.simps
  proof (rule benign_andThen)
    fix st' assume st': "executeRule ord n r st = Inr (RuleSuccess, st')"
    show "benign (executeRules ord n rs st')"
      using 7(2) [OF st' 7(3) _ success_frame(1) [OF execute_ok(1) st' 7(5)] success_frame(2) [OF execute_ok(1) st' 7(6)]] 7(4)
      by simp
  next
    show "benign (executeRule ord n r st)" using 7(1) [OF 7(3) _ 7(5,6)] 7(4) by simp
  qed
next
  case (8 ord n rules st)
  show ?case
  proof (cases n)
    case 0
    then show ?thesis by (simp add: executeLoop.simps)
  next
    case (Suc m)
    show ?thesis
    proof (cases "debug_target (game st) = Some 10")
      case False
      then have guard: "result_value (result_of (debug_target (game st))) \<noteq> 10"
        by (simp add: result_value_10)
      have "benign (andThen (executeRules ord m rules st) (\<lambda>st'. executeLoop ord m rules st'))"
      proof (rule benign_andThen)
        fix st' assume st': "executeRules ord m rules st = Inr (RuleSuccess, st')"
        show "benign (executeLoop ord m rules st')"
          using 8(2) [OF getValue_debug_target guard Suc st' 8(3,4)
            success_frame(1) [OF execute_ok(2) st' 8(5)] success_frame(2) [OF execute_ok(2) st' 8(6)]] .
      qed (use 8(1) [OF getValue_debug_target guard Suc] 8(3-6) in simp)
      with guard Suc show ?thesis by (subst executeLoop.simps) simp
    qed (simp add: executeLoop.simps)
  qed
next
  case (10 ord n e rules pid pids st)
  show ?case
  proof (cases "setActiveScopeVariable (game st) e pid")
    case (Pair r gs)
    show ?thesis
    proof (cases r)
      case SetSuccess
      let ?st = "st\<lparr>game := gs\<rparr>"
      have sc: "scope gs = (scope (game st))(e \<mapsto> pid)" "scope (game st) e = None"
        using setActive_spec Pair SetSuccess by blast+
      have wf: "gs_wf gs" using Pair 10(5) by (rule gs_wf_scope)
      have b: "binds (e # B) gs" using 10(6) sc by (auto simp: binds_def)
      have "benign (andThen (executeRules ord n rules ?st) (\<lambda>st'.
            case unsetActiveScopeVariable (game st') e of
              (SetFailure, gs') \<Rightarrow> Inr (RuleFailure, st'\<lparr>game := gs'\<rparr>)
            | (SetSuccess, gs') \<Rightarrow> executeForEach ord n e rules pids (st'\<lparr>game := gs'\<rparr>)))"
      proof (rule benign_andThen)
        fix st' assume st': "executeRules ord n rules ?st = Inr (RuleSuccess, st')"
        note fr = success_frame [OF execute_ok(2) st']
        obtain r' gs' where u: "unsetActiveScopeVariable (game st') e = (r', gs')" by fastforce
        show "benign (case unsetActiveScopeVariable (game st') e of
              (SetFailure, gs') \<Rightarrow> Inr (RuleFailure, st'\<lparr>game := gs'\<rparr>)
            | (SetSuccess, gs') \<Rightarrow> executeForEach ord n e rules pids (st'\<lparr>game := gs'\<rparr>))"
        proof (cases r')
          case SetSuccess
          have "scope gs' = (scope (game st'))(e := None)" using unsetActive_spec u SetSuccess by blast
          then have "scope gs' = scope (game st)" using fr(3) sc by (simp add: fun_upd_idem)
          then have "binds B gs'" using 10(6) by (simp add: binds_def)
          moreover have "gs_wf gs'" using gs_wf_scope(2) u fr(1) wf by simp
          ultimately show ?thesis
            using 10(2) [OF Pair [symmetric] \<open>r = SetSuccess\<close> st' u [symmetric] SetSuccess] 10(3,4) u SetSuccess
            by simp
        qed (simp add: u)
      qed (use 10(1) [OF Pair [symmetric] SetSuccess] 10(3,4) wf b in simp)
      with Pair SetSuccess show ?thesis by simp
    qed (simp add: Pair)
  qed
qed (auto simp: benign_AddRule benign_InputTextRule executeGlobalMessageRule_def)

section \<open>forEach over the players\<close>

text \<open>The variables after \<open>k\<close> has been added to variable \<open>v\<close> of every player in a set.\<close>

fun add_to_players ::
    "PlayerID set \<Rightarrow> VariableKey \<Rightarrow> VariableValue \<Rightarrow> (location \<Rightarrow> VariableValue option) \<Rightarrow>
     location \<Rightarrow> VariableValue option" where
  "add_to_players P v k \<sigma> (GlobalVar n) = \<sigma> (GlobalVar n)"
| "add_to_players P v k \<sigma> (PlayerVar pid n) =
     (if pid \<in> P \<and> n = v then map_option (\<lambda>u. u + k) (\<sigma> (PlayerVar pid n)) else \<sigma> (PlayerVar pid n))"

lemma add_to_players_empty [simp]: "add_to_players {} v k \<sigma> = \<sigma>"
proof
  show "add_to_players {} v k \<sigma> l = \<sigma> l" for l by (cases l) auto
qed

lemma add_to_players_insert:
  assumes "p \<notin> P" "\<sigma> (PlayerVar p v) = Some u"
  shows "add_to_players P v k (\<sigma>(PlayerVar p v \<mapsto> u + k)) = add_to_players (insert p P) v k \<sigma>"
proof
  show "add_to_players P v k (\<sigma>(PlayerVar p v \<mapsto> u + k)) l = add_to_players (insert p P) v k \<sigma> l" for l
    using assms by (cases l) auto
qed

definition scoped_name :: "VariableKey \<Rightarrow> VariableKey \<Rightarrow> string" where
  "scoped_name e v = ''players.$'' @ e @ CHR ''.'' # v"

lemma add_scoped:
  assumes "CHR ''.'' \<notin> set e" "CHR ''$'' \<notin> set v" "scope (game st) e = Some p"
    "store (game st) (PlayerVar p v) = Some u" "add_int u k = Inr (u + k)"
  shows "executeRules ord n [AddRule (scoped_name e v) k] st =
         Inr (RuleSuccess, st\<lparr>game := snd (put_location (game st) (PlayerVar p v) (u + k))\<rparr>)"
  using assms resolve_scoped [OF assms(1-3)] by (simp add: executeAddRule_spec scoped_name_def)

text \<open>
  The proof rule for the loop over players: an invariant over the set of the players visited so far
  that the body, run with the element bound, carries on to one player more.
\<close>

lemma forEach_rule:
  assumes "distinct ids" "I D st" "D \<inter> set ids = {}"
    and unbound: "\<And>D st. I D st \<Longrightarrow> scope (game st) e = None"
    and body: "\<And>D p st gs. I D st \<Longrightarrow> p \<notin> D \<Longrightarrow> p \<in> set ids \<Longrightarrow>
      setActiveScopeVariable (game st) e p = (SetSuccess, gs) \<Longrightarrow>
      \<exists>st'. executeRules ord n rules (st\<lparr>game := gs\<rparr>) = Inr (RuleSuccess, st') \<and>
            I (insert p D) (st'\<lparr>game := snd (unsetActiveScopeVariable (game st') e)\<rparr>)"
  shows "\<exists>st'. executeForEach ord n e rules ids st = Inr (RuleSuccess, st') \<and> I (D \<union> set ids) st'"
  using assms(1,2,3) body
proof (induction ids arbitrary: D st)
  case (Cons p ids)
  obtain gs where gs: "setActiveScopeVariable (game st) e p = (SetSuccess, gs)"
    using setActive_ok unbound [OF Cons.prems(2)] by blast
  obtain st' where st': "executeRules ord n rules (st\<lparr>game := gs\<rparr>) = Inr (RuleSuccess, st')"
    "I (insert p D) (st'\<lparr>game := snd (unsetActiveScopeVariable (game st') e)\<rparr>)"
    using Cons.prems(4) [OF Cons.prems(2) _ _ gs] Cons.prems(3) by auto
  have "scope (game st') = scope gs" using execute_ok(2) [of "st\<lparr>game := gs\<rparr>" ord n rules] st'(1) by simp
  then have "scope (game st') e = Some p" using setActive_spec [OF gs] by simp
  then obtain gs' where u: "unsetActiveScopeVariable (game st') e = (SetSuccess, gs')"
    using unsetActive_ok by blast
  have "\<exists>st''. executeForEach ord n e rules ids (st'\<lparr>game := gs'\<rparr>) = Inr (RuleSuccess, st'') \<and>
      I (insert p D \<union> set ids) st''"
    using Cons.prems(1,3,4) st'(2) u by (intro Cons.IH) auto
  with gs st'(1) u show ?case by simp
qed simp

lemma forEach_add_list:
  assumes "CHR ''.'' \<notin> set e" "CHR ''$'' \<notin> set v"
  shows "distinct ids \<Longrightarrow> scope (game st) e = None \<Longrightarrow>
    \<forall>p \<in> set ids. \<exists>u. store (game st) (PlayerVar p v) = Some u \<and> add_int u k = Inr (u + k) \<Longrightarrow>
    \<exists>st'. executeForEach ord n e [AddRule (scoped_name e v) k] ids st = Inr (RuleSuccess, st') \<and>
      store (game st') = add_to_players (set ids) v k (store (game st)) \<and>
      scope (game st') = scope (game st) \<and> messages st' = messages st"
proof (induction ids arbitrary: st)
  case (Cons p ids)
  obtain u where u: "store (game st) (PlayerVar p v) = Some u" "add_int u k = Inr (u + k)"
    using Cons.prems(3) by auto
  obtain gs where gs: "setActiveScopeVariable (game st) e p = (SetSuccess, gs)"
    using setActive_ok [OF Cons.prems(2)] by blast
  note set = setActive_spec [OF gs]
  define gs1 where "gs1 = snd (put_location gs (PlayerVar p v) (u + k))"
  have st1: "store gs1 = (store (game st))(PlayerVar p v \<mapsto> u + k)"
    using store_put_location_Some [of gs "PlayerVar p v" u "u + k"] set u(1) by (simp add: gs1_def)
  have sc1: "scope gs1 = (scope (game st))(e \<mapsto> p)"
    using put_location_frame(4) [of gs "PlayerVar p v" "u + k" _ gs1] set
    by (metis gs1_def prod.collapse)
  have body: "executeRules ord n [AddRule (scoped_name e v) k] (st\<lparr>game := gs\<rparr>) =
      Inr (RuleSuccess, st\<lparr>game := gs1\<rparr>)"
    using add_scoped [OF assms, of "st\<lparr>game := gs\<rparr>" p u k ord n] set u by (simp add: gs1_def)
  obtain gs2 where gs2: "unsetActiveScopeVariable gs1 e = (SetSuccess, gs2)"
    using unsetActive_ok [of gs1 e p] sc1 by auto
  note unset = unsetActive_spec [OF gs2]
  have "\<forall>q \<in> set ids. \<exists>u. store gs2 (PlayerVar q v) = Some u \<and> add_int u k = Inr (u + k)"
    using Cons.prems(1,3) unset st1 by auto
  moreover have "scope gs2 = scope (game st)" using unset sc1 Cons.prems(2) by (simp add: fun_upd_idem)
  ultimately obtain st' where
    "executeForEach ord n e [AddRule (scoped_name e v) k] ids (st\<lparr>game := gs2\<rparr>) = Inr (RuleSuccess, st')"
    "store (game st') = add_to_players (set ids) v k (store gs2)"
    "scope (game st') = scope (game st)" "messages st' = messages st"
    using Cons.IH [of "st\<lparr>game := gs2\<rparr>"] Cons.prems(1,2) by auto
  moreover have "add_to_players (set ids) v k (store gs2) = add_to_players (set (p # ids)) v k (store (game st))"
    using add_to_players_insert [of p "set ids" "store (game st)" v u k] Cons.prems(1) u(1) unset st1 by simp
  ultimately show ?case using gs body gs2 by simp
qed simp

lemma forEach_add:
  assumes "iteration_order ord" "gs_wf (game st)" "CHR ''.'' \<notin> set e" "CHR ''$'' \<notin> set v"
    and "scope (game st) e = None"
    and "\<forall>p \<in> players (game st). \<exists>u. store (game st) (PlayerVar p v) = Some u \<and> add_int u k = Inr (u + k)"
  shows "\<exists>st'. executeRule ord n (ForEachRule ''players'' e [AddRule (scoped_name e v) k]) st =
                 Inr (RuleSuccess, st') \<and>
      store (game st') = add_to_players (players (game st)) v k (store (game st)) \<and>
      scope (game st') = scope (game st) \<and> messages st' = messages st"
proof (rule getPlayerIDs_spec [OF assms(1,2)])
  fix ids assume ids: "getPlayerIDs ord (game st) = Inr ids" "distinct ids" "set ids = players (game st)"
  show ?thesis
    using forEach_add_list [OF assms(3,4) ids(2) assms(5), of k ord n] assms(6) ids by simp
qed

text \<open>A nested \<open>forEach\<close> with a bound element name fails before its body runs.\<close>

lemma forEach_bound:
  assumes "iteration_order ord" "gs_wf (game st)" "scope (game st) e = Some p" "players (game st) \<noteq> {}"
  shows "executeRule ord n (ForEachRule ''players'' e rules) st = Inr (RuleFailure, st)"
proof (rule getPlayerIDs_spec [OF assms(1,2)])
  fix ids assume ids: "getPlayerIDs ord (game st) = Inr ids" "distinct ids" "set ids = players (game st)"
  then obtain q qs where "ids = q # qs" using assms(4) by (cases ids) auto
  with ids(1) show ?thesis by (simp add: setActive_bound [OF assms(3)])
qed

text \<open>No \<open>InputTextRule\<close> succeeds, so the rules after it never run.\<close>

lemma input_never_succeeds: "executeRule ord n (InputTextRule u p v) st \<noteq> Inr (RuleSuccess, st')"
  by (auto simp: executeInputTextRule_def bindR_eq_Inr split: if_splits)

lemma input_cuts_rules:
  "executeRules ord n (InputTextRule u p v # rs) st = executeRules ord n [InputTextRule u p v] st"
  using input_never_succeeds [of ord n u p v st]
  by (cases "executeInputTextRule u p v st" rule: andThen_cases) auto

text \<open>What an input rule leaves behind when both of its names exist.\<close>

lemma input_effect:
  assumes "resolve (game st) u = Inr lu" "store (game st) lu \<noteq> None"
    "resolve (game st) v = Inr lv" "store (game st) lv \<noteq> None"
  shows "\<exists>st'. executeRule ord n (InputTextRule u p v) st = Inr (RuleFailure, st') \<and>
     store (game st') = (store (game st))(lv \<mapsto> 123456789)"
  using assms store_put_location_Some [of "game st" lv _ 123456789]
  by (auto simp: executeInputTextRule_def getValue_resolve setValue_resolve case_prod_beta)

section \<open>Properties\<close>

text \<open>
  \<open>AddRule\<close> on every branch: it faults when its target does not resolve or the sum leaves the
  range of \<open>int\<close>, fails without any effect when the target does not exist, and otherwise adds
  exactly the value to exactly the target.
\<close>

theorem addRule_branches:
  "case resolve (game st) t of
     Inl e \<Rightarrow> executeRule ord n (AddRule t k) st = Inl e
   | Inr l \<Rightarrow>
       (case store (game st) l of
          None \<Rightarrow> executeRule ord n (AddRule t k) st = Inr (RuleFailure, st)
        | Some u \<Rightarrow>
            if sint u + sint k \<in> {- (2 ^ 31) ..< 2 ^ 31}
            then \<exists>gs. executeRule ord n (AddRule t k) st = Inr (RuleSuccess, st\<lparr>game := gs\<rparr>) \<and>
                   store gs = (store (game st))(l \<mapsto> u + k) \<and> sint (u + k) = sint u + sint k
            else executeRule ord n (AddRule t k) st = Inl SignedOverflow)"
proof (cases "resolve (game st) t")
  case (Inr l)
  show ?thesis
  proof (cases "store (game st) l")
    case (Some u)
    then show ?thesis
      using Inr store_put_location_Some [OF Some, of "u + k"] add_int_sint [of u k "u + k"]
      by (auto simp: executeAddRule_spec add_int_def)
  qed (simp add: Inr executeAddRule_spec)
qed (simp add: executeAddRule_spec)

text \<open>
  Names checked statically are safe: if every name the rules use passes \<open>names_ok\<close> for the scope
  variables bound at the start, execution throws nothing and dereferences nothing it must not; the
  overflow of an addition and the end of the fuel are the only ways not to return.
\<close>

theorem names_ok_safe:
  assumes "iteration_order ord" "list_all (names_ok B) rs" "gs_wf (game st)" "binds B (game st)"
    and "executeRules ord n rs st = Inl e"
  shows "e = SignedOverflow \<or> e = OutOfFuel"
  using names_ok_benign(2) [OF assms(1-4), of n] assms(5) by (simp add: benign_def)

theorem names_ok_safe_witness:
  "executeRules id 0 [LoopRule [] [AddRule ''debug_target'' 1]] two_players_exec = Inl OutOfFuel \<and>
   (OutOfFuel = SignedOverflow \<or> OutOfFuel = OutOfFuel)"
proof -
  have ok: "list_all (names_ok []) [LoopRule [] [AddRule ''debug_target'' 1]]" by code_simp
  have run: "executeRules id 0 [LoopRule [] [AddRule ''debug_target'' 1]] two_players_exec = Inl OutOfFuel"
    by (simp add: two_players_exec_def two_players_debug_target executeLoop.simps)
  have "gs_wf (game two_players_exec)" "binds [] (game two_players_exec)"
    by (simp_all add: two_players_exec_def two_players_wf binds_def)
  from names_ok_safe [OF iteration_order_id ok this run] run show ?thesis by blast
qed

text \<open>
  A \<open>forEach\<close> over the players that adds \<open>k\<close> to a variable of its element adds it once to that
  variable of every player and touches nothing else, for every order in which the players are
  visited.
\<close>

theorem forEach_adds_to_every_player:
  assumes "iteration_order ord" "gs_wf (game st)" "CHR ''.'' \<notin> set e" "CHR ''$'' \<notin> set v"
    and "scope (game st) e = None"
    and "\<And>p. p \<in> players (game st) \<Longrightarrow>
           \<exists>u. store (game st) (PlayerVar p v) = Some u \<and> sint u + sint k \<in> {- (2 ^ 31) ..< 2 ^ 31}"
  shows "\<exists>st'. executeRule ord n (ForEachRule ''players'' e [AddRule (''players.$'' @ e @ CHR ''.'' # v) k]) st =
                 Inr (RuleSuccess, st') \<and>
      store (game st') = add_to_players (players (game st)) v k (store (game st)) \<and>
      scope (game st') = scope (game st) \<and> messages st' = messages st"
  using forEach_add [OF assms(1-5), of k n] assms(6)
  by (fastforce simp: scoped_name_def add_int_def)

theorem forEach_adds_to_every_player_witness:
  "\<exists>st'. executeRule rev 0 (ForEachRule ''players'' ''e'' [AddRule ''players.$e.score'' 1]) two_players_exec =
           Inr (RuleSuccess, st') \<and>
     store (game st') = add_to_players {7, 8} ''score'' 1 (store two_players) \<and>
     scope (game st') = scope two_players \<and> messages st' = []"
proof -
  have g: "game two_players_exec = two_players" "messages two_players_exec = []"
    "players two_players = {7, 8}" by (simp_all add: two_players_exec_def two_players_def)
  have "scope two_players ''e'' = None" by code_simp
  moreover have "\<exists>u. store two_players (PlayerVar p ''score'') = Some u \<and>
      sint u + sint (1 :: int32) \<in> {- (2 ^ 31) ..< 2 ^ 31}" if "p \<in> players two_players" for p
    using that two_players_names(2,3) g(3) by auto
  ultimately show ?thesis
    using forEach_adds_to_every_player [of rev two_players_exec "''e''" "''score''" 1 0]
      iteration_order_rev two_players_wf g by simp
qed

text \<open>
  A \<open>forEach\<close> directly inside a \<open>forEach\<close> with the same element name fails for the first player,
  changes no variable, and leaves the element bound: failure does not restore the scope.
\<close>

theorem nested_forEach_same_element:
  assumes "iteration_order ord" "gs_wf (game st)" "players (game st) \<noteq> {}" "scope (game st) e = None"
  shows "\<exists>st'. executeRule ord n (ForEachRule ''players'' e (ForEachRule ''players'' e inner # rest)) st =
                 Inr (RuleFailure, st') \<and>
      scope (game st') e \<noteq> None \<and> store (game st') = store (game st) \<and> messages st' = messages st"
proof (rule getPlayerIDs_spec [OF assms(1,2)])
  fix ids assume ids: "getPlayerIDs ord (game st) = Inr ids" "distinct ids" "set ids = players (game st)"
  then obtain p ps where p: "ids = p # ps" using assms(3) by (cases ids) auto
  obtain gs where set: "setActiveScopeVariable (game st) e p = (SetSuccess, gs)"
    using setActive_ok [OF assms(4)] by blast
  note spec = setActive_spec [OF set]
  have "gs_wf gs" using gs_wf_setActive [OF assms(2), of e p] set by simp
  then have "executeRule ord n (ForEachRule ''players'' e inner) (st\<lparr>game := gs\<rparr>) =
      Inr (RuleFailure, st\<lparr>game := gs\<rparr>)"
    using spec assms(3) by (intro forEach_bound [OF assms(1)]) simp_all
  then show ?thesis using ids(1) p set spec by (simp del: executeRule.simps add: executeRule.simps(5) [of ord n _ _ "_ # _"])
qed

theorem nested_forEach_same_element_witness:
  "\<exists>st'. executeRule id 0 (ForEachRule ''players'' ''e'' [ForEachRule ''players'' ''e'' []]) two_players_exec =
           Inr (RuleFailure, st') \<and> scope (game st') ''e'' \<noteq> None"
proof -
  have "scope two_players ''e'' = None" by code_simp
  then show ?thesis
    using nested_forEach_same_element [of id two_players_exec "''e''" 0 "[]" "[]"] iteration_order_id two_players_wf
    by (fastforce simp: two_players_exec_def two_players_def)
qed

text \<open>
  What the unfinished input-text rule does: if both of its names denote existing variables it
  stores 123456789 in the result variable, changes nothing else, and reports failure.
\<close>

theorem inputTextRule_effect:
  assumes "resolve (game st) u = Inr lu" "store (game st) lu \<noteq> None"
    and "resolve (game st) v = Inr lv" "store (game st) lv \<noteq> None"
  shows "\<exists>st'. executeRule ord n (InputTextRule u p v) st = Inr (RuleFailure, st') \<and>
     store (game st') = (store (game st))(lv \<mapsto> 123456789)"
  using assms by (rule input_effect)

theorem inputTextRule_effect_witness:
  "\<exists>st'. executeRule id 0 (InputTextRule ''players.$p.score'' ''?'' ''players.8.score'') two_players_exec =
           Inr (RuleFailure, st') \<and>
     store (game st') = (store two_players)(PlayerVar 8 ''score'' \<mapsto> 123456789)"
  using inputTextRule_effect [of two_players_exec "''players.$p.score''" "PlayerVar 7 ''score''"
      "''players.8.score''" "PlayerVar 8 ''score''" id 0 "''?''"] two_players_names
  by (simp add: two_players_exec_def del: store.simps)

end
