(* ===== verification/Rule_Parser.thy ===== *)
theory Rule_Parser
  imports Json_Library Rule_Semantics
begin

text \<open>
  The parser of rule lists (\<open>src/JsonParser/RuleParser.cpp\<close>). Its only state is the map of
  scoped aliases, threaded through every call: a \<open>foreach\<close> inserts an alias
  \<open>element -> list.$element\<close> for the time its child rules are parsed. A rule that fails to
  parse is \<open>None\<close>, the null pointer of the code. Rule lists nest, so the parser takes fuel for
  the depth of nesting; a bound on the depth of the JSON value is enough fuel.
\<close>

type_synonym VariableAliasMap = "(string, string) umap"

section \<open>The parser\<close>

definition aliasOf :: "VariableAliasMap \<Rightarrow> string \<Rightarrow> string" where
  "aliasOf aliases c = (case map_of aliases c of Some a \<Rightarrow> a | None \<Rightarrow> c)"

text \<open>
  The loop of \<open>processScopedVariables\<close>, with the suffix at \<open>variableComponentStart_it\<close>. The code
  also advances that iterator past \<open>end()\<close> after the last component, and does not use it again.
\<close>

function processScopedLoop :: "VariableAliasMap \<Rightarrow> string \<Rightarrow> string \<Rightarrow> string" where
  "processScopedLoop aliases newName start =
     (let newName' = newName @ aliasOf aliases (until CHR ''.'' start)
      in case find_from CHR ''.'' start of
           [] \<Rightarrow> newName'
         | _ # start' \<Rightarrow> processScopedLoop aliases (newName' @ ''.'') start')"
  by pat_completeness auto
termination
proof (relation "measure (\<lambda>(a, n, s). length s)", goal_cases)
  case (2 aliases newName start newName' d start')
  then show ?case using find_from_length [of "CHR ''.''" start] by simp
qed simp

declare processScopedLoop.simps [simp del]

definition processScopedVariables :: "VariableAliasMap \<Rightarrow> string \<Rightarrow> string" where
  "processScopedVariables aliases variableName =
     (if variableName = [] then [] else processScopedLoop aliases [] variableName)"

definition parseAddRule :: "('j, 'x) json_lib_scheme \<Rightarrow> VariableAliasMap \<Rightarrow> 'j \<Rightarrow> fault + rule option" where
  "parseAddRule J aliases j =
     (if \<not> j_contains J j ''to'' \<or> \<not> j_contains J j ''value'' then Inr None
      else if 3 < j_size J j then Inr None
      else catchR
        (bindR (j_get_string J (j_at J j ''to'')) (\<lambda>to.
         bindR (j_get_int J (j_at J j ''value'')) (\<lambda>val.
           Inr (Some (AddRule (processScopedVariables aliases to) val)))))
        (\<lambda>_. Inr None))"

definition parseGlobalMessageRule :: "('j, 'x) json_lib_scheme \<Rightarrow> 'j \<Rightarrow> fault + rule option" where
  "parseGlobalMessageRule J j =
     (if \<not> j_contains J j ''value'' then Inr None
      else if 2 < j_size J j then Inr None
      else catchR
        (bindR (j_get_string J (j_at J j ''value'')) (\<lambda>val. Inr (Some (GlobalMessageRule val))))
        (\<lambda>_. Inr None))"

definition parseInputTextRule ::
    "('j, 'x) json_lib_scheme \<Rightarrow> VariableAliasMap \<Rightarrow> 'j \<Rightarrow> fault + rule option" where
  "parseInputTextRule J aliases j =
     (if \<not> j_contains J j ''to'' \<or> \<not> j_contains J j ''prompt'' \<or> \<not> j_contains J j ''result''
      then Inr None
      else if 4 < j_size J j then Inr None
      else catchR
        (bindR (j_get_string J (j_at J j ''to'')) (\<lambda>to.
         bindR (j_get_string J (j_at J j ''prompt'')) (\<lambda>prompt.
         bindR (j_get_string J (j_at J j ''result'')) (\<lambda>res.
           Inr (Some (InputTextRule (processScopedVariables aliases to) prompt
                        (processScopedVariables aliases res)))))))
        (\<lambda>_. Inr None))"

text \<open>
  \<open>parseRules\<close> and the parsers it calls. The loop over the list carries the rules parsed so far;
  every early \<open>return {}\<close> drops them. The aliases are those the parser object holds afterwards.
  In the handler of \<open>parseForEachRule\<close> the exception comes from one of the conversions, before
  the alias is inserted: the nested \<open>parseRules\<close> throws none.
\<close>

function (sequential) parseRules :: "('j, 'x) json_lib_scheme \<Rightarrow> nat \<Rightarrow> VariableAliasMap \<Rightarrow> 'j \<Rightarrow>
      fault + rule list \<times> VariableAliasMap"
and parseRuleList :: "('j, 'x) json_lib_scheme \<Rightarrow> nat \<Rightarrow> VariableAliasMap \<Rightarrow> rule list \<Rightarrow> 'j list \<Rightarrow>
      fault + rule list \<times> VariableAliasMap"
and parseRule :: "('j, 'x) json_lib_scheme \<Rightarrow> nat \<Rightarrow> VariableAliasMap \<Rightarrow> 'j \<Rightarrow>
      fault + rule option \<times> VariableAliasMap"
and parseForEachRule :: "('j, 'x) json_lib_scheme \<Rightarrow> nat \<Rightarrow> VariableAliasMap \<Rightarrow> 'j \<Rightarrow>
      fault + rule option \<times> VariableAliasMap" where
  "parseRules J 0 aliases j = Inl OutOfFuel"
| "parseRules J (Suc n) aliases j = parseRuleList J n aliases [] (j_elements J j)"
| "parseRuleList J n aliases orderedRuleList [] = Inr (orderedRuleList, aliases)"
| "parseRuleList J n aliases orderedRuleList (ruleJson # rest) =
     (if \<not> j_contains J ruleJson ''rule'' then Inr ([], aliases)
      else bindR (parseRule J n aliases ruleJson) (\<lambda>(ruleObject, aliases').
        case ruleObject of
          None \<Rightarrow> Inr ([], aliases')
        | Some r \<Rightarrow> parseRuleList J n aliases' (orderedRuleList @ [r]) rest))"
| "parseRule J n aliases ruleJson =
     (let kind = j_at J ruleJson ''rule''
      in if j_eq_string J kind ''add'' then
           bindR (parseAddRule J aliases ruleJson) (\<lambda>r. Inr (r, aliases))
         else if j_eq_string J kind ''global-message'' then
           bindR (parseGlobalMessageRule J ruleJson) (\<lambda>r. Inr (r, aliases))
         else if j_eq_string J kind ''loop'' then Inr (None, aliases)
         else if j_eq_string J kind ''foreach'' then parseForEachRule J n aliases ruleJson
         else if j_eq_string J kind ''input-text'' then
           bindR (parseInputTextRule J aliases ruleJson) (\<lambda>r. Inr (r, aliases))
         else Inr (None, aliases))"
| "parseForEachRule J n aliases j =
     (if \<not> j_contains J j ''list'' \<or> \<not> j_contains J j ''element'' \<or> \<not> j_contains J j ''rules''
      then Inr (None, aliases)
      else if 4 < j_size J j then Inr (None, aliases)
      else catchR
        (bindR (j_get_string J (j_at J j ''list'')) (\<lambda>listName.
          if listName \<noteq> ''players'' then Inr (None, aliases)
          else bindR (j_get_string J (j_at J j ''element'')) (\<lambda>element.
            let aliases1 = um_insert aliases element (listName @ ''.$'' @ element)
            in bindR (parseRules J n aliases1 (j_at J j ''rules'')) (\<lambda>(rules, aliases2).
                 Inr (Some (ForEachRule listName element rules), um_erase aliases2 element)))))
        (\<lambda>_. Inr (None, aliases)))"
  by pat_completeness auto
termination
  by (relation "measures
       [case_sum (case_sum (\<lambda>(J, n, a, j). n) (\<lambda>(J, n, a, os, xs). n))
                 (case_sum (\<lambda>(J, n, a, x). n) (\<lambda>(J, n, a, j). n)),
        case_sum (case_sum (\<lambda>_. 0) (\<lambda>_. 3)) (case_sum (\<lambda>_. 2) (\<lambda>_. 1)),
        case_sum (case_sum (\<lambda>_. 0) (\<lambda>(J, n, a, os, xs). length xs)) (\<lambda>_. 0)]")
     simp_all

declare parseRule.simps [simp del] parseForEachRule.simps [simp del]

section \<open>Scoped names\<close>

lemma processScopedLoop_eq:
  "processScopedLoop al acc s = acc @ join_with CHR ''.'' (map (aliasOf al) (split_on CHR ''.'' s))"
proof (induction s arbitrary: acc rule: length_induct)
  case (1 s)
  show ?case
  proof (cases "find_from CHR ''.'' s")
    case Nil
    then show ?thesis by (simp add: processScopedLoop.simps [of al acc s] split_on_until [of _ s])
  next
    case (Cons d r)
    then have d: "d = CHR ''.''" by (rule find_from_ConsD)
    have "length r < length s" using find_from_length [of "CHR ''.''" s] Cons by simp
    then show ?thesis
      using 1 Cons d
      by (simp add: processScopedLoop.simps [of al acc s] split_on_until [of _ s] join_with_Cons)
  qed
qed

lemma processScopedVariables_eq:
  "s \<noteq> [] \<Longrightarrow>
   processScopedVariables al s = join_with CHR ''.'' (map (aliasOf al) (split_on CHR ''.'' s))"
  by (simp add: processScopedVariables_def processScopedLoop_eq)

lemma processScoped_no_alias:
  assumes "\<forall>c \<in> set (split_on CHR ''.'' s). map_of al c = None"
  shows "processScopedVariables al s = s"
proof (cases "s = []")
  case False
  have "map (aliasOf al) (split_on CHR ''.'' s) = split_on CHR ''.'' s"
    using assms by (intro map_idI) (simp add: aliasOf_def)
  with False show ?thesis by (simp add: processScopedVariables_eq join_split)
qed (simp add: processScopedVariables_def)

lemma processScoped_element:
  assumes "map_of al e = Some (''players.$'' @ e)" "CHR ''.'' \<notin> set e"
    and "\<forall>c \<in> set (split_on CHR ''.'' v). map_of al c = None"
  shows "processScopedVariables al (e @ CHR ''.'' # v) = scoped_name e v"
proof -
  have "map (aliasOf al) (split_on CHR ''.'' v) = split_on CHR ''.'' v"
    using assms(3) by (intro map_idI) (simp add: aliasOf_def)
  then show ?thesis
    using assms(1,2)
    by (simp add: processScopedVariables_eq split_on_append join_with_Cons join_split aliasOf_def
        scoped_name_def)
qed

section \<open>The parser never throws\<close>

lemma parse_leaf_total:
  assumes "json_throws J"
  shows "\<exists>r. parseAddRule J al j = Inr r" "\<exists>r. parseGlobalMessageRule J j = Inr r"
    "\<exists>r. parseInputTextRule J al j = Inr r"
proof -
  have s: "\<And>j. (\<exists>e. j_get_string J j = Inl e \<and> is_exception e) \<or> (\<exists>x. j_get_string J j = Inr x)"
    and i: "\<And>j. (\<exists>e. j_get_int J j = Inl e \<and> is_exception e) \<or> (\<exists>x. j_get_int J j = Inr x)"
    using assms by (metis json_throws_def sum.exhaust)+
  show "\<exists>r. parseAddRule J al j = Inr r"
    using s [of "j_at J j ''to''"] i [of "j_at J j ''value''"] by (auto simp: parseAddRule_def)
  show "\<exists>r. parseGlobalMessageRule J j = Inr r"
    using s [of "j_at J j ''value''"] by (auto simp: parseGlobalMessageRule_def)
  show "\<exists>r. parseInputTextRule J al j = Inr r"
    using s [of "j_at J j ''to''"] s [of "j_at J j ''prompt''"] s [of "j_at J j ''result''"]
    by (auto simp: parseInputTextRule_def)
qed

lemma parse_faults:
  "json_throws J \<Longrightarrow> parseRules J n al j = Inl e \<Longrightarrow> e = OutOfFuel"
  "json_throws J \<Longrightarrow> parseRuleList J n al os xs = Inl e \<Longrightarrow> e = OutOfFuel"
  "json_throws J \<Longrightarrow> parseRule J n al x = Inl e \<Longrightarrow> e = OutOfFuel"
  "json_throws J \<Longrightarrow> parseForEachRule J n al x = Inl e \<Longrightarrow> e = OutOfFuel"
proof (induction J n al j and J n al os xs and J n al x and J n al x
    arbitrary: e and e and e and e rule: parseRules_parseRuleList_parseRule_parseForEachRule.induct)
  case (4 J n al os x xs)
  then show ?case by (fastforce simp: bindR_eq_Inl split: if_splits option.splits)
next
  case (5 J n al x)
  then show ?case
    using parse_leaf_total(1,3) [OF 5(2), of al x] parse_leaf_total(2) [OF 5(2), of x]
    by (auto simp: parseRule.simps Let_def bindR_eq_Inl split: if_splits)
next
  case (6 J n al j)
  then show ?case
    by (fastforce simp: parseForEachRule.simps Let_def catchR_eq_Inl bindR_eq_Inl json_throws_def
        split: if_splits)
qed auto

section \<open>Fuel\<close>

text \<open>A bound on the nesting depth of the JSON value is enough fuel.\<close>

lemma parse_enough_fuel:
  assumes nest: "json_nesting J depth" and thr: "json_throws J"
  shows "depth j < n \<Longrightarrow> parseRules J n al j \<noteq> Inl OutOfFuel"
proof (induction n arbitrary: al j)
  case (Suc n)
  have rule: "parseRule J n al x \<noteq> Inl OutOfFuel"
    if "j_contains J x ''rules'' \<Longrightarrow> depth (j_at J x ''rules'') < n" for al x
    using that Suc.IH [of "j_at J x ''rules''"] thr
      parse_leaf_total(1,3) [OF thr, of al x] parse_leaf_total(2) [OF thr, of x]
    by (auto simp: parseRule.simps parseForEachRule.simps Let_def catchR_eq_Inl bindR_eq_Inl
        json_throws_def split: if_splits)
  have "parseRuleList J n al os xs \<noteq> Inl OutOfFuel"
    if "\<forall>x \<in> set xs. j_contains J x ''rules'' \<longrightarrow> depth (j_at J x ''rules'') < n" for al os xs
    using that
  proof (induction xs arbitrary: al os)
    case (Cons x xs)
    then show ?case using rule [of x al] by (auto simp: bindR_eq_Inl split: option.splits)
  qed simp
  moreover have "\<forall>x \<in> set (j_elements J j). j_contains J x ''rules'' \<longrightarrow> depth (j_at J x ''rules'') < n"
    using nest Suc.prems by (fastforce simp: json_nesting_def)
  ultimately show ?case by simp
qed simp

section \<open>What parsed rules look like\<close>

text \<open>The parser builds no loops, and \<open>foreach\<close> only over the players.\<close>

primrec parser_shape :: "rule \<Rightarrow> bool" where
  "parser_shape (AddRule t v) \<longleftrightarrow> True"
| "parser_shape (GlobalMessageRule m) \<longleftrightarrow> True"
| "parser_shape (LoopRule c rs) \<longleftrightarrow> False"
| "parser_shape (InputTextRule u p v) \<longleftrightarrow> True"
| "parser_shape (ForEachRule l e rs) \<longleftrightarrow> l = ''players'' \<and> list_all parser_shape rs"

lemma parser_shape_loop_free: "parser_shape r \<Longrightarrow> loop_free r"
proof (induction r)
  case (ForEachRule l e rs)
  then show ?case by (auto simp: list_all_iff)
qed auto

lemma parse_leaf_shape:
  "parseAddRule J al j = Inr (Some r) \<Longrightarrow> parser_shape r"
  "parseGlobalMessageRule J j = Inr (Some r) \<Longrightarrow> parser_shape r"
  "parseInputTextRule J al j = Inr (Some r) \<Longrightarrow> parser_shape r"
  by (auto simp: parseAddRule_def parseGlobalMessageRule_def parseInputTextRule_def
      catchR_eq_Inr bindR_eq_Inr split: if_splits)

lemma alias_scope:
  "map_of al2 \<subseteq>\<^sub>m map_of (um_insert al e a) \<Longrightarrow> map_of (um_erase al2 e) \<subseteq>\<^sub>m map_of al"
  by (auto simp: map_le_def map_of_um_insert map_of_um_erase um_contains_iff dom_def split: if_splits)

text \<open>After a call the parser holds no alias it did not hold before it.\<close>

lemma parse_shape_aliases:
  "parseRules J n al j = Inr (rs, al') \<Longrightarrow> list_all parser_shape rs \<and> map_of al' \<subseteq>\<^sub>m map_of al"
  "parseRuleList J n al os xs = Inr (rs, al') \<Longrightarrow> list_all parser_shape os \<Longrightarrow>
     list_all parser_shape rs \<and> map_of al' \<subseteq>\<^sub>m map_of al"
  "parseRule J n al x = Inr (ro, al') \<Longrightarrow>
     (\<forall>r. ro = Some r \<longrightarrow> parser_shape r) \<and> map_of al' \<subseteq>\<^sub>m map_of al"
  "parseForEachRule J n al x = Inr (ro, al') \<Longrightarrow>
     (\<forall>r. ro = Some r \<longrightarrow> parser_shape r) \<and> map_of al' \<subseteq>\<^sub>m map_of al"
proof (induction J n al j and J n al os xs and J n al x and J n al x
    arbitrary: rs al' and rs al' and ro al' and ro al'
    rule: parseRules_parseRuleList_parseRule_parseForEachRule.induct)
  case (4 J n al os x xs)
  show ?case
  proof (cases "j_contains J x ''rule''")
    case True
    with 4(3) obtain ro al1 where p: "parseRule J n al x = Inr (ro, al1)"
      and k: "(case ro of None \<Rightarrow> Inr ([], al1) | Some r \<Rightarrow> parseRuleList J n al1 (os @ [r]) xs) = Inr (rs, al')"
      by (auto simp: bindR_eq_Inr)
    note IH1 = 4(1) [OF _ p] 
    show ?thesis
    proof (cases ro)
      case None
      with k IH1 True show ?thesis by auto
    next
      case (Some r)
      with k IH1 True 4(4) have "list_all parser_shape rs \<and> map_of al' \<subseteq>\<^sub>m map_of al1"
        using 4(2) [OF _ p refl Some] by auto
      with IH1 True show ?thesis by (auto intro: map_le_trans)
    qed
  qed (use 4 in simp)
next
  case (5 J n al x)
  then show ?case
    by (auto simp: parseRule.simps Let_def bindR_eq_Inr dest: parse_leaf_shape split: if_splits)
next
  case (6 J n al j)
  show ?case
  proof (cases "ro = None \<and> al' = al")
    case False
    with 6(2) obtain e rules al2 where
      g: "j_contains J j ''list''" "j_contains J j ''element''" "j_contains J j ''rules''" "\<not> 4 < j_size J j"
         "j_get_string J (j_at J j ''list'') = Inr ''players''" "j_get_string J (j_at J j ''element'') = Inr e"
      and p: "parseRules J n (um_insert al e (''players'' @ ''.$'' @ e)) (j_at J j ''rules'') = Inr (rules, al2)"
      and ro: "ro = Some (ForEachRule ''players'' e rules)" "al' = um_erase al2 e"
      by (auto simp: parseForEachRule.simps Let_def catchR_eq_Inr bindR_eq_Inr split: if_splits)
    have "list_all parser_shape rules \<and> map_of al2 \<subseteq>\<^sub>m map_of (um_insert al e (''players'' @ ''.$'' @ e))"
      using 6(1) [OF _ _ g(5) _ g(6) refl p] g by simp
    with ro show ?thesis by (auto intro: alias_scope)
  qed auto
qed auto

text \<open>
  A child rule that does not parse empties the list of the enclosing \<open>foreach\<close>, which itself
  still parses.
\<close>

lemma parseForEach_bad_child:
  assumes "j_contains J j ''list''" "j_contains J j ''element''" "j_contains J j ''rules''"
    "j_size J j \<le> 4" "j_get_string J (j_at J j ''list'') = Inr ''players''"
    "j_get_string J (j_at J j ''element'') = Inr e"
    and "j_elements J (j_at J j ''rules'') = x # xs" "\<not> j_contains J x ''rule''"
  shows "\<exists>al'. parseForEachRule J (Suc n) al j = Inr (Some (ForEachRule ''players'' e []), al')"
  using assms by (simp add: parseForEachRule.simps Let_def)

text \<open>A rule list is parsed completely or not at all.\<close>

lemma parseRuleList_all_or_nothing:
  "parseRuleList J n al os xs = Inr (rs, al') \<Longrightarrow> rs = [] \<or> length rs = length os + length xs"
proof (induction xs arbitrary: al os)
  case (Cons x xs)
  then show ?case by (fastforce simp: bindR_eq_Inr split: if_splits option.splits)
qed simp

section \<open>Properties\<close>

text \<open>
  The iterator loop of \<open>processScopedVariables\<close> splits the name at its dots, replaces every
  component that has an alias, and joins the components again; the empty name stays empty.
\<close>

theorem processScopedVariables_spec:
  "processScopedVariables al s =
     (if s = [] then [] else join_with CHR ''.'' (map (aliasOf al) (split_on CHR ''.'' s)))"
  by (simp add: processScopedVariables_eq) (simp add: processScopedVariables_def)

text \<open>
  C24. The rule parser always returns: whatever the JSON value, ill-typed members and unknown rules
  included, it throws nothing, and fuel above the nesting depth of the value is enough. The step of an
  iterator over the end, with which \<open>processScopedVariables\<close> leaves every name, is not counted as a fault.
\<close>

theorem parseRules_returns:
  assumes "json_throws J" "json_nesting J depth" "depth j < n"
  shows "\<exists>rs al'. parseRules J n al j = Inr (rs, al')"
  using parse_enough_fuel [OF assms(2,1,3), of al] parse_faults(1) [OF assms(1), of n al j]
  by (metis sum.exhaust surj_pair)

text \<open>
  C23. What the parser delivers: either no rules at all or one rule for every element of the list;
  \<open>foreach\<close> rules over the players only, and no loop rule, at any depth; and the parser object holds
  no alias that it did not hold before.
\<close>

theorem parseRules_result:
  assumes "parseRules J n al j = Inr (rs, al')"
  shows "(rs = [] \<or> length rs = length (j_elements J j)) \<and> list_all parser_shape rs \<and>
    list_all loop_free rs \<and> map_of al' \<subseteq>\<^sub>m map_of al"
proof -
  obtain m where m: "n = Suc m" using assms by (cases n) auto
  then have "rs = [] \<or> length rs = length (j_elements J j)"
    using assms parseRuleList_all_or_nothing by fastforce
  with parse_shape_aliases(1) [OF assms] show ?thesis
    by (auto simp: list_all_iff parser_shape_loop_free)
qed

text \<open>A \<open>foreach\<close> with one child, an addition written with the element name.\<close>

definition forEach_doc :: jval where
  "forEach_doc =
     JArr [JObj [(''rule'', JStr ''foreach''), (''list'', JStr ''players''), (''element'', JStr ''player''),
                 (''rules'', JArr [JObj [(''rule'', JStr ''add''), (''to'', JStr ''player.score''),
                                         (''value'', JInt 1)]])]]"

lemma forEach_doc_parsed:
  "parseRules (jval_lib Map.empty) 2 [] forEach_doc =
     Inr ([ForEachRule ''players'' ''player'' [AddRule ''players.$player.score'' 1]], [])"
proof -
  have name: "processScopedVariables [(''player'', ''players.$player'')] ''player.score'' = ''players.$player.score''"
    by code_simp
  have maps: "um_insert [] ''player'' ''players.$player'' = [(''player'', ''players.$player'')]"
    "um_erase [(''player'', ''players.$player'')] ''player'' = []" by code_simp+
  show ?thesis
    by (simp add: forEach_doc_def numeral_2_eq_2 parseRule.simps parseForEachRule.simps parseAddRule_def
        maps name Let_def)
qed

theorem parseRules_returns_witness:
  "\<exists>rs al'. parseRules (jval_lib Map.empty) (Suc (size forEach_doc)) [] forEach_doc = Inr (rs, al')"
  by (rule parseRules_returns [OF jval_throws jval_nesting]) simp

theorem parseRules_result_witness:
  "parseRules (jval_lib Map.empty) 2 [] forEach_doc =
     Inr ([ForEachRule ''players'' ''player'' [AddRule ''players.$player.score'' 1]], []) \<and>
   list_all loop_free [ForEachRule ''players'' ''player'' [AddRule ''players.$player.score'' 1]]"
  using parseRules_result [OF forEach_doc_parsed] forEach_doc_parsed by blast

text \<open>
  One child of a \<open>foreach\<close> that is no rule silently empties the loop: the \<open>foreach\<close> itself still
  parses, with no rules, and the game that contains it is not rejected.
\<close>

theorem forEach_bad_child_dropped:
  assumes "j_contains J j ''list''" "j_contains J j ''element''" "j_contains J j ''rules''"
    and "j_size J j \<le> 4" "j_get_string J (j_at J j ''list'') = Inr ''players''"
    and "j_get_string J (j_at J j ''element'') = Inr e"
    and "j_elements J (j_at J j ''rules'') = x # xs" "\<not> j_contains J x ''rule''"
  shows "\<exists>al'. parseForEachRule J (Suc n) al j = Inr (Some (ForEachRule ''players'' e []), al')"
  using assms by (rule parseForEach_bad_child)

theorem forEach_bad_child_dropped_witness:
  "\<exists>al'. parseForEachRule (jval_lib Map.empty) 1 []
     (JObj [(''rule'', JStr ''foreach''), (''list'', JStr ''players''), (''element'', JStr ''player''),
            (''rules'', JArr [JObj [(''to'', JStr ''x'')], JObj [(''rule'', JStr ''add'')]])]) =
     Inr (Some (ForEachRule ''players'' ''player'' []), al')"
  using forEach_bad_child_dropped [of "jval_lib Map.empty"
      "JObj [(''rule'', JStr ''foreach''), (''list'', JStr ''players''), (''element'', JStr ''player''),
             (''rules'', JArr [JObj [(''to'', JStr ''x'')], JObj [(''rule'', JStr ''add'')]])]"
      "''player''" "JObj [(''to'', JStr ''x'')]" "[JObj [(''rule'', JStr ''add'')]]" 0 "[]"]
  by simp

end
