(* ===== verification/Json_Parser.thy ===== *)
theory Json_Parser
  imports Rule_Parser
begin

text \<open>
  The parsers of whole documents (\<open>src/JsonParser/JsonParser.cpp\<close>,
  \<open>src/JsonParser/VariableParser.cpp\<close>) and the data they hand over (\<open>src/GameData\<close>). A document
  is read, its root elements are checked against a fixed list of names and types, and a game
  specification is then turned into variables and rules.
\<close>

section \<open>Game data\<close>

record GameData =
  isValid :: bool
  gd_variableMap :: VariableMap
  gd_perPlayerVariableMap :: VariableMap
  gd_topLevelRules :: "rule list"

text \<open>The default-initialised \<open>GameData\<close>, returned as \<open>{}\<close> for invalid specifications.\<close>

definition invalidGameData :: GameData where
  "invalidGameData =
     \<lparr>isValid = False, gd_variableMap = [], gd_perPlayerVariableMap = [], gd_topLevelRules = []\<rparr>"

section \<open>Variables\<close>

text \<open>The loop over \<open>items()\<close>: a value that is not a number drops the whole map.\<close>

fun parseVariableItems ::
    "('j, 'x) json_lib_scheme \<Rightarrow> VariableMap \<Rightarrow> (string \<times> 'j) list \<Rightarrow> fault + VariableMap" where
  "parseVariableItems J gameVariableMap [] = Inr gameVariableMap"
| "parseVariableItems J gameVariableMap ((k, v) # rest) =
     bindR (catchR (bindR (j_get_int J v) (\<lambda>i. Inr (Some i))) (\<lambda>_. Inr None)) (\<lambda>r.
       case r of
         None \<Rightarrow> Inr []
       | Some i \<Rightarrow> parseVariableItems J (um_insert gameVariableMap k i) rest)"

definition parseVariables :: "('j, 'x) json_lib_scheme \<Rightarrow> 'j \<Rightarrow> fault + VariableMap" where
  "parseVariables J j =
     (if j_type J j \<noteq> VObject then Inr [] else parseVariableItems J [] (j_items J j))"

section \<open>Documents\<close>

datatype FileType = GAME_SPEC | SERVER_CONFIG

definition GS_ROOT_ELEMS :: "(string \<times> value_t) list" where
  "GS_ROOT_ELEMS =
     [(''configuration'', VObject), (''constants'', VObject), (''variables'', VObject),
      (''per-player'', VObject), (''per-audience'', VObject), (''rules'', VArray)]"

definition SC_ROOT_ELEMS :: "(string \<times> value_t) list" where
  "SC_ROOT_ELEMS = [(''port'', VNumberUnsigned), (''serverhtml'', VString)]"

definition validateJsonContent_rootLevelElements ::
    "('j, 'x) json_lib_scheme \<Rightarrow> 'j \<Rightarrow> (string \<times> value_t) list \<Rightarrow> bool" where
  "validateJsonContent_rootLevelElements J j rootElemProperties =
     (if j_size J j \<noteq> length rootElemProperties then False
      else if list_ex (\<lambda>p. \<not> j_contains J j (fst p)) rootElemProperties then False
      else if list_ex (\<lambda>p. j_type J (j_at J j (fst p)) \<noteq> snd p) rootElemProperties then False
      else True)"

definition validateJsonContent_gameSpec :: "('j, 'x) json_lib_scheme \<Rightarrow> 'j \<Rightarrow> bool" where
  "validateJsonContent_gameSpec J j = validateJsonContent_rootLevelElements J j GS_ROOT_ELEMS"

definition validateJsonContent_serverConfig :: "('j, 'x) json_lib_scheme \<Rightarrow> 'j \<Rightarrow> bool" where
  "validateJsonContent_serverConfig J j = validateJsonContent_rootLevelElements J j SC_ROOT_ELEMS"

definition validateJsonObject :: "('j, 'x) json_lib_scheme \<Rightarrow> 'j \<Rightarrow> FileType \<Rightarrow> bool" where
  "validateJsonObject J j fileType =
     (case fileType of
        GAME_SPEC \<Rightarrow> (if \<not> validateJsonContent_gameSpec J j then False else True)
      | SERVER_CONFIG \<Rightarrow> (if \<not> validateJsonContent_serverConfig J j then False else True))"

text \<open>
  \<open>safeParse\<close> catches \<open>parse_error\<close>, the only exception of the two parsers in the model; it would let the
  \<open>out_of_range\<close> of a number that is too large escape.
\<close>

definition safeParse :: "('j, 'x) json_lib_scheme \<Rightarrow> string \<Rightarrow> bool \<Rightarrow> 'j" where
  "safeParse J jsonSource isFile =
     (case (if isFile then j_parse_file J jsonSource else j_parse_string J jsonSource) of
        None \<Rightarrow> j_null J
      | Some j \<Rightarrow> j)"

definition parseJson :: "('j, 'x) json_lib_scheme \<Rightarrow> string \<Rightarrow> bool \<Rightarrow> FileType \<Rightarrow> 'j" where
  "parseJson J jsonSource isFile fileType =
     (let jsonObject = safeParse J jsonSource isFile
      in if j_is_null J jsonObject then j_null J
         else if \<not> validateJsonObject J jsonObject fileType then j_null J
         else jsonObject)"

definition parseJsonString_serverConfig :: "('j, 'x) json_lib_scheme \<Rightarrow> string \<Rightarrow> 'j" where
  "parseJsonString_serverConfig J jsonString = parseJson J jsonString False SERVER_CONFIG"

definition parseJsonFile_serverConfig :: "('j, 'x) json_lib_scheme \<Rightarrow> string \<Rightarrow> 'j" where
  "parseJsonFile_serverConfig J jsonFilepath = parseJson J jsonFilepath True SERVER_CONFIG"

definition parseJsonFile_gameSpec ::
    "('j, 'x) json_lib_scheme \<Rightarrow> nat \<Rightarrow> string \<Rightarrow> fault + GameData" where
  "parseJsonFile_gameSpec J n jsonFilepath =
     (let parseResult = parseJson J jsonFilepath True GAME_SPEC
      in if j_is_null J parseResult then Inr invalidGameData
         else
           bindR (parseVariables J (j_at J parseResult ''variables'')) (\<lambda>variableMap.
           bindR (parseVariables J (j_at J parseResult ''per-player'')) (\<lambda>perPlayerVariableMap.
           bindR (parseRules J n [] (j_at J parseResult ''rules'')) (\<lambda>(topLevelRules, _).
             if variableMap = [] \<or> topLevelRules = [] then Inr invalidGameData
             else Inr \<lparr>isValid = True, gd_variableMap = variableMap,
                       gd_perPlayerVariableMap = perPlayerVariableMap,
                       gd_topLevelRules = topLevelRules\<rparr>))))"

section \<open>Validation\<close>

lemma validate_root_iff:
  "validateJsonContent_rootLevelElements J j props \<longleftrightarrow>
     j_size J j = length props \<and>
     (\<forall>(k, t) \<in> set props. j_contains J j k \<and> j_type J (j_at J j k) = t)"
  by (auto simp: validateJsonContent_rootLevelElements_def list_ex_iff case_prod_beta)

lemma parseJson_cases:
  assumes "json_types J"
  obtains (invalid) "parseJson J src isFile ft = j_null J" "j_is_null J (parseJson J src isFile ft)"
  | (valid) j where "parseJson J src isFile ft = j" "\<not> j_is_null J j" "validateJsonObject J j ft"
      "(if isFile then j_parse_file J src else j_parse_string J src) = Some j"
proof (cases "if isFile then j_parse_file J src else j_parse_string J src")
  case None
  with assms show ?thesis by (intro invalid) (simp_all add: parseJson_def safeParse_def json_types_def)
next
  case (Some j)
  show ?thesis
  proof (cases "j_is_null J j \<or> \<not> validateJsonObject J j ft")
    case True
    with assms Some show ?thesis
      by (intro invalid) (auto simp: parseJson_def safeParse_def json_types_def)
  next
    case False
    with Some show ?thesis by (intro valid) (simp_all add: parseJson_def safeParse_def)
  qed
qed

lemma serverConfig_valid:
  assumes "json_types J" "\<not> j_is_null J (parseJsonFile_serverConfig J path)"
  shows "j_contains J (parseJsonFile_serverConfig J path) ''port''"
    "j_contains J (parseJsonFile_serverConfig J path) ''serverhtml''"
    "\<exists>p. j_get_ushort J (j_at J (parseJsonFile_serverConfig J path) ''port'') = Inr p"
    "\<exists>h. j_get_string J (j_at J (parseJsonFile_serverConfig J path) ''serverhtml'') = Inr h"
  using assms
  by (cases rule: parseJson_cases [OF assms(1), of path True SERVER_CONFIG];
      auto simp: parseJsonFile_serverConfig_def validateJsonObject_def
        validateJsonContent_serverConfig_def validate_root_iff SC_ROOT_ELEMS_def json_types_def
      split: if_splits)+

section \<open>Variables, functionally\<close>

lemma parseVariableItems_ok:
  assumes "\<forall>(k, v) \<in> set items. \<exists>i. j_get_int J v = Inr i"
  shows "\<exists>vm. parseVariableItems J m items = Inr vm \<and> (um_wf m \<longrightarrow> um_wf vm) \<and>
     map_of vm = map_of (map (\<lambda>(k, v). (k, projr (j_get_int J v))) items) ++ map_of m"
  using assms
proof (induction items arbitrary: m)
  case (Cons kv items)
  obtain k v i where kv: "kv = (k, v)" "j_get_int J v = Inr i" using Cons.prems by (cases kv) auto
  from Cons.prems obtain vm where vm: "parseVariableItems J (um_insert m k i) items = Inr vm"
    "um_wf (um_insert m k i) \<longrightarrow> um_wf vm"
    "map_of vm = map_of (map (\<lambda>(k, v). (k, projr (j_get_int J v))) items) ++ map_of (um_insert m k i)"
    using Cons.IH [of "um_insert m k i"] by auto
  have "map_of (map (\<lambda>(k, v). (k, projr (j_get_int J v))) items) ++ map_of (um_insert m k i) =
        (map_of (map (\<lambda>(k, v). (k, projr (j_get_int J v))) items))(k \<mapsto> i) ++ map_of m"
    by (auto simp: map_of_um_insert um_contains_iff map_add_def fun_eq_iff split: option.split)
  with vm kv show ?case by (simp add: um_wf_insert fun_upd_def)
qed simp

lemma parseVariableItems_bad:
  assumes "json_throws J" "\<exists>(k, v) \<in> set items. \<exists>e. j_get_int J v = Inl e"
  shows "parseVariableItems J m items = Inr []"
  using assms(2)
proof (induction items arbitrary: m)
  case (Cons kv items)
  obtain k v where kv: "kv = (k, v)" by fastforce
  show ?case
  proof (cases "j_get_int J v")
    case (Inl e)
    then have "is_exception e" using assms(1) by (auto simp: json_throws_def)
    with Inl kv show ?thesis by simp
  next
    case (Inr i)
    with Cons kv show ?thesis by auto
  qed
qed simp

lemma parseVariables_total:
  assumes "json_throws J"
  shows "\<exists>vm. parseVariables J j = Inr vm \<and> um_wf vm"
proof (cases "\<exists>(k, v) \<in> set (j_items J j). \<exists>e. j_get_int J v = Inl e")
  case True
  then show ?thesis using parseVariableItems_bad [OF assms True] by (simp add: parseVariables_def)
next
  case False
  then have "\<forall>(k, v) \<in> set (j_items J j). \<exists>i. j_get_int J v = Inr i"
    by (metis (mono_tags, lifting) case_prodI2 case_prod_conv sum.exhaust)
  from parseVariableItems_ok [OF this, of "[]"] show ?thesis by (auto simp: parseVariables_def)
qed

section \<open>Game specifications\<close>

lemma gameSpec_cases:
  assumes "parseJsonFile_gameSpec J n path = Inr gd"
  obtains (invalid) "gd = invalidGameData"
  | (valid) j vm pm rules al where "parseJson J path True GAME_SPEC = j" "\<not> j_is_null J j"
      "parseVariables J (j_at J j ''variables'') = Inr vm"
      "parseVariables J (j_at J j ''per-player'') = Inr pm"
      "parseRules J n [] (j_at J j ''rules'') = Inr (rules, al)" "vm \<noteq> []" "rules \<noteq> []"
      "gd = \<lparr>isValid = True, gd_variableMap = vm, gd_perPlayerVariableMap = pm, gd_topLevelRules = rules\<rparr>"
  using assms
  by (auto simp: parseJsonFile_gameSpec_def Let_def bindR_eq_Inr split: if_splits)

text \<open>What the rest of the program may rely on in game data marked valid.\<close>

definition game_data_ok :: "GameData \<Rightarrow> bool" where
  "game_data_ok gd \<longleftrightarrow>
     gd_variableMap gd \<noteq> [] \<and> gd_topLevelRules gd \<noteq> [] \<and> um_wf (gd_variableMap gd) \<and>
     um_wf (gd_perPlayerVariableMap gd) \<and> list_all parser_shape (gd_topLevelRules gd)"

lemma gameSpec_valid:
  assumes "parseJsonFile_gameSpec J n path = Inr gd" "isValid gd" "json_throws J"
  shows "game_data_ok gd"
  using assms(1)
proof (cases rule: gameSpec_cases)
  case invalid
  with assms(2) show ?thesis by (simp add: invalidGameData_def)
next
  case (valid j vm pm rules al)
  have "um_wf vm" "um_wf pm"
    using valid(3,4) parseVariables_total [OF assms(3)] by (metis sum.inject(2))+
  with valid parse_shape_aliases(1) [OF valid(5)] show ?thesis by (simp add: game_data_ok_def)
qed

lemma gameSpec_total:
  assumes "json_throws J" "json_nesting J depth"
    and "\<And>j. j_parse_file J path = Some j \<Longrightarrow> depth (j_at J j ''rules'') < n"
    and "json_types J"
  shows "\<exists>gd. parseJsonFile_gameSpec J n path = Inr gd"
  using assms(4)
proof (cases rule: parseJson_cases [where src = path and isFile = True and ft = GAME_SPEC])
  case invalid
  then show ?thesis by (simp add: parseJsonFile_gameSpec_def Let_def)
next
  case (valid j)
  then have "depth (j_at J j ''rules'') < n" using assms(3) by simp
  then obtain rules al where "parseRules J n [] (j_at J j ''rules'') = Inr (rules, al)"
    using parse_enough_fuel [OF assms(2,1)] parse_faults(1) [OF assms(1)]
    by (metis sum.exhaust surj_pair)
  then show ?thesis
    using valid parseVariables_total [OF assms(1), of "j_at J j ''variables''"]
      parseVariables_total [OF assms(1), of "j_at J j ''per-player''"]
    by (auto simp: parseJsonFile_gameSpec_def Let_def)
qed

section \<open>Properties\<close>

text \<open>The test game \<open>gameSpec_forEach_basic.json\<close> in outline, as a file of the concrete library.\<close>

definition basic_game :: jval where
  "basic_game =
     JObj [(''configuration'', JObj []), (''constants'', JObj []),
           (''variables'', JObj [(''debug_target'', JInt 0)]),
           (''per-player'', JObj [(''score'', JInt 0)]), (''per-audience'', JObj []),
           (''rules'', forEach_doc)]"

definition game_files :: "string \<rightharpoonup> jval" where
  "game_files = [''game.json'' \<mapsto> basic_game, ''bad.json'' \<mapsto> JObj [(''rules'', forEach_doc)]]"

lemma basic_game_accepted:
  "parseJson (jval_lib game_files) ''game.json'' True GAME_SPEC = basic_game"
proof -
  have "validateJsonContent_rootLevelElements (jval_lib game_files) basic_game GS_ROOT_ELEMS"
    by (simp add: validate_root_iff GS_ROOT_ELEMS_def basic_game_def forEach_doc_def)
  moreover have "game_files ''game.json'' = Some basic_game" by (simp add: game_files_def)
  ultimately show ?thesis
    by (simp add: parseJson_def safeParse_def validateJsonObject_def validateJsonContent_gameSpec_def)
       (simp add: basic_game_def)
qed

lemma basic_game_parsed:
  "parseJsonFile_gameSpec (jval_lib game_files) 2 ''game.json'' =
     Inr \<lparr>isValid = True, gd_variableMap = [(''debug_target'', 0)], gd_perPlayerVariableMap = [(''score'', 0)],
          gd_topLevelRules = [ForEachRule ''players'' ''player'' [AddRule ''players.$player.score'' 1]]\<rparr>"
proof -
  have rules: "parseRules (jval_lib game_files) 2 [] forEach_doc =
      Inr ([ForEachRule ''players'' ''player'' [AddRule ''players.$player.score'' 1]], [])"
  proof -
    have name: "processScopedVariables [(''player'', ''players.$player'')] ''player.score'' = ''players.$player.score''"
      by code_simp
    have maps: "um_insert [] ''player'' ''players.$player'' = [(''player'', ''players.$player'')]"
      "um_erase [(''player'', ''players.$player'')] ''player'' = []" by code_simp+
    show ?thesis
      by (simp add: forEach_doc_def numeral_2_eq_2 parseRule.simps parseForEachRule.simps parseAddRule_def
          maps name Let_def)
  qed
  have parts: "jval_at basic_game ''rules'' = forEach_doc"
    "jval_at basic_game ''variables'' = JObj [(''debug_target'', JInt 0)]"
    "jval_at basic_game ''per-player'' = JObj [(''score'', JInt 0)]" "\<not> jval_is_null basic_game"
    by (simp_all add: basic_game_def)
  have vars: "um_insert [] ''debug_target'' 0 = [(''debug_target'', 0 :: int32)]"
    "um_insert [] ''score'' 0 = [(''score'', 0 :: int32)]" by (simp_all add: um_insert_def um_contains_def)
  show ?thesis
    by (simp add: parseJsonFile_gameSpec_def basic_game_accepted parts parseVariables_def vars rules Let_def)
qed

definition root_properties :: "FileType \<Rightarrow> (string \<times> value_t) list" where
  "root_properties ft = (case ft of GAME_SPEC \<Rightarrow> GS_ROOT_ELEMS | SERVER_CONFIG \<Rightarrow> SC_ROOT_ELEMS)"

text \<open>
  C36. A document is accepted exactly when its source parses and its root has exactly the expected
  number of members, every expected member, and every one of them with the expected type; an
  accepted document is returned unchanged.
\<close>

theorem parseJson_accepts:
  assumes "json_types J" "\<not> j_is_null J j"
  shows "parseJson J src isFile ft = j \<longleftrightarrow>
    (if isFile then j_parse_file J src else j_parse_string J src) = Some j \<and>
    j_size J j = length (root_properties ft) \<and>
    list_all (\<lambda>(k, t). j_contains J j k \<and> j_type J (j_at J j k) = t) (root_properties ft)"
proof -
  have v: "validateJsonObject J j ft \<longleftrightarrow> j_size J j = length (root_properties ft) \<and>
      list_all (\<lambda>(k, t). j_contains J j k \<and> j_type J (j_at J j k) = t) (root_properties ft)"
    by (cases ft) (simp_all add: validateJsonObject_def validateJsonContent_gameSpec_def
        validateJsonContent_serverConfig_def validate_root_iff root_properties_def list_all_iff)
  from assms(1) show ?thesis
  proof (cases rule: parseJson_cases [where src = src and isFile = isFile and ft = ft])
    case invalid
    have "\<not> validateJsonObject J j ft"
      if "(if isFile then j_parse_file J src else j_parse_string J src) = Some j"
      using invalid that assms by (auto simp: parseJson_def safeParse_def split: if_splits)
    with invalid assms v show ?thesis by auto
  next
    case (valid k)
    with v show ?thesis by auto
  qed
qed

theorem parseJson_accepts_witness:
  "parseJson (jval_lib game_files) ''game.json'' True GAME_SPEC = basic_game \<and>
   list_all (\<lambda>(k, t). jval_contains basic_game k \<and> jval_type (jval_at basic_game k) = t) GS_ROOT_ELEMS"
proof -
  have "\<not> j_is_null (jval_lib game_files) basic_game" by (simp add: basic_game_def)
  from parseJson_accepts [OF jval_types this, of "''game.json''" True GAME_SPEC] basic_game_accepted
  show ?thesis by (simp add: root_properties_def)
qed

text \<open>
  The map of variables is all or nothing: if every value of the object converts to \<open>int\<close> the map
  binds every key to its value (a later member of the same name is ignored), and if one does not
  the map is empty.
\<close>

theorem parseVariables_all_or_nothing:
  assumes "json_throws J"
  shows "\<exists>vm. parseVariables J j = Inr vm \<and> um_wf vm \<and>
    (if j_type J j \<noteq> VObject \<or> list_ex (\<lambda>(k, v). isl (j_get_int J v)) (j_items J j)
     then vm = []
     else map_of vm = map_of (map (\<lambda>(k, v). (k, projr (j_get_int J v))) (j_items J j)))"
proof (cases "list_ex (\<lambda>(k, v). isl (j_get_int J v)) (j_items J j)")
  case True
  then have "\<exists>(k, v) \<in> set (j_items J j). \<exists>e. j_get_int J v = Inl e"
    by (fastforce simp: list_ex_iff isl_def)
  from parseVariableItems_bad [OF assms this] True show ?thesis by (simp add: parseVariables_def)
next
  case False
  have "\<not> isl r \<longleftrightarrow> (\<exists>i. r = Inr i)" for r :: "fault + int32" by (cases r) simp_all
  with False have "\<forall>(k, v) \<in> set (j_items J j). \<exists>i. j_get_int J v = Inr i"
    by (auto simp: list_ex_iff)
  from parseVariableItems_ok [OF this, of "[]"] False show ?thesis by (auto simp: parseVariables_def)
qed

theorem parseVariables_all_or_nothing_witness:
  "\<exists>vm. parseVariables (jval_lib Map.empty) (JObj [(''a'', JInt 1), (''b'', JStr ''x''), (''c'', JInt 2)]) = Inr vm \<and>
        vm = []"
proof -
  let ?j = "JObj [(''a'', JInt 1), (''b'', JStr ''x''), (''c'', JInt 2)]"
  have "list_ex (\<lambda>(k, v). isl (j_get_int (jval_lib Map.empty) v)) (j_items (jval_lib Map.empty) ?j)" by simp
  with parseVariables_all_or_nothing [OF jval_throws, of Map.empty ?j] show ?thesis by metis
qed

text \<open>
  Parsing a game specification always returns: a missing or malformed file, a root with missing
  or ill-typed members and unusable rules all give game data marked invalid, never an exception.
  Fuel above the nesting depth of the rules is enough.
\<close>

theorem gameSpec_returns:
  assumes "json_throws J" "json_types J" "json_nesting J depth"
    and "\<And>j. j_parse_file J path = Some j \<Longrightarrow> depth (j_at J j ''rules'') < n"
  shows "\<exists>gd. parseJsonFile_gameSpec J n path = Inr gd"
  using gameSpec_total [OF assms(1,3,4,2)] .

theorem gameSpec_returns_witness:
  "\<exists>gd. parseJsonFile_gameSpec (jval_lib game_files) 1000 ''game.json'' = Inr gd"
proof (rule gameSpec_returns [OF jval_throws jval_types jval_nesting])
  fix j assume "j_parse_file (jval_lib game_files) ''game.json'' = Some j"
  then have "j = basic_game" by (simp add: game_files_def)
  then show "size (j_at (jval_lib game_files) j ''rules'') < 1000"
    by (simp add: basic_game_def forEach_doc_def)
qed

text \<open>
  C37. Game data marked valid is usable: it has variables and rules, its maps have no duplicate key,
  its rules contain no loop at any depth and iterate over the players only.
\<close>

theorem gameSpec_valid_usable:
  assumes "parseJsonFile_gameSpec J n path = Inr gd" "isValid gd" "json_throws J"
  shows "gd_variableMap gd \<noteq> [] \<and> gd_topLevelRules gd \<noteq> [] \<and> um_wf (gd_variableMap gd) \<and>
    um_wf (gd_perPlayerVariableMap gd) \<and> list_all parser_shape (gd_topLevelRules gd)"
  using gameSpec_valid [OF assms] by (simp add: game_data_ok_def)

theorem gameSpec_valid_usable_witness:
  "\<exists>gd. parseJsonFile_gameSpec (jval_lib game_files) 2 ''game.json'' = Inr gd \<and>
        list_all parser_shape (gd_topLevelRules gd)"
  using gameSpec_valid_usable [OF basic_game_parsed _ jval_throws] basic_game_parsed by simp

end
