(* ===== verification/Server_Config.thy ===== *)
theory Server_Config
  imports Json_Parser
begin

text \<open>
  The server configuration (\<open>src/ServerConfig/ServerConfig.cpp\<close>) and the invite code that
  carries the port to the client (\<open>generateInviteCode\<close> and \<open>parseInviteCode\<close> of
  \<open>src/main.cpp\<close>). Whether a file can be opened is a parameter; the port is indeterminate until
  \<open>configure\<close> has set it, and a read of it before that is a fault.
\<close>

record ServerConfig =
  sc_configFilepath :: string
  sc_htmlFilepath :: string
  sc_port :: "ushort option"
  sc_valid :: bool

definition gameFilepaths :: "(string, string) umap" where
  "gameFilepaths = [(''Test'', ''../social-gaming/test/json/gameSpec_forEach_basic.json'')]"

definition configure :: "('j, 'x) json_lib_scheme \<Rightarrow> ServerConfig \<Rightarrow> 'j \<Rightarrow> fault + ServerConfig" where
  "configure J cfg config =
     bindR (j_get_ushort J (j_at J config ''port'')) (\<lambda>p.
     bindR (j_get_string J (j_at J config ''serverhtml'')) (\<lambda>h.
       Inr (cfg\<lparr>sc_port := Some p, sc_htmlFilepath := h, sc_valid := True\<rparr>)))"

definition mkServerConfig ::
    "('j, 'x) json_lib_scheme \<Rightarrow> (string \<Rightarrow> bool) \<Rightarrow> string \<Rightarrow> fault + ServerConfig" where
  "mkServerConfig J canOpen configFilepath =
     (let cfg0 = \<lparr>sc_configFilepath = [], sc_htmlFilepath = [], sc_port = None, sc_valid = False\<rparr>
      in if \<not> canOpen configFilepath then Inr cfg0
         else
           let cfg1 = cfg0\<lparr>sc_configFilepath := configFilepath\<rparr>;
               configData = parseJsonFile_serverConfig J configFilepath
           in if j_is_null J configData then Inr cfg1 else configure J cfg1 configData)"

definition setHtmlFilepath :: "(string \<Rightarrow> bool) \<Rightarrow> ServerConfig \<Rightarrow> string \<Rightarrow> ServerConfig" where
  "setHtmlFilepath canOpen cfg htmlFilepath =
     (if \<not> canOpen htmlFilepath then cfg\<lparr>sc_valid := False\<rparr>
      else cfg\<lparr>sc_htmlFilepath := htmlFilepath\<rparr>)"

definition getPort :: "ServerConfig \<Rightarrow> fault + ushort" where
  "getPort cfg = (case sc_port cfg of None \<Rightarrow> Inl Indeterminate | Some p \<Rightarrow> Inr p)"

definition getServerHtml :: "ServerConfig \<Rightarrow> string" where
  "getServerHtml cfg = sc_htmlFilepath cfg"

definition generateInviteCode :: "ServerConfig \<Rightarrow> fault + string" where
  "generateInviteCode cfg = bindR (getPort cfg) (\<lambda>p. Inr (rev (ushort_to_string p)))"

definition parseGamefile ::
    "('j, 'x) json_lib_scheme \<Rightarrow> nat \<Rightarrow> ServerConfig \<Rightarrow> string \<Rightarrow> fault + GameData \<times> ServerConfig" where
  "parseGamefile J n cfg gameName =
     (case map_of gameFilepaths gameName of
        None \<Rightarrow> Inr (invalidGameData, cfg\<lparr>sc_valid := False\<rparr>)
      | Some path \<Rightarrow> bindR (parseJsonFile_gameSpec J n path) (\<lambda>gd. Inr (gd, cfg)))"

text \<open>The client's side: the characters appended one by one from the back.\<close>

definition parseInviteCode :: "string \<Rightarrow> string" where
  "parseInviteCode inviteCode = foldl (\<lambda>parsed c. parsed @ [c]) [] (rev inviteCode)"

section \<open>Properties\<close>

definition config_ok :: "ServerConfig \<Rightarrow> bool" where
  "config_ok cfg \<longleftrightarrow> (sc_valid cfg \<longrightarrow> sc_port cfg \<noteq> None)"

lemma mkServerConfig_total:
  assumes "json_types J"
  shows "\<exists>cfg. mkServerConfig J canOpen path = Inr cfg \<and> config_ok cfg"
proof (cases "canOpen path \<and> \<not> j_is_null J (parseJsonFile_serverConfig J path)")
  case True
  with serverConfig_valid(3,4) [OF assms, of path] show ?thesis
    by (auto simp: mkServerConfig_def configure_def config_ok_def Let_def)
qed (auto simp: mkServerConfig_def config_ok_def Let_def)

lemma config_ok_setHtml [wf_intros]: "config_ok cfg \<Longrightarrow> config_ok (setHtmlFilepath canOpen cfg h)"
  by (simp add: setHtmlFilepath_def config_ok_def)

lemma config_ok_parseGamefile [wf_intros]:
  "config_ok cfg \<Longrightarrow> parseGamefile J n cfg g = Inr (gd, cfg') \<Longrightarrow> config_ok cfg'"
  by (auto simp: parseGamefile_def config_ok_def bindR_eq_Inr split: option.splits)

lemma valid_invite_code:
  "config_ok cfg \<Longrightarrow> sc_valid cfg \<Longrightarrow>
   \<exists>p. sc_port cfg = Some p \<and> getPort cfg = Inr p \<and> generateInviteCode cfg = Inr (rev (ushort_to_string p))"
  by (auto simp: config_ok_def getPort_def generateInviteCode_def)

lemma parseInviteCode_rev: "parseInviteCode s = rev s"
proof -
  have "foldl (\<lambda>parsed c. parsed @ [c]) acc xs = acc @ xs" for acc xs :: string
    by (induction xs arbitrary: acc) auto
  then show ?thesis by (simp add: parseInviteCode_def)
qed

lemma invite_code_roundtrip:
  "generateInviteCode cfg = Inr code \<Longrightarrow> sc_port cfg = Some p \<Longrightarrow>
   parseInviteCode code = ushort_to_string p \<and> stoul (parseInviteCode code) = Inr (ucast p)"
  by (auto simp: generateInviteCode_def getPort_def parseInviteCode_rev stoul_ushort bindR_eq_Inr)

lemma unknown_game_invalidates:
  "g \<noteq> ''Test'' \<Longrightarrow> parseGamefile J n cfg g = Inr (invalidGameData, cfg\<lparr>sc_valid := False\<rparr>)"
  by (simp add: parseGamefile_def gameFilepaths_def)

text \<open>
  Constructing the configuration throws nothing, and the object is valid exactly when the file
  can be opened and holds an accepted document; the port is set exactly when it is valid, so that
  no caller that checks \<open>isValid\<close> reads an indeterminate port.
\<close>

theorem serverConfig_constructed:
  assumes "json_types J"
  shows "\<exists>cfg. mkServerConfig J canOpen path = Inr cfg \<and>
    sc_valid cfg = (canOpen path \<and> \<not> j_is_null J (parseJsonFile_serverConfig J path)) \<and>
    (sc_port cfg \<noteq> None) = sc_valid cfg"
proof (cases "canOpen path \<and> \<not> j_is_null J (parseJsonFile_serverConfig J path)")
  case True
  with serverConfig_valid(3,4) [OF assms, of path] show ?thesis
    by (auto simp: mkServerConfig_def configure_def Let_def)
qed (auto simp: mkServerConfig_def Let_def)

text \<open>
  C38. The invite code a server prints is turned by a client into the port the server listens on:
  \<open>parseInviteCode\<close> gives the decimal text of the port, which reads back as the port.
\<close>

theorem invite_code_names_port:
  assumes "generateInviteCode cfg = Inr code"
  shows "\<exists>p. sc_port cfg = Some p \<and> parseInviteCode code = ushort_to_string p \<and>
             stoul (parseInviteCode code) = Inr (ucast p)"
  using assms invite_code_roundtrip [OF assms]
  by (auto simp: generateInviteCode_def getPort_def split: option.splits)

definition config_files :: "string \<rightharpoonup> jval" where
  "config_files = [''c.json'' \<mapsto> JObj [(''port'', JInt 8080), (''serverhtml'', JStr ''w.html'')]]"

lemma config_file_accepted:
  "parseJsonFile_serverConfig (jval_lib config_files) ''c.json'' =
     JObj [(''port'', JInt 8080), (''serverhtml'', JStr ''w.html'')]"
  by (simp add: parseJsonFile_serverConfig_def parseJson_def safeParse_def config_files_def
      validateJsonObject_def validateJsonContent_serverConfig_def validate_root_iff SC_ROOT_ELEMS_def)

theorem serverConfig_constructed_witness:
  "\<exists>cfg. mkServerConfig (jval_lib config_files) (\<lambda>_. True) ''c.json'' = Inr cfg \<and> sc_valid cfg"
  using serverConfig_constructed [OF jval_types, of config_files "\<lambda>_. True" "''c.json''"]
  by (auto simp: config_file_accepted)

theorem invite_code_names_port_witness:
  "\<exists>p. parseInviteCode ''0808'' = ushort_to_string p \<and> stoul (parseInviteCode ''0808'') = Inr (ucast p)"
proof -
  have "digit_char 0 = CHR ''0''" "digit_char 8 = CHR ''8''" by code_simp+
  then have "ushort_to_string 8080 = ''8080''"
    by (simp add: ushort_to_string_def nat_to_string.simps)
  then have "generateInviteCode \<lparr>sc_configFilepath = [], sc_htmlFilepath = [], sc_port = Some 8080, sc_valid = True\<rparr> =
      Inr ''0808''"
    by (simp add: generateInviteCode_def getPort_def)
  from invite_code_names_port [OF this] show ?thesis by blast
qed

end
