(* ===== verification/Net_Server.thy ===== *)
theory Net_Server
  imports Numbers Unordered_Map
begin

text \<open>
  The web socket server (\<open>lib/networking/src/Server.cpp\<close>): its map of channels, the queue of
  incoming messages, the write buffer of each channel, and the callbacks into the application.

  Boost's asynchronous operations are not modelled: a channel records which of its operations
  have been started and not completed, and a completion is an event with a result, delivered
  while \<open>update\<close> polls. Which events happen, and in which order, is not determined. A channel is
  an object on a heap and is identified by its address, which the code also uses as the
  connection's id. The application's state is a parameter, reached through its two handlers.
\<close>

section \<open>State\<close>

datatype connection = Connection (conn_id: uintptr)

record Message =
  msg_connection :: connection
  msg_text :: string

text \<open>
  \<open>ch_inFlight\<close> lists the buffers handed to \<open>async_write\<close> and not completed, \<open>ch_accepting\<close> and
  \<open>ch_reading\<close> an unfinished \<open>async_accept\<close> and \<open>async_read\<close>. The histories \<open>ch_sent\<close> and
  \<open>ch_written\<close> are not fields of the class: they record what was given to \<open>send\<close> and what has
  been written, for the statement of the ordering property.
\<close>

record Channel =
  ch_disconnected :: bool
  ch_writeBuffer :: "string list"
  ch_accepting :: bool
  ch_reading :: bool
  ch_inFlight :: "string list"
  ch_sent :: "string list"
  ch_written :: "string list"

record 'a ServerImpl =
  app :: 'a
  heap :: "uintptr \<Rightarrow> Channel option"
  channels :: "(connection, uintptr) umap"
  incoming :: "Message list"

record 'a ConnectionHandler =
  handleConnect :: "'a \<Rightarrow> connection \<Rightarrow> 'a"
  handleDisconnect :: "'a \<Rightarrow> connection \<Rightarrow> 'a"

definition mkChannel :: Channel where
  "mkChannel =
     \<lparr>ch_disconnected = False, ch_writeBuffer = [], ch_accepting = False, ch_reading = False,
      ch_inFlight = [], ch_sent = [], ch_written = []\<rparr>"

definition mkServer :: "'a \<Rightarrow> 'a ServerImpl" where
  "mkServer a = \<lparr>app = a, heap = Map.empty, channels = [], incoming = []\<rparr>"

definition at_channel :: "uintptr \<Rightarrow> (Channel \<Rightarrow> Channel) \<Rightarrow> 'a ServerImpl \<Rightarrow> 'a ServerImpl" where
  "at_channel p f s = s\<lparr>heap := (heap s)(p := map_option f (heap s p))\<rparr>"

section \<open>Channels\<close>

definition channel_send :: "string \<Rightarrow> Channel \<Rightarrow> Channel" where
  "channel_send outgoing ch =
     (if outgoing = [] then ch
      else
        let ch' = ch\<lparr>ch_writeBuffer := ch_writeBuffer ch @ [outgoing], ch_sent := ch_sent ch @ [outgoing]\<rparr>
        in if 1 < length (ch_writeBuffer ch') then ch'
           else ch'\<lparr>ch_inFlight := ch_inFlight ch' @ [hd (ch_writeBuffer ch')]\<rparr>)"

definition channel_disconnect :: "Channel \<Rightarrow> Channel" where
  "channel_disconnect ch = ch\<lparr>ch_disconnected := True\<rparr>"

text \<open>The successful branch of \<open>afterWrite\<close>: drop the message written, start the next.\<close>

definition channel_wrote :: "Channel \<Rightarrow> Channel" where
  "channel_wrote ch =
     (let ch' = ch\<lparr>ch_inFlight := tl (ch_inFlight ch),
                   ch_written := ch_written ch @ [hd (ch_inFlight ch)],
                   ch_writeBuffer := tl (ch_writeBuffer ch)\<rparr>
      in if ch_writeBuffer ch' \<noteq> [] then ch'\<lparr>ch_inFlight := ch_inFlight ch' @ [hd (ch_writeBuffer ch')]\<rparr>
         else ch')"

section \<open>The server\<close>

definition server_disconnect ::
    "'a ConnectionHandler \<Rightarrow> connection \<Rightarrow> 'a ServerImpl \<Rightarrow> 'a ServerImpl" where
  "server_disconnect H c s =
     (case map_of (channels s) c of
        None \<Rightarrow> s
      | Some p \<Rightarrow>
          let s1 = s\<lparr>app := handleDisconnect H (app s) c\<rparr>;
              s2 = at_channel p channel_disconnect s1
          in s2\<lparr>channels := um_erase (channels s2) c\<rparr>)"

definition registerChannel :: "'a ConnectionHandler \<Rightarrow> uintptr \<Rightarrow> 'a ServerImpl \<Rightarrow> 'a ServerImpl" where
  "registerChannel H p s =
     (let c = Connection p
      in s\<lparr>channels := um_insert (um_erase (channels s) c) c p, app := handleConnect H (app s) c\<rparr>)"

definition server_receive :: "'a ServerImpl \<Rightarrow> Message list \<times> 'a ServerImpl" where
  "server_receive s = (incoming s, s\<lparr>incoming := []\<rparr>)"

fun server_send :: "Message list \<Rightarrow> 'a ServerImpl \<Rightarrow> 'a ServerImpl" where
  "server_send [] s = s"
| "server_send (m # ms) s =
     server_send ms
       (case map_of (channels s) (msg_connection m) of
          None \<Rightarrow> s
        | Some p \<Rightarrow> at_channel p (channel_send (msg_text m)) s)"

section \<open>Completions\<close>

text \<open>
  \<open>Upgrade p\<close>: an HTTP request asked for a web socket and a channel was allocated at \<open>p\<close>;
  \<open>Accepted\<close>, \<open>Read\<close> and \<open>Wrote\<close> complete the channel's operations, with \<open>None\<close> or \<open>False\<close> for
  an error code; \<open>Released\<close> is the end of the last shared pointer to a channel.
\<close>

datatype net_event =
    Upgrade uintptr
  | Accepted uintptr bool
  | Read uintptr "string option"
  | Wrote uintptr bool
  | Released uintptr

definition is_disconnected :: "'a ServerImpl \<Rightarrow> uintptr \<Rightarrow> bool" where
  "is_disconnected s p = (case heap s p of None \<Rightarrow> False | Some ch \<Rightarrow> ch_disconnected ch)"

fun complete :: "'a ConnectionHandler \<Rightarrow> net_event \<Rightarrow> 'a ServerImpl \<Rightarrow> 'a ServerImpl" where
  "complete H (Upgrade p) s = s\<lparr>heap := (heap s)(p \<mapsto> mkChannel\<lparr>ch_accepting := True\<rparr>)\<rparr>"
| "complete H (Accepted p ok) s =
     (let s1 = at_channel p (\<lambda>ch. ch\<lparr>ch_accepting := False\<rparr>) s
      in if ok then at_channel p (\<lambda>ch. ch\<lparr>ch_reading := True\<rparr>) (registerChannel H p s1)
         else server_disconnect H (Connection p) s1)"
| "complete H (Read p r) s =
     (let s1 = at_channel p (\<lambda>ch. ch\<lparr>ch_reading := False\<rparr>) s
      in case r of
           Some text \<Rightarrow>
             at_channel p (\<lambda>ch. ch\<lparr>ch_reading := True\<rparr>)
               (s1\<lparr>incoming := incoming s1 @ [\<lparr>msg_connection = Connection p, msg_text = text\<rparr>]\<rparr>)
         | None \<Rightarrow> if \<not> is_disconnected s1 p then server_disconnect H (Connection p) s1 else s1)"
| "complete H (Wrote p ok) s =
     (if ok then at_channel p channel_wrote s
      else
        let s1 = at_channel p (\<lambda>ch. ch\<lparr>ch_inFlight := tl (ch_inFlight ch)\<rparr>) s
        in if \<not> is_disconnected s1 p then server_disconnect H (Connection p) s1 else s1)"
| "complete H (Released p) s = s\<lparr>heap := (heap s)(p := None)\<rparr>"

text \<open>
  An operation completes only after it was started; an address is reused only after its object
  is gone; an object goes when no operation and no entry of the map refers to it.
\<close>

fun enabled :: "'a ServerImpl \<Rightarrow> net_event \<Rightarrow> bool" where
  "enabled s (Upgrade p) = (heap s p = None)"
| "enabled s (Accepted p ok) = (case heap s p of Some ch \<Rightarrow> ch_accepting ch | None \<Rightarrow> False)"
| "enabled s (Read p r) = (case heap s p of Some ch \<Rightarrow> ch_reading ch | None \<Rightarrow> False)"
| "enabled s (Wrote p ok) = (case heap s p of Some ch \<Rightarrow> ch_inFlight ch \<noteq> [] | None \<Rightarrow> False)"
| "enabled s (Released p) =
     (case heap s p of
        Some ch \<Rightarrow> \<not> ch_accepting ch \<and> \<not> ch_reading ch \<and> ch_inFlight ch = [] \<and>
                   \<not> um_contains (channels s) (Connection p)
      | None \<Rightarrow> False)"

text \<open>\<open>poll\<close> runs the handlers of the completions that are ready.\<close>

fun server_update :: "'a ConnectionHandler \<Rightarrow> net_event list \<Rightarrow> 'a ServerImpl \<Rightarrow> 'a ServerImpl" where
  "server_update H [] s = s"
| "server_update H (e # es) s = server_update H es (complete H e s)"

fun enabled_all :: "'a ConnectionHandler \<Rightarrow> net_event list \<Rightarrow> 'a ServerImpl \<Rightarrow> bool" where
  "enabled_all H [] s = True"
| "enabled_all H (e # es) s = (enabled s e \<and> enabled_all H es (complete H e s))"

section \<open>Steps and reachable states\<close>

text \<open>Between its calls of the server the application may change its own state.\<close>

inductive net_step :: "'a ConnectionHandler \<Rightarrow> 'a ServerImpl \<Rightarrow> 'a ServerImpl \<Rightarrow> bool"
  for H :: "'a ConnectionHandler" where
  completion: "enabled s e \<Longrightarrow> net_step H s (complete H e s)"
| sending: "net_step H s (server_send ms s)"
| receiving: "net_step H s (snd (server_receive s))"
| disconnecting: "net_step H s (server_disconnect H c s)"
| application: "net_step H s (s\<lparr>app := b\<rparr>)"

inductive net_reachable :: "'a ConnectionHandler \<Rightarrow> 'a \<Rightarrow> 'a ServerImpl \<Rightarrow> bool"
  for H :: "'a ConnectionHandler" and a :: 'a where
  start: "net_reachable H a (mkServer a)"
| step: "net_reachable H a s \<Longrightarrow> net_step H s t \<Longrightarrow> net_reachable H a t"

section \<open>Invariant\<close>

text \<open>
  For one channel, given whether it is in the map: what was sent is what was written followed by
  the write buffer; at most one write is outstanding, for the front of the buffer, unless a write
  of a disconnected channel failed; a registered channel is connected and has a read outstanding.
\<close>

definition channel_inv :: "bool \<Rightarrow> Channel \<Rightarrow> bool" where
  "channel_inv registered ch \<longleftrightarrow>
     ch_sent ch = ch_written ch @ ch_writeBuffer ch \<and>
     (ch_inFlight ch = take 1 (ch_writeBuffer ch) \<or> ch_disconnected ch \<and> ch_inFlight ch = []) \<and>
     (registered \<longrightarrow> \<not> ch_disconnected ch \<and> \<not> ch_accepting ch \<and> ch_reading ch) \<and>
     (\<not> registered \<longrightarrow> ch_disconnected ch \<or> ch_writeBuffer ch = []) \<and>
     (ch_accepting ch \<longrightarrow> \<not> ch_disconnected ch)"

definition net_inv :: "'a ServerImpl \<Rightarrow> bool" where
  "net_inv s \<longleftrightarrow>
     um_wf (channels s) \<and>
     (\<forall>c p. map_of (channels s) c = Some p \<longrightarrow> p = conn_id c \<and> heap s p \<noteq> None) \<and>
     (\<forall>p ch. heap s p = Some ch \<longrightarrow> channel_inv (um_contains (channels s) (Connection p)) ch)"

lemma heap_at_channel [simp]:
  "heap (at_channel p f s) q = (if q = p then map_option f (heap s p) else heap s q)"
  by (simp add: at_channel_def)

lemma at_channel_frame [simp]:
  "channels (at_channel p f s) = channels s" "app (at_channel p f s) = app s"
  "incoming (at_channel p f s) = incoming s"
  by (simp_all add: at_channel_def)

lemma connection_eta: "p = conn_id c \<Longrightarrow> Connection p = c"
  by (cases c) simp

lemma net_inv_start: "net_inv (mkServer a)"
  by (simp add: net_inv_def mkServer_def)

lemma channel_inv_send: "channel_inv True ch \<Longrightarrow> channel_inv True (channel_send t ch)"
  by (cases "ch_writeBuffer ch") (auto simp: channel_inv_def channel_send_def Let_def)

lemma channel_inv_disconnect:
  "channel_inv True ch \<Longrightarrow> channel_inv False (channel_disconnect ch)"
  by (auto simp: channel_inv_def channel_disconnect_def)

lemma channel_inv_wrote: "channel_inv r ch \<Longrightarrow> ch_inFlight ch \<noteq> [] \<Longrightarrow> channel_inv r (channel_wrote ch)"
  by (cases "ch_writeBuffer ch"; cases "tl (ch_writeBuffer ch)")
     (auto simp: channel_inv_def channel_wrote_def Let_def)

text \<open>What \<open>disconnect\<close> needs of the channel is less than the invariant: it also repairs a channel
  whose read or write has just failed.\<close>

definition channel_repairable :: "bool \<Rightarrow> Channel \<Rightarrow> bool" where
  "channel_repairable registered ch \<longleftrightarrow>
     (if registered then channel_inv False (channel_disconnect ch) else channel_inv False ch)"

lemma channel_inv_repairable: "channel_inv r ch \<Longrightarrow> channel_repairable r ch"
  by (cases r) (simp_all add: channel_repairable_def channel_inv_disconnect)

lemma net_inv_disconnect_weak:
  assumes "um_wf (channels s)"
    and "\<And>c p. map_of (channels s) c = Some p \<Longrightarrow> p = conn_id c \<and> heap s p \<noteq> None"
    and "\<And>q ch. heap s q = Some ch \<Longrightarrow> q \<noteq> p \<Longrightarrow> channel_inv (um_contains (channels s) (Connection q)) ch"
    and "\<And>ch. heap s p = Some ch \<Longrightarrow> channel_repairable (um_contains (channels s) (Connection p)) ch"
  shows "net_inv (server_disconnect H (Connection p) s)"
proof (cases "map_of (channels s) (Connection p)")
  case None
  then show ?thesis
    using assms by (fastforce simp: net_inv_def server_disconnect_def um_contains_iff channel_repairable_def)
next
  case (Some q)
  then have "q = p" "heap s p \<noteq> None" using assms(2) by fastforce+
  with Some assms show ?thesis
    by (auto simp: net_inv_def server_disconnect_def Let_def um_contains_iff map_of_um_erase
        channel_repairable_def intro: um_wf_erase dest: connection_eta split: if_splits)
qed

lemma net_inv_disconnect [wf_intros]: "net_inv s \<Longrightarrow> net_inv (server_disconnect H c s)"
proof (cases c)
  case (Connection p)
  assume inv: "net_inv s"
  show ?thesis
    unfolding Connection
    by (rule net_inv_disconnect_weak)
       (use inv in \<open>auto simp: net_inv_def intro: channel_inv_repairable\<close>)
qed

lemma net_inv_at_channel:
  assumes "net_inv s"
    and "\<And>ch. heap s p = Some ch \<Longrightarrow> channel_inv (um_contains (channels s) (Connection p)) ch \<Longrightarrow>
           channel_inv (um_contains (channels s) (Connection p)) (f ch)"
  shows "net_inv (at_channel p f s)"
  using assms by (auto simp: net_inv_def split: if_splits)

lemma net_inv_send [wf_intros]: "net_inv s \<Longrightarrow> net_inv (server_send ms s)"
proof (induction ms arbitrary: s)
  case (Cons m ms)
  have "net_inv (at_channel p (channel_send (msg_text m)) s)"
    if "map_of (channels s) (msg_connection m) = Some p" for p
  proof (rule net_inv_at_channel [OF Cons.prems])
    fix ch
    have "Connection p = msg_connection m" using that Cons.prems by (auto simp: net_inv_def connection_eta)
    then show "channel_inv (um_contains (channels s) (Connection p)) ch \<Longrightarrow>
        channel_inv (um_contains (channels s) (Connection p)) (channel_send (msg_text m) ch)"
      using that by (simp add: um_contains_iff channel_inv_send)
  qed
  with Cons show ?case by (auto split: option.split)
qed simp

lemma net_inv_receive [wf_intros]: "net_inv s \<Longrightarrow> net_inv (snd (server_receive s))"
  by (simp add: net_inv_def server_receive_def)

lemma net_invD:
  assumes "net_inv s"
  shows "um_wf (channels s)" "map_of (channels s) c = Some p \<Longrightarrow> p = conn_id c \<and> heap s p \<noteq> None"
    "heap s p = Some ch \<Longrightarrow> channel_inv (um_contains (channels s) (Connection p)) ch"
  using assms by (auto simp: net_inv_def)

text \<open>A channel whose operation \<open>f\<close> has failed is disconnected, unless it already was.\<close>

lemma net_inv_failed:
  assumes inv: "net_inv s" and p: "heap s p = Some ch"
    and f: "channel_repairable (um_contains (channels s) (Connection p)) (f ch)"
    and d: "ch_disconnected (f ch) = ch_disconnected ch"
    and kept: "ch_disconnected ch \<Longrightarrow> channel_inv (um_contains (channels s) (Connection p)) (f ch)"
  shows "net_inv (if \<not> is_disconnected (at_channel p f s) p
                  then server_disconnect H (Connection p) (at_channel p f s) else at_channel p f s)"
proof (cases "ch_disconnected ch")
  case True
  then have "net_inv (at_channel p f s)"
    using net_inv_at_channel [OF inv, of p f] p kept by simp
  with True p d show ?thesis by (simp add: is_disconnected_def)
next
  case False
  have "net_inv (server_disconnect H (Connection p) (at_channel p f s))"
    by (rule net_inv_disconnect_weak) (use inv p f in \<open>auto simp: net_inv_def split: if_splits\<close>)
  with False p d show ?thesis by (simp add: is_disconnected_def)
qed

lemma net_inv_accepted:
  assumes inv: "net_inv s" and en: "enabled s (Accepted p ok)"
  shows "net_inv (complete H (Accepted p ok) s)"
proof -
  obtain ch where ch: "heap s p = Some ch" "ch_accepting ch" using en by (auto split: option.splits)
  note ci = net_invD(3) [OF inv ch(1)]
  have nr: "\<not> um_contains (channels s) (Connection p)" using ci ch by (auto simp: channel_inv_def)
  show ?thesis
  proof (cases ok)
    case True
    have "channel_inv True (ch\<lparr>ch_accepting := False, ch_reading := True\<rparr>)"
      using ci ch nr by (auto simp: channel_inv_def)
    moreover have "um_erase (channels s) (Connection p) = channels s"
      using nr by (rule um_erase_absent)
    ultimately show ?thesis
      using True inv ch nr
      by (auto simp: net_inv_def registerChannel_def Let_def um_wf_insert map_of_um_insert
          um_contains_insert split: if_splits)
  next
    case False
    have "channel_inv False (ch\<lparr>ch_accepting := False\<rparr>)" using ci ch nr by (auto simp: channel_inv_def)
    then have "net_inv (server_disconnect H (Connection p) (at_channel p (\<lambda>ch. ch\<lparr>ch_accepting := False\<rparr>) s))"
      using nr ch
      by (intro net_inv_disconnect_weak)
         (use inv in \<open>auto simp: net_inv_def channel_repairable_def split: if_splits\<close>)
    with False show ?thesis by simp
  qed
qed

lemma net_inv_app [simp]: "net_inv (s\<lparr>app := b\<rparr>) = net_inv s"
  by (simp add: net_inv_def)

lemma net_inv_incoming [simp]: "net_inv (s\<lparr>incoming := i\<rparr>) = net_inv s"
  by (simp add: net_inv_def)

lemma net_inv_read:
  assumes inv: "net_inv s" and en: "enabled s (Read p r)"
  shows "net_inv (complete H (Read p r) s)"
proof -
  obtain ch where ch: "heap s p = Some ch" "ch_reading ch" using en by (auto split: option.splits)
  note ci = net_invD(3) [OF inv ch(1)]
  let ?f = "\<lambda>ch. ch\<lparr>ch_reading := False\<rparr>"
  show ?thesis
  proof (cases r)
    case None
    have "channel_repairable (um_contains (channels s) (Connection p)) (?f ch)"
      using ci by (auto simp: channel_repairable_def channel_inv_def channel_disconnect_def)
    moreover have "ch_disconnected ch \<Longrightarrow> channel_inv (um_contains (channels s) (Connection p)) (?f ch)"
      using ci by (auto simp: channel_inv_def)
    ultimately show ?thesis
      using net_inv_failed [OF inv ch(1), of ?f H] None by (simp add: Let_def)
  next
    case (Some t)
    have "channel_inv (um_contains (channels s) (Connection p)) (ch\<lparr>ch_reading := True\<rparr>)"
      using ci by (auto simp: channel_inv_def)
    then show ?thesis using Some inv ch by (auto simp: net_inv_def Let_def split: if_splits)
  qed
qed

lemma net_inv_wrote:
  assumes inv: "net_inv s" and en: "enabled s (Wrote p ok)"
  shows "net_inv (complete H (Wrote p ok) s)"
proof -
  obtain ch where ch: "heap s p = Some ch" "ch_inFlight ch \<noteq> []" using en by (auto split: option.splits)
  note ci = net_invD(3) [OF inv ch(1)]
  let ?f = "\<lambda>ch. ch\<lparr>ch_inFlight := tl (ch_inFlight ch)\<rparr>"
  have front: "tl (ch_inFlight ch) = []" using ci ch(2) by (cases "ch_writeBuffer ch") (auto simp: channel_inv_def)
  show ?thesis
  proof (cases ok)
    case True
    then show ?thesis
      using net_inv_at_channel [OF inv, of p channel_wrote] channel_inv_wrote ch by auto
  next
    case False
    have "channel_repairable (um_contains (channels s) (Connection p)) (?f ch)"
      using ci ch(2) front by (auto simp: channel_repairable_def channel_inv_def channel_disconnect_def)
    moreover have "ch_disconnected ch \<Longrightarrow> channel_inv (um_contains (channels s) (Connection p)) (?f ch)"
      using ci front by (auto simp: channel_inv_def)
    ultimately show ?thesis
      using net_inv_failed [OF inv ch(1), of ?f H] False by (simp add: Let_def)
  qed
qed

lemma net_inv_complete [wf_intros]: "net_inv s \<Longrightarrow> enabled s e \<Longrightarrow> net_inv (complete H e s)"
proof (cases e)
  case (Upgrade p)
  assume "net_inv s" "enabled s e"
  moreover from this Upgrade have "\<not> um_contains (channels s) (Connection p)"
    by (fastforce simp: net_inv_def um_contains_iff)
  ultimately show ?thesis
    using Upgrade by (auto simp: net_inv_def mkChannel_def channel_inv_def)
next
  case (Released p)
  assume inv: "net_inv s" and "enabled s e"
  have "map_of (channels s) c \<noteq> Some p" for c
  proof
    assume "map_of (channels s) c = Some p"
    moreover from this have "Connection p = c" using net_invD(2) [OF inv] connection_eta by blast
    ultimately show False
      using \<open>enabled s e\<close> Released by (auto simp: um_contains_iff split: option.splits)
  qed
  with inv Released show ?thesis by (auto simp: net_inv_def)
qed (use net_inv_accepted net_inv_read net_inv_wrote in blast)+

lemma net_step_inv: "net_step H s t \<Longrightarrow> net_inv s \<Longrightarrow> net_inv t"
  by (induction rule: net_step.induct) (auto intro: wf_intros)

lemma net_reachable_inv: "net_reachable H a s \<Longrightarrow> net_inv s"
  by (induction rule: net_reachable.induct) (auto intro: net_inv_start net_step_inv)

section \<open>No empty text\<close>

text \<open>Nothing empty is ever sent, whatever the application gives to \<open>send\<close>.\<close>

definition no_empty :: "'a ServerImpl \<Rightarrow> bool" where
  "no_empty s \<longleftrightarrow> (\<forall>p ch. heap s p = Some ch \<longrightarrow> [] \<notin> set (ch_sent ch))"

lemma no_empty_at_channel:
  "no_empty s \<Longrightarrow> (\<And>ch. [] \<notin> set (ch_sent ch) \<Longrightarrow> [] \<notin> set (ch_sent (f ch))) \<Longrightarrow> no_empty (at_channel p f s)"
  by (auto simp: no_empty_def split: if_splits)

lemma no_empty_frame [simp]:
  "no_empty (s\<lparr>channels := m\<rparr>) = no_empty s" "no_empty (s\<lparr>app := a\<rparr>) = no_empty s"
  "no_empty (s\<lparr>incoming := i\<rparr>) = no_empty s"
  by (simp_all add: no_empty_def)

lemma no_empty_disconnect: "no_empty s \<Longrightarrow> no_empty (server_disconnect H c s)"
  by (auto simp: server_disconnect_def Let_def channel_disconnect_def intro!: no_empty_at_channel
      split: option.split)

lemma no_empty_send: "no_empty s \<Longrightarrow> no_empty (server_send ms s)"
proof (induction ms arbitrary: s)
  case (Cons m ms)
  have "no_empty (at_channel p (channel_send (msg_text m)) s)" for p
    by (rule no_empty_at_channel [OF Cons.prems]) (auto simp: channel_send_def Let_def)
  with Cons show ?case by (auto split: option.split)
qed simp

lemma ch_sent_wrote [simp]: "ch_sent (channel_wrote ch) = ch_sent ch"
  by (simp add: channel_wrote_def Let_def)

lemma no_empty_complete: "no_empty s \<Longrightarrow> no_empty (complete H e s)"
proof (cases e)
  case (Upgrade p)
  assume "no_empty s"
  with Upgrade show ?thesis by (simp add: no_empty_def mkChannel_def)
next
  case (Released p)
  assume "no_empty s"
  with Released show ?thesis by (simp add: no_empty_def)
qed (auto simp: Let_def registerChannel_def intro!: no_empty_at_channel no_empty_disconnect
      split: option.split)

lemma net_reachable_update:
  "net_reachable H a s \<Longrightarrow> enabled_all H es s \<Longrightarrow> net_reachable H a (server_update H es s)"
  by (induction es arbitrary: s) (auto intro: net_reachable.step net_step.completion)

lemma net_reachable_no_empty: "net_reachable H a s \<Longrightarrow> no_empty s"
proof (induction rule: net_reachable.induct)
  case start
  show ?case by (simp add: no_empty_def mkServer_def)
next
  case (step s t)
  from step(2) show ?case
    using step(3) by cases (auto simp: no_empty_complete no_empty_send no_empty_disconnect server_receive_def)
qed

section \<open>What operations leave alone, and what arrives\<close>

lemma app_server_send [simp]: "app (server_send ms s) = app s"
  by (induction ms arbitrary: s) (auto split: option.split)

lemma channels_server_send [simp]: "channels (server_send ms s) = channels s"
  by (induction ms arbitrary: s) (auto split: option.split)

text \<open>The messages that successful reads deliver, in the order of their completion.\<close>

fun reads :: "net_event list \<Rightarrow> Message list" where
  "reads [] = []"
| "reads (e # es) =
     (case e of
        Read p (Some t) \<Rightarrow> \<lparr>msg_connection = Connection p, msg_text = t\<rparr> # reads es
      | _ \<Rightarrow> reads es)"

lemma incoming_server_disconnect [simp]: "incoming (server_disconnect H c s) = incoming s"
  by (simp add: server_disconnect_def Let_def split: option.split)

lemma incoming_server_send [simp]: "incoming (server_send ms s) = incoming s"
  by (induction ms arbitrary: s) (auto split: option.split)

lemma incoming_server_update: "incoming (server_update H es s) = incoming s @ reads es"
proof (induction es arbitrary: s)
  case (Cons e es)
  then show ?case
    by (cases e) (auto simp: Let_def registerChannel_def split: option.split)
qed simp

lemma heap_server_send_notin:
  "Connection p \<notin> set (map msg_connection ms) \<Longrightarrow> net_inv s \<Longrightarrow> heap (server_send ms s) p = heap s p"
proof (induction ms arbitrary: s)
  case (Cons m ms)
  have "q \<noteq> p" if "map_of (channels s) (msg_connection m) = Some q" for q
    using that Cons.prems net_invD(2) [OF Cons.prems(2) that] by (cases "msg_connection m") auto
  moreover have "net_inv (case map_of (channels s) (msg_connection m) of None \<Rightarrow> s
      | Some q \<Rightarrow> at_channel q (channel_send (msg_text m)) s)"
    using net_inv_send [OF Cons.prems(2), of "[m]"] by simp
  ultimately show ?case using Cons by (auto split: option.splits)
qed simp

lemma server_send_broadcast:
  assumes "net_inv s" "distinct cs" "set cs \<subseteq> dom (map_of (channels s))"
  shows "heap (server_send (map (\<lambda>c. \<lparr>msg_connection = c, msg_text = log\<rparr>) cs) s) p =
    (if Connection p \<in> set cs then map_option (channel_send log) (heap s p) else heap s p)"
  using assms
proof (induction cs arbitrary: s)
  case (Cons c cs)
  obtain q where q: "map_of (channels s) c = Some q" "c = Connection q"
    using Cons.prems net_invD(2) [OF Cons.prems(1)] by (metis connection_eta domD insert_subset list.simps(15))
  let ?s = "at_channel q (channel_send log) s"
  have "net_inv ?s" using net_inv_send [OF Cons.prems(1), of "[\<lparr>msg_connection = c, msg_text = log\<rparr>]"] q by simp
  from Cons.IH [OF this] Cons.prems q show ?case by auto
qed simp

section \<open>Applications that track their clients\<close>

text \<open>
  The contract between the server and an application: the application keeps a list of clients,
  its connect handler appends to it and its disconnect handler removes. Under this contract the
  list is at every moment exactly the set of registered channels, without repetition.
\<close>

locale connection_tracker =
  fixes H :: "'a ConnectionHandler" and clients_of :: "'a \<Rightarrow> connection list"
  assumes connect_clients: "clients_of (handleConnect H a c) = clients_of a @ [c]"
    and disconnect_clients: "clients_of (handleDisconnect H a c) = filter (\<lambda>d. d \<noteq> c) (clients_of a)"
begin

definition tracked :: "'a ServerImpl \<Rightarrow> bool" where
  "tracked s \<longleftrightarrow> distinct (clients_of (app s)) \<and> set (clients_of (app s)) = dom (map_of (channels s))"

lemma tracked_start: "clients_of a = [] \<Longrightarrow> tracked (mkServer a)"
  by (simp add: tracked_def mkServer_def)

lemma tracked_disconnect: "tracked s \<Longrightarrow> tracked (server_disconnect H c s)"
  by (auto simp: tracked_def server_disconnect_def Let_def disconnect_clients map_of_um_erase
      split: option.split)

lemma tracked_at_channel [simp]: "tracked (at_channel p f s) = tracked s"
  by (simp add: tracked_def)

lemma tracked_send: "tracked (server_send ms s) = tracked s"
  by (induction ms arbitrary: s) (auto split: option.split)

lemma tracked_incoming [simp]: "tracked (s\<lparr>incoming := i\<rparr>) = tracked s"
  by (simp add: tracked_def)

lemma tracked_heap [simp]: "tracked (s\<lparr>heap := h\<rparr>) = tracked s"
  by (simp add: tracked_def)

lemma tracked_register:
  assumes "tracked s" "\<not> um_contains (channels s) (Connection p)"
  shows "tracked (registerChannel H p s)"
proof -
  have "Connection p \<notin> set (clients_of (app s))"
    using assms by (auto simp: tracked_def um_contains_iff)
  then show ?thesis
    using assms by (simp add: tracked_def registerChannel_def Let_def connect_clients map_of_overwrite)
qed

lemma tracked_complete:
  assumes "net_inv s" "enabled s e" "tracked s"
  shows "tracked (complete H e s)"
proof (cases e)
  case (Accepted p ok)
  then obtain ch where ch: "heap s p = Some ch" "ch_accepting ch" using assms(2) by (auto split: option.splits)
  then have "\<not> um_contains (channels s) (Connection p)"
    using net_invD(3) [OF assms(1) ch(1)] by (auto simp: channel_inv_def)
  then show ?thesis using Accepted assms(3) by (simp add: Let_def tracked_disconnect tracked_register)
qed (use assms(3) in \<open>auto simp: Let_def tracked_disconnect split: option.split\<close>)

lemma tracked_app: "clients_of b = clients_of (app s) \<Longrightarrow> tracked (s\<lparr>app := b\<rparr>) = tracked s"
  by (simp add: tracked_def)

end

text \<open>An application that answers all its clients with one text.\<close>

locale broadcaster = connection_tracker H clients_of
  for H :: "'a ConnectionHandler" and clients_of :: "'a \<Rightarrow> connection list" +
  fixes outgoing :: "string \<Rightarrow> 'a \<Rightarrow> Message list"
  assumes outgoing_clients:
    "outgoing log a = map (\<lambda>c. \<lparr>msg_connection = c, msg_text = log\<rparr>) (clients_of a)"
begin

lemma broadcast:
  assumes "net_inv s" "tracked s"
  shows "heap (server_send (outgoing log (app s)) s) p =
    (if um_contains (channels s) (Connection p) then map_option (channel_send log) (heap s p)
     else heap s p)"
  using assms server_send_broadcast [of s "clients_of (app s)" log p]
  by (auto simp: tracked_def outgoing_clients um_contains_iff)

end

section \<open>Properties\<close>

text \<open>A server whose application does nothing, with one channel that was sent two messages.\<close>

definition silent_handlers :: "unit ConnectionHandler" where
  "silent_handlers = \<lparr>handleConnect = (\<lambda>a c. a), handleDisconnect = (\<lambda>a c. a)\<rparr>"

definition two_sent :: "unit ServerImpl" where
  "two_sent =
     server_send [\<lparr>msg_connection = Connection 5, msg_text = ''a''\<rparr>, \<lparr>msg_connection = Connection 5, msg_text = ''b''\<rparr>]
       (server_update silent_handlers [Upgrade 5, Accepted 5 True] (mkServer ()))"

lemma two_sent_reachable: "net_reachable silent_handlers () two_sent"
proof -
  let ?s0 = "mkServer () :: unit ServerImpl"
  let ?s1 = "complete silent_handlers (Upgrade 5) ?s0"
  have "enabled ?s0 (Upgrade 5)" "enabled ?s1 (Accepted 5 True)"
    by (simp_all add: mkServer_def mkChannel_def)
  then have "net_reachable silent_handlers () (complete silent_handlers (Accepted 5 True) ?s1)"
    using net_reachable.start net_reachable.step net_step.completion by metis
  then show ?thesis
    unfolding two_sent_def server_update.simps by (rule net_reachable.step) (rule net_step.sending)
qed

lemma two_sent_channel:
  "channels two_sent = [(Connection 5, 5)]"
  "\<exists>ch. heap two_sent 5 = Some ch \<and> ch_sent ch = [''a'', ''b''] \<and> ch_inFlight ch = [''a'']"
  by (simp_all add: two_sent_def mkServer_def mkChannel_def registerChannel_def Let_def um_insert_def
      um_erase_def um_contains_def channel_send_def at_channel_def)

text \<open>
  C9. In every reachable state of the server, for every channel: the messages given to \<open>send\<close> are the
  ones written followed by the ones waiting, in that order, so that none is lost, repeated or
  reordered; and at most one asynchronous write is outstanding, for the first that waits, as
  Boost's streams require.
\<close>

theorem channel_writes_in_order:
  assumes "net_reachable H a s" "heap s p = Some ch"
  shows "ch_sent ch = ch_written ch @ ch_writeBuffer ch \<and> length (ch_inFlight ch) \<le> 1 \<and>
    (ch_inFlight ch = take 1 (ch_writeBuffer ch) \<or> ch_disconnected ch)"
  using net_invD(3) [OF net_reachable_inv [OF assms(1)] assms(2)] by (auto simp: channel_inv_def)

theorem channel_writes_in_order_witness:
  "\<exists>ch. heap two_sent 5 = Some ch \<and> [''a'', ''b''] = ch_written ch @ ch_writeBuffer ch \<and>
        length (ch_inFlight ch) \<le> 1"
proof -
  obtain ch where "heap two_sent 5 = Some ch" "ch_sent ch = [''a'', ''b'']" using two_sent_channel(2) by blast
  with channel_writes_in_order [OF two_sent_reachable this(1)] show ?thesis by simp
qed

text \<open>
  No entry of the server's map dangles: a registered connection is the address of a live channel
  that is connected and has a read outstanding, and each connection is registered once.
\<close>

theorem registered_channels_live:
  assumes "net_reachable H a s" "map_of (channels s) c = Some p"
  shows "p = conn_id c \<and> distinct (map fst (channels s)) \<and>
    (\<exists>ch. heap s p = Some ch \<and> \<not> ch_disconnected ch \<and> \<not> ch_accepting ch \<and> ch_reading ch)"
proof -
  note inv = net_reachable_inv [OF assms(1)]
  obtain ch where ch: "p = conn_id c" "heap s p = Some ch" using net_invD(2) [OF inv assms(2)] by blast
  moreover have "um_contains (channels s) (Connection p)"
    using assms(2) ch(1) by (simp add: um_contains_iff)
  ultimately show ?thesis
    using net_invD(1,3) [OF inv] by (fastforce simp: channel_inv_def um_wf_def)
qed

theorem registered_channels_live_witness:
  "\<exists>ch. map_of (channels two_sent) (Connection 5) = Some 5 \<and> heap two_sent 5 = Some ch \<and> \<not> ch_disconnected ch"
  using registered_channels_live [OF two_sent_reachable, of "Connection 5" 5] two_sent_channel(1) by auto

end
