(* ===== verification/Game_Server.thy ===== *)
theory Game_Server
  imports Server_Config Net_Server
begin

text \<open>
  The game server (\<open>src/GameServer/GameServer.cpp\<close>, \<open>src/User\<close>): the connected clients and their
  users, the chat commands, the execution of the loaded game, and the main loop that polls the
  network, answers the messages received and broadcasts the log. The network server's callbacks
  act on this state, so the state of the whole is a \<open>ServerImpl\<close> with a \<open>GameServer\<close> inside.
\<close>

section \<open>State\<close>

record User =
  nickname :: string
  userConnection :: connection

definition mkUser :: "connection \<Rightarrow> User" where
  "mkUser c = \<lparr>nickname = to_string (conn_id c), userConnection = c\<rparr>"

text \<open>\<open>operator==\<close> of \<open>User\<close> compares the ids of the connections.\<close>

definition user_eq :: "User \<Rightarrow> User \<Rightarrow> bool" where
  "user_eq u v \<longleftrightarrow> conn_id (userConnection u) = conn_id (userConnection v)"

text \<open>\<open>gs_log\<close> collects what a game logs with severity INFO; it is the log file, not a field.\<close>

record GameServer =
  gs_port :: "ushort option"
  gs_serverHtml :: string
  gs_inviteCode :: string
  gs_gameData :: GameData
  clients :: "connection list"
  users :: "User list"
  gs_log :: "string list"

record MessageResult =
  mr_result :: string
  shouldShutdown :: bool

definition mkGameServer :: GameServer where
  "mkGameServer =
     \<lparr>gs_port = None, gs_serverHtml = [], gs_inviteCode = [], gs_gameData = invalidGameData,
      clients = [], users = [], gs_log = []\<rparr>"

text \<open>\<open>setupConfig\<close> with the name read from the terminal; \<open>None\<close> is \<open>std::exit(1)\<close>.\<close>

definition setupConfig ::
    "('j, 'x) json_lib_scheme \<Rightarrow> (string \<Rightarrow> bool) \<Rightarrow> nat \<Rightarrow> string \<Rightarrow> GameServer \<Rightarrow>
     fault + GameServer option" where
  "setupConfig J canOpen n gameName g =
     bindR (mkServerConfig J canOpen ''../social-gaming/data/serverconfig.json'') (\<lambda>config0.
     bindR (parseGamefile J n config0 gameName) (\<lambda>(gd, config).
       if \<not> sc_valid config then Inr None
       else
         bindR (getPort config) (\<lambda>p.
         bindR (generateInviteCode config) (\<lambda>code.
           Inr (Some (g\<lparr>gs_port := Some p, gs_serverHtml := getServerHtml config,
                        gs_inviteCode := code, gs_gameData := gd\<rparr>))))))"

section \<open>Clients and users\<close>

definition removeDisconnectedUser :: "connection \<Rightarrow> User list \<Rightarrow> User list" where
  "removeDisconnectedUser c us =
     (case find (\<lambda>u. userConnection u = c) us of
        None \<Rightarrow> us
      | Some user \<Rightarrow> filter (\<lambda>u. \<not> user_eq u user) us)"

definition onConnect :: "GameServer \<Rightarrow> connection \<Rightarrow> GameServer" where
  "onConnect g c = g\<lparr>clients := clients g @ [c], users := users g @ [mkUser c]\<rparr>"

definition onDisconnect :: "GameServer \<Rightarrow> connection \<Rightarrow> GameServer" where
  "onDisconnect g c =
     g\<lparr>clients := filter (\<lambda>d. d \<noteq> c) (clients g), users := removeDisconnectedUser c (users g)\<rparr>"

definition game_handlers :: "GameServer ConnectionHandler" where
  "game_handlers = \<lparr>handleConnect = onConnect, handleDisconnect = onDisconnect\<rparr>"

fun changeUserNickname :: "uintptr \<Rightarrow> string \<Rightarrow> User list \<Rightarrow> User list" where
  "changeUserNickname i nick [] = []"
| "changeUserNickname i nick (u # us) =
     (if conn_id (userConnection u) = i then u\<lparr>nickname := nick\<rparr> # us
      else u # changeUserNickname i nick us)"

fun getUserNickname :: "uintptr \<Rightarrow> User list \<Rightarrow> string" where
  "getUserNickname i [] = []"
| "getUserNickname i (u # us) =
     (if conn_id (userConnection u) = i then nickname u else getUserNickname i us)"

definition buildOutgoing :: "string \<Rightarrow> GameServer \<Rightarrow> Message list" where
  "buildOutgoing log g = map (\<lambda>c. \<lparr>msg_connection = c, msg_text = log\<rparr>) (clients g)"

section \<open>Executing the loaded game\<close>

definition nl :: string where "nl = [CHR 0x0A]"
definition tab :: string where "tab = [CHR 0x09]"

definition debug_line :: "string \<Rightarrow> GetVariableResult \<Rightarrow> string" where
  "debug_line when r =
     tab @ ''debug_target variable '' @ when @ '' executing rules: '' @ int_to_string (result_value r) @ nl"

text \<open>
  The loop over the top-level rules stops at the first that fails, as the rule loops inside
  \<open>executeRules\<close> do; unlike there the failure has no further effect.
\<close>

definition executeGame ::
    "(string list \<Rightarrow> string list) \<Rightarrow> nat \<Rightarrow> GameServer \<Rightarrow> fault + string \<times> GameServer" where
  "executeGame ord n g =
     (let playerIDs = map (\<lambda>u. conn_id (userConnection u)) (users g);
          gameState = mkGameState (gd_variableMap (gs_gameData g)) playerIDs
                        (gd_perPlayerVariableMap (gs_gameData g))
      in bindR (getValue gameState ''debug_target'') (\<lambda>before.
         bindR (executeRules ord n (gd_topLevelRules (gs_gameData g))
                  \<lparr>game = gameState, messages = gs_log g\<rparr>) (\<lambda>(_, st).
         bindR (getValue (game st) ''debug_target'') (\<lambda>after.
           Inr (''Found cmd: execute (Execute game)'' @ nl @
                tab @ ''Executing loaded game'' @ nl @
                debug_line ''BEFORE'' before @
                debug_line ''AFTER'' after @
                tab @ ''Game finished executing.'' @ nl,
                g\<lparr>gs_log := messages st\<rparr>)))))"

section \<open>Messages\<close>

type_synonym process_state = "GameServer ServerImpl \<times> string \<times> bool"

text \<open>One iteration of the loop of \<open>processMessages\<close>: the network with the server, the text so far, the flag.\<close>

definition processMessage ::
    "(string list \<Rightarrow> string list) \<Rightarrow> nat \<Rightarrow> Message \<Rightarrow> process_state \<Rightarrow> fault + process_state" where
  "processMessage ord n m = (\<lambda>(s, out, quit).
     let g = app s;
         i = conn_id (msg_connection m);
         t = msg_text m;
         displayName = getUserNickname i (users g)
     in if t = ''quit'' then Inr (server_disconnect game_handlers (msg_connection m) s, out, quit)
        else if t = ''shutdown'' then Inr (s, out, True)
        else case t of
          [] \<Rightarrow> Inl OutOfRange
        | c # _ \<Rightarrow>
          if c = CHR ''/'' then
            bindR (substr t 1 (str_find_char t CHR '' '' - 1)) (\<lambda>command.
              if command = ''nickname'' then
                bindR (substr t (str_find_char t CHR '' '' + 1) npos) (\<lambda>nick.
                  Inr (s\<lparr>app := g\<lparr>users := changeUserNickname i nick (users g)\<rparr>\<rparr>,
                       out @ displayName @ '' has changed their name to: '' @ nick @ ''.'' @ nl, quit))
              else if command = ''execute'' then
                (if \<not> isValid (gs_gameData g) then
                   Inr (s, out @ tab @ ''Cannot execute game - not yet loaded'' @ nl, quit)
                 else bindR (executeGame ord n g) (\<lambda>(text, g').
                   Inr (s\<lparr>app := g'\<rparr>, out @ text, quit)))
              else Inr (s, out @ displayName @ ''> command not found.'' @ nl, quit))
          else Inr (s, out @ displayName @ ''> '' @ t @ nl, quit))"

fun processLoop ::
    "(string list \<Rightarrow> string list) \<Rightarrow> nat \<Rightarrow> Message list \<Rightarrow> process_state \<Rightarrow> fault + process_state" where
  "processLoop ord n [] st = Inr st"
| "processLoop ord n (m # ms) st = bindR (processMessage ord n m st) (processLoop ord n ms)"

definition processMessages ::
    "(string list \<Rightarrow> string list) \<Rightarrow> nat \<Rightarrow> Message list \<Rightarrow> GameServer ServerImpl \<Rightarrow>
     fault + MessageResult \<times> GameServer ServerImpl" where
  "processMessages ord n ms s =
     bindR (processLoop ord n ms (s, [], False)) (\<lambda>(s', out, quit).
       Inr (\<lparr>mr_result = out, shouldShutdown = quit\<rparr>, s'))"

section \<open>The main loop\<close>

text \<open>
  One iteration of \<open>run\<close>: the completions the poll handles, whether it threw, and then the
  messages. The result tells whether the loop ends. An exception of \<open>processMessages\<close> leaves
  \<open>run\<close>, which does not catch it.
\<close>

definition runIteration ::
    "(string list \<Rightarrow> string list) \<Rightarrow> nat \<Rightarrow> net_event list \<Rightarrow> bool \<Rightarrow> GameServer ServerImpl \<Rightarrow>
     fault + bool \<times> GameServer ServerImpl" where
  "runIteration ord n events errorWhileUpdating s =
     (let s1 = server_update game_handlers events s;
          (inc, s2) = server_receive s1
      in bindR (processMessages ord n inc s2) (\<lambda>(mr, s3).
           let s4 = server_send (buildOutgoing (mr_result mr) (app s3)) s3
           in Inr (shouldShutdown mr \<or> errorWhileUpdating, s4)))"

text \<open>The loop over what the successive polls deliver; it ends early on a shutdown or an error.\<close>

fun run ::
    "(string list \<Rightarrow> string list) \<Rightarrow> nat \<Rightarrow> (net_event list \<times> bool) list \<Rightarrow> GameServer ServerImpl \<Rightarrow>
     fault + bool \<times> GameServer ServerImpl" where
  "run ord n [] s = Inr (False, s)"
| "run ord n ((events, err) # polls) s =
     bindR (runIteration ord n events err s) (\<lambda>(stop, s').
       if stop then Inr (True, s') else run ord n polls s')"

section \<open>Users and clients\<close>

text \<open>The two lists stay in step: one user per client, in the order of connection.\<close>

definition users_match :: "GameServer \<Rightarrow> bool" where
  "users_match g \<longleftrightarrow> clients g = map userConnection (users g)"

lemma conn_id_eq [simp]: "conn_id c = conn_id d \<longleftrightarrow> c = d"
  by (cases c; cases d) simp

lemma removeDisconnectedUser_filter:
  "removeDisconnectedUser c us = filter (\<lambda>u. userConnection u \<noteq> c) us"
proof (cases "find (\<lambda>u. userConnection u = c) us")
  case None
  then have "\<forall>u \<in> set us. userConnection u \<noteq> c" by (auto simp: find_None_iff)
  moreover have "removeDisconnectedUser c us = us" unfolding removeDisconnectedUser_def None by simp
  ultimately show ?thesis by (simp add: filter_id_conv)
next
  case (Some u)
  then have "userConnection u = c" by (auto simp: find_Some_iff)
  with Some show ?thesis by (simp add: removeDisconnectedUser_def user_eq_def)
qed

lemma changeUserNickname_connections [simp]:
  "map userConnection (changeUserNickname i nick us) = map userConnection us"
  by (induction us) auto

lemma users_match_start [simp]: "users_match mkGameServer"
  by (simp add: users_match_def mkGameServer_def)

lemma users_match_connect [wf_intros]: "users_match g \<Longrightarrow> users_match (onConnect g c)"
  by (simp add: users_match_def onConnect_def mkUser_def)

lemma users_match_disconnect [wf_intros]: "users_match g \<Longrightarrow> users_match (onDisconnect g c)"
  by (simp add: users_match_def onDisconnect_def removeDisconnectedUser_filter filter_map comp_def)

lemma getUserNickname_change:
  "i \<in> conn_id ` userConnection ` set us \<Longrightarrow> getUserNickname i (changeUserNickname i nick us) = nick"
  by (induction us) auto

lemma getUserNickname_change_other:
  "j \<noteq> i \<Longrightarrow> getUserNickname j (changeUserNickname i nick us) = getUserNickname j us"
  by (induction us) auto

lemma getUserNickname_unknown: "i \<notin> conn_id ` userConnection ` set us \<Longrightarrow> getUserNickname i us = []"
  by (induction us) auto

lemma changeUserNickname_unknown:
  "i \<notin> conn_id ` userConnection ` set us \<Longrightarrow> changeUserNickname i nick us = us"
  by (induction us) auto

interpretation game_clients: broadcaster game_handlers clients buildOutgoing
  by unfold_locales (simp_all add: game_handlers_def onConnect_def onDisconnect_def buildOutgoing_def)

lemma users_match_server_disconnect [wf_intros]:
  "users_match (app s) \<Longrightarrow> users_match (app (server_disconnect game_handlers c s))"
  by (auto simp: server_disconnect_def game_handlers_def Let_def intro: wf_intros split: option.split)

lemma users_match_complete [wf_intros]:
  "users_match (app s) \<Longrightarrow> users_match (app (complete game_handlers e s))"
proof (cases e)
  case (Accepted p ok)
  assume "users_match (app s)"
  with Accepted show ?thesis
    by (simp add: Let_def registerChannel_def users_match_server_disconnect)
       (simp add: game_handlers_def users_match_connect)
qed (auto simp: Let_def intro: wf_intros split: option.split)

text \<open>The invariant of the running server.\<close>

definition server_inv :: "GameServer ServerImpl \<Rightarrow> bool" where
  "server_inv s \<longleftrightarrow>
     net_inv s \<and> distinct (clients (app s)) \<and> set (clients (app s)) = dom (map_of (channels s)) \<and>
     users_match (app s)"

lemma server_inv_tracked:
  "server_inv s \<longleftrightarrow> net_inv s \<and> game_clients.tracked s \<and> users_match (app s)"
  by (auto simp: server_inv_def game_clients.tracked_def)

lemma server_inv_start: "server_inv (mkServer mkGameServer)"
  by (simp add: server_inv_def net_inv_start) (simp add: mkServer_def mkGameServer_def users_match_def)

lemma server_inv_complete [wf_intros]:
  "server_inv s \<Longrightarrow> enabled s e \<Longrightarrow> server_inv (complete game_handlers e s)"
  by (simp add: server_inv_tracked net_inv_complete game_clients.tracked_complete users_match_complete)

lemma server_inv_update:
  "server_inv s \<Longrightarrow> enabled_all game_handlers es s \<Longrightarrow> server_inv (server_update game_handlers es s)"
  by (induction es arbitrary: s) (auto intro: wf_intros)

lemma server_inv_disconnect [wf_intros]:
  "server_inv s \<Longrightarrow> server_inv (server_disconnect game_handlers c s)"
  by (simp add: server_inv_tracked net_inv_disconnect game_clients.tracked_disconnect
      users_match_server_disconnect)

lemma server_inv_send [wf_intros]: "server_inv s \<Longrightarrow> server_inv (server_send ms s)"
  by (simp add: server_inv_def net_inv_send)

lemma server_inv_receive [wf_intros]: "server_inv s \<Longrightarrow> server_inv (snd (server_receive s))"
  by (simp add: server_inv_def net_inv_receive) (simp add: server_receive_def)

text \<open>A change of the application that leaves the clients and the users' connections alone.\<close>

lemma server_inv_app:
  "server_inv s \<Longrightarrow> clients g = clients (app s) \<Longrightarrow>
     map userConnection (users g) = map userConnection (users (app s)) \<Longrightarrow> server_inv (s\<lparr>app := g\<rparr>)"
  by (auto simp: server_inv_def users_match_def)

lemma executeGame_frame:
  "executeGame ord n g = Inr (text, g') \<Longrightarrow> \<exists>log. g' = g\<lparr>gs_log := log\<rparr>"
  by (auto simp: executeGame_def Let_def bindR_iffs split: prod.splits)

lemma processMessage_inv:
  assumes "processMessage ord n m (s, out, quit) = Inr (s', out', quit')" "server_inv s"
  shows "server_inv s'"
  using assms
  by (auto simp: processMessage_def Let_def bindR_iffs intro: wf_intros intro!: server_inv_app
      dest!: executeGame_frame split: if_splits list.splits prod.splits)

lemma processLoop_inv:
  "processLoop ord n ms (s, out, quit) = Inr (s', out', quit') \<Longrightarrow> server_inv s \<Longrightarrow> server_inv s'"
  by (induction ms arbitrary: s out quit) (auto simp: bindR_iffs dest: processMessage_inv)

lemma processMessages_inv:
  "processMessages ord n ms s = Inr (mr, s') \<Longrightarrow> server_inv s \<Longrightarrow> server_inv s'"
  by (auto simp: processMessages_def bindR_iffs dest: processLoop_inv split: prod.splits)

lemma runIteration_inv:
  assumes "runIteration ord n events err s = Inr (stop, s')" "server_inv s"
    "enabled_all game_handlers events s"
  shows "server_inv s'"
  using assms server_inv_receive [OF server_inv_update [OF assms(2,3)]]
  by (auto simp: runIteration_def Let_def bindR_iffs intro: wf_intros dest!: processMessages_inv
      split: prod.splits)

end
