(* ===== verification/Server_Behaviour.thy ===== *)
theory Server_Behaviour
  imports Game_Server
begin

text \<open>
  What the running game server does: which messages an iteration of the main loop handles and how
  each is answered, who receives the answers, when the loop ends, that a valid game executes
  safely, what a successful configuration establishes, and the invariant of every state the main
  loop reaches.
\<close>

section \<open>Messages received\<close>

lemma processMessage_incoming:
  "processMessage ord n m (s, out, quit) = Inr (s', out', quit') \<Longrightarrow> incoming s' = incoming s"
  by (auto simp: processMessage_def Let_def bindR_iffs split: if_splits list.splits prod.splits)

lemma processLoop_incoming:
  "processLoop ord n ms (s, out, quit) = Inr (s', out', quit') \<Longrightarrow> incoming s' = incoming s"
  by (induction ms arbitrary: s out quit) (auto simp: bindR_iffs dest: processMessage_incoming)

lemma runIteration_received:
  assumes "incoming s = []" "runIteration ord n events err s = Inr (stop, s')"
  shows "incoming s' = [] \<and>
    (\<exists>mr s3. processMessages ord n (reads events)
               ((server_update game_handlers events s)\<lparr>incoming := []\<rparr>) = Inr (mr, s3) \<and>
             s' = server_send (buildOutgoing (mr_result mr) (app s3)) s3 \<and>
             stop = (shouldShutdown mr \<or> err))"
proof -
  let ?s = "(server_update game_handlers events s)\<lparr>incoming := []\<rparr>"
  obtain mr s3 where r: "processMessages ord n (reads events) ?s = Inr (mr, s3)"
    "s' = server_send (buildOutgoing (mr_result mr) (app s3)) s3" "stop = (shouldShutdown mr \<or> err)"
    using assms
    by (auto simp: runIteration_def server_receive_def Let_def bindR_iffs incoming_server_update)
  then have "incoming s3 = []"
    by (auto simp: processMessages_def bindR_iffs dest: processLoop_incoming)
  with r show ?thesis by auto
qed

section \<open>Answers\<close>

text \<open>An answer is appended to what was answered before, and the flag is only ever raised.\<close>

lemma processMessage_append:
  "processMessage ord n m (s, out, quit) =
     bindR (processMessage ord n m (s, [], False)) (\<lambda>(s', t, q). Inr (s', out @ t, quit \<or> q))"
  by (auto simp: processMessage_def Let_def bindR_def split: list.split sum.split prod.split)

lemma processMessage_shutdown:
  "processMessage ord n m (s, out, quit) = Inr (s', out', quit') \<Longrightarrow>
     quit' \<longleftrightarrow> quit \<or> msg_text m = ''shutdown''"
  by (auto simp: processMessage_def Let_def bindR_iffs split: if_splits list.splits prod.splits)

lemma processLoop_shutdown:
  "processLoop ord n ms (s, out, quit) = Inr (s', out', quit') \<Longrightarrow>
     quit' \<longleftrightarrow> quit \<or> (\<exists>m \<in> set ms. msg_text m = ''shutdown'')"
  by (induction ms arbitrary: s out quit)
     (fastforce simp: bindR_iffs dest: processMessage_shutdown)+

lemma runIteration_stop:
  assumes "incoming s = []" "runIteration ord n events err s = Inr (stop, s')"
  shows "stop \<longleftrightarrow> err \<or> (\<exists>m \<in> set (reads events). msg_text m = ''shutdown'')"
proof -
  obtain mr s3 where "processMessages ord n (reads events)
      ((server_update game_handlers events s)\<lparr>incoming := []\<rparr>) = Inr (mr, s3)"
    "stop = (shouldShutdown mr \<or> err)" using runIteration_received [OF assms] by blast
  then show ?thesis by (auto simp: processMessages_def bindR_iffs dest: processLoop_shutdown)
qed

lemma processMessage_empty:
  "msg_text m = [] \<Longrightarrow> processMessage ord n m st = Inl OutOfRange"
  by (cases st) (simp add: processMessage_def Let_def)

lemma processLoop_append:
  "processLoop ord n (ms @ ms') st = bindR (processLoop ord n ms st) (processLoop ord n ms')"
  by (induction ms arbitrary: st) (auto simp: bindR_def split: sum.split)

text \<open>A message that is not empty and no command is processed without a fault.\<close>

lemma processLoop_lines:
  "\<forall>m\<in>set ms. msg_text m \<noteq> [] \<and> hd (msg_text m) \<noteq> CHR ''/'' \<Longrightarrow> \<exists>st'. processLoop ord n ms st = Inr st'"
proof (induction ms arbitrary: st)
  case (Cons m ms)
  obtain s out quit where st: "st = (s, out, quit)" by (rule prod_cases3)
  obtain c t where "msg_text m = c # t" "c \<noteq> CHR ''/''" using Cons.prems by (cases "msg_text m") auto
  then have "\<exists>st1. processMessage ord n m st = Inr st1" by (auto simp: st processMessage_def Let_def)
  with Cons show ?case by auto
next
  case Nil
  show ?case by (rule exI [of _ st]) simp
qed

lemma processMessage_chat:
  assumes "msg_text m \<noteq> []" "hd (msg_text m) \<noteq> CHR ''/''" "msg_text m \<noteq> ''quit''" "msg_text m \<noteq> ''shutdown''"
  shows "processMessage ord n m (s, out, quit) =
    Inr (s, out @ getUserNickname (conn_id (msg_connection m)) (users (app s)) @ ''> '' @ msg_text m @ nl, quit)"
  using assms by (cases "msg_text m") (simp_all add: processMessage_def Let_def)

lemma processMessage_command:
  assumes "msg_text m = CHR ''/'' # t" "storable (msg_text m)" "until CHR '' '' t \<noteq> ''nickname''"
  shows "processMessage ord n m (s, out, quit) =
    (if until CHR '' '' t = ''execute'' then
       (if \<not> isValid (gs_gameData (app s)) then
          Inr (s, out @ tab @ ''Cannot execute game - not yet loaded'' @ nl, quit)
        else bindR (executeGame ord n (app s)) (\<lambda>(text, g'). Inr (s\<lparr>app := g'\<rparr>, out @ text, quit)))
     else Inr (s, out @ getUserNickname (conn_id (msg_connection m)) (users (app s)) @
                  ''> command not found.'' @ nl, quit))"
  using assms substr_command [of "CHR ''/''" t] by (simp add: processMessage_def Let_def)

lemma processMessage_nickname:
  assumes "msg_text m = CHR ''/'' # t" "storable (msg_text m)" "until CHR '' '' t = ''nickname''"
  shows "processMessage ord n m (s, out, quit) =
    (let i = conn_id (msg_connection m);
         nick = (if CHR '' '' \<in> set t then tl (find_from CHR '' '' t) else msg_text m)
     in Inr (s\<lparr>app := (app s)\<lparr>users := changeUserNickname i nick (users (app s))\<rparr>\<rparr>,
             out @ getUserNickname i (users (app s)) @ '' has changed their name to: '' @ nick @ ''.'' @ nl,
             quit))"
  using assms substr_command [of "CHR ''/''" t] substr_argument [of "msg_text m"]
  by (auto simp: processMessage_def Let_def)

lemma processMessage_quit:
  "msg_text m = ''quit'' \<Longrightarrow>
   processMessage ord n m (s, out, quit) = Inr (server_disconnect game_handlers (msg_connection m) s, out, quit)"
  by (simp add: processMessage_def Let_def)

section \<open>The broadcast\<close>

lemma broadcast_all:
  assumes "server_inv s"
  shows "heap (server_send (buildOutgoing log (app s)) s) p =
    (if um_contains (channels s) (Connection p) then map_option (channel_send log) (heap s p)
     else heap s p)"
  using assms game_clients.broadcast by (simp add: server_inv_tracked)

section \<open>Executing a valid game\<close>

lemma result_value_total: "\<exists>r. getValue gs ''debug_target'' = Inr r"
  by (simp add: getValue_debug_target)

text \<open>A game the parser delivered whose names are in order faults only by overflowing an addition.\<close>

lemma executeGame_safe:
  assumes "iteration_order ord" "game_data_ok (gs_gameData g)"
    "list_all (names_ok []) (gd_topLevelRules (gs_gameData g))"
  shows "(\<exists>text log. executeGame ord n g = Inr (text, g\<lparr>gs_log := log\<rparr>)) \<or>
         executeGame ord n g = Inl SignedOverflow"
proof -
  let ?gd = "gs_gameData g"
  let ?ids = "map (\<lambda>u. conn_id (userConnection u)) (users g)"
  let ?gs = "mkGameState (gd_variableMap ?gd) ?ids (gd_perPlayerVariableMap ?gd)"
  let ?st = "\<lparr>game = ?gs, messages = gs_log g\<rparr>"
  have "gs_wf ?gs" using assms(2) by (auto simp: game_data_ok_def intro: wf_intros)
  then have "benign (executeRules ord n (gd_topLevelRules ?gd) ?st)"
    using names_ok_benign(2) [OF assms(1,3), of ?st n] by (simp add: binds_def)
  moreover have "list_all loop_free (gd_topLevelRules ?gd)"
    using assms(2) by (auto simp: game_data_ok_def list_all_iff parser_shape_loop_free)
  then have "executeRules ord n (gd_topLevelRules ?gd) ?st \<noteq> Inl OutOfFuel" by (rule loop_free_fuel(2))
  ultimately show ?thesis
    by (cases "executeRules ord n (gd_topLevelRules ?gd) ?st")
       (auto simp: executeGame_def Let_def getValue_debug_target benign_def)
qed

text \<open>The log a game server holds has no influence on an execution.\<close>

lemma executeGame_log:
  "executeGame ord n (g\<lparr>gs_log := ms @ gs_log g\<rparr>) =
     bindR (executeGame ord n g) (\<lambda>(text, g'). Inr (text, g'\<lparr>gs_log := ms @ gs_log g'\<rparr>))"
proof -
  let ?gs = "mkGameState (gd_variableMap (gs_gameData g)) (map (\<lambda>u. conn_id (userConnection u)) (users g))
      (gd_perPlayerVariableMap (gs_gameData g))"
  have "executeRules ord n (gd_topLevelRules (gs_gameData g)) \<lparr>game = ?gs, messages = ms @ gs_log g\<rparr> =
      out_after ms (executeRules ord n (gd_topLevelRules (gs_gameData g)) \<lparr>game = ?gs, messages = gs_log g\<rparr>)"
    using execute_log(2) [of ord n _ ms "\<lparr>game = ?gs, messages = gs_log g\<rparr>"] by (simp add: log_after_def)
  then show ?thesis
    by (cases "executeRules ord n (gd_topLevelRules (gs_gameData g)) \<lparr>game = ?gs, messages = gs_log g\<rparr>")
       (auto simp: executeGame_def Let_def)
qed

section \<open>Configuration\<close>

lemma setupConfig_result:
  assumes "setupConfig J canOpen n name g = Inr (Some g')"
  shows "name = ''Test'' \<and>
    (\<exists>p. gs_port g' = Some p \<and> parseInviteCode (gs_inviteCode g') = ushort_to_string p) \<and>
    parseJsonFile_gameSpec J n ''../social-gaming/test/json/gameSpec_forEach_basic.json'' =
      Inr (gs_gameData g') \<and>
    clients g' = clients g \<and> users g' = users g"
proof -
  have "name = ''Test''"
  proof (rule ccontr)
    assume "name \<noteq> ''Test''"
    with assms show False
      by (auto simp: setupConfig_def bindR_iffs unknown_game_invalidates)
  qed
  with assms show ?thesis
    by (auto simp: setupConfig_def bindR_iffs parseGamefile_def gameFilepaths_def generateInviteCode_def
        parseInviteCode_rev split: if_splits)
qed

lemma setupConfig_total:
  assumes "json_types J" "json_throws J" "json_nesting J depth"
    and "\<And>j. j_parse_file J ''../social-gaming/test/json/gameSpec_forEach_basic.json'' = Some j \<Longrightarrow>
           depth (j_at J j ''rules'') < n"
  shows "\<exists>r. setupConfig J canOpen n name g = Inr r"
proof -
  obtain cfg where cfg: "mkServerConfig J canOpen ''../social-gaming/data/serverconfig.json'' = Inr cfg"
    "config_ok cfg" using mkServerConfig_total [OF assms(1)] by blast
  obtain gd cfg' where gd: "parseGamefile J n cfg name = Inr (gd, cfg')"
  proof (cases "name = ''Test''")
    case True
    obtain gd where "parseJsonFile_gameSpec J n ''../social-gaming/test/json/gameSpec_forEach_basic.json'' = Inr gd"
      using gameSpec_total [OF assms(2,3) _ assms(1)] assms(4) by blast
    with True that show ?thesis by (simp add: parseGamefile_def gameFilepaths_def)
  qed (use that unknown_game_invalidates in blast)
  have "config_ok cfg'" using config_ok_parseGamefile [OF cfg(2) gd] .
  with cfg gd show ?thesis
    by (cases "sc_valid cfg'") (auto simp: setupConfig_def dest: valid_invite_code)
qed

section \<open>The running server\<close>

text \<open>
  The states between two iterations of the main loop, for any completions the polls may deliver
  and any exceptions of \<open>update\<close> that stop it.
\<close>

inductive served :: "(string list \<Rightarrow> string list) \<Rightarrow> nat \<Rightarrow> GameServer \<Rightarrow> GameServer ServerImpl \<Rightarrow> bool \<Rightarrow> bool"
  for ord n g where
  serve_start: "served ord n g (mkServer g) False"
| serve_poll:
    "served ord n g s False \<Longrightarrow> enabled_all game_handlers events s \<Longrightarrow>
     runIteration ord n events err s = Inr (stop, s') \<Longrightarrow> served ord n g s' stop"

inductive_cases served_stoppedE: "served ord n g s True"

lemma server_inv_initial: "clients g = [] \<Longrightarrow> users g = [] \<Longrightarrow> server_inv (mkServer g)"
  by (simp add: server_inv_def net_inv_start) (simp add: mkServer_def users_match_def)

lemma served_inv:
  "served ord n g s stop \<Longrightarrow> clients g = [] \<Longrightarrow> users g = [] \<Longrightarrow> server_inv s \<and> incoming s = []"
proof (induction rule: served.induct)
  case serve_start
  then show ?case by (simp add: server_inv_initial) (simp add: mkServer_def)
next
  case (serve_poll s events err stop s')
  then show ?case using runIteration_inv [OF serve_poll(3) _ serve_poll(2)] runIteration_received by blast
qed

text \<open>They are reachable states of the network server, whose own steps the loop is made of.\<close>

lemma processMessage_reachable:
  "processMessage ord n m (s, out, quit) = Inr (s', out', quit') \<Longrightarrow> net_reachable game_handlers a s \<Longrightarrow>
   net_reachable game_handlers a s'"
  by (auto simp: processMessage_def Let_def bindR_iffs intro: net_reachable.step net_step.disconnecting
      net_step.application split: if_splits list.splits)

lemma processLoop_reachable:
  "processLoop ord n ms (s, out, quit) = Inr (s', out', quit') \<Longrightarrow> net_reachable game_handlers a s \<Longrightarrow>
   net_reachable game_handlers a s'"
  by (induction ms arbitrary: s out quit) (auto simp: bindR_iffs dest: processMessage_reachable)

lemma runIteration_reachable:
  assumes "runIteration ord n events err s = Inr (stop, s')" "net_reachable game_handlers a s"
    "enabled_all game_handlers events s"
  shows "net_reachable game_handlers a s'"
proof -
  let ?s1 = "server_update game_handlers events s"
  have "net_reachable game_handlers a (snd (server_receive ?s1))"
    using net_reachable.step [OF net_reachable_update [OF assms(2,3)] net_step.receiving] .
  with assms(1) show ?thesis
    by (auto simp: runIteration_def Let_def processMessages_def bindR_iffs server_receive_def
        dest!: processLoop_reachable intro: net_reachable.step net_step.sending)
qed

lemma served_reachable: "served ord n g s stop \<Longrightarrow> net_reachable game_handlers g s"
  by (induction rule: served.induct) (auto intro: net_reachable.start runIteration_reachable)

text \<open>The executable loop reaches only such states.\<close>

fun polls_enabled ::
    "(string list \<Rightarrow> string list) \<Rightarrow> nat \<Rightarrow> (net_event list \<times> bool) list \<Rightarrow> GameServer ServerImpl \<Rightarrow> bool" where
  "polls_enabled ord n [] s = True"
| "polls_enabled ord n ((events, err) # polls) s =
     (enabled_all game_handlers events s \<and>
      (case runIteration ord n events err s of
         Inr (False, s') \<Rightarrow> polls_enabled ord n polls s'
       | _ \<Rightarrow> True))"

lemma run_served:
  "run ord n polls s = Inr (stop, s') \<Longrightarrow> polls_enabled ord n polls s \<Longrightarrow> served ord n g s False \<Longrightarrow>
   served ord n g s' stop"
proof (induction polls arbitrary: s)
  case (Cons poll polls)
  obtain events err where poll: "poll = (events, err)" by fastforce
  from Cons.prems poll obtain st s1 where it: "runIteration ord n events err s = Inr (st, s1)"
    and en: "enabled_all game_handlers events s"
    by (auto simp: bindR_iffs)
  from served.serve_poll [OF Cons.prems(3) en it] have "served ord n g s1 st" .
  with Cons poll it show ?case by (cases st) auto
qed auto

section \<open>What a client sees\<close>

text \<open>
  After an iteration every registered channel has been sent the answers, once and as one text;
  an empty text is not sent.
\<close>

lemma ch_sent_channel_send:
  "ch_sent (channel_send t ch) = ch_sent ch @ (if t = [] then [] else [t])"
  by (simp add: channel_send_def Let_def)

lemma runIteration_broadcast:
  assumes "server_inv s" "incoming s = []" "enabled_all game_handlers events s"
    "runIteration ord n events err s = Inr (stop, s')"
  shows "\<exists>mr s3. processMessages ord n (reads events)
                   ((server_update game_handlers events s)\<lparr>incoming := []\<rparr>) = Inr (mr, s3) \<and>
    channels s' = channels s3 \<and>
    (\<forall>p. heap s' p = (if um_contains (channels s3) (Connection p)
                      then map_option (channel_send (mr_result mr)) (heap s3 p) else heap s3 p))"
proof -
  from runIteration_received [OF assms(2,4)] obtain mr s3 where
    r: "processMessages ord n (reads events)
          ((server_update game_handlers events s)\<lparr>incoming := []\<rparr>) = Inr (mr, s3)"
    "s' = server_send (buildOutgoing (mr_result mr) (app s3)) s3" by blast
  have "server_inv ((server_update game_handlers events s)\<lparr>incoming := []\<rparr>)"
    using server_inv_receive [OF server_inv_update [OF assms(1,3)]] by (simp add: server_receive_def)
  then have "server_inv s3" using processMessages_inv r(1) by blast
  with r show ?thesis by (auto simp: broadcast_all)
qed

section \<open>Properties\<close>

text \<open>A server of the test game with one client, at address 5.\<close>

definition game_server :: GameServer where
  "game_server = mkGameServer\<lparr>gs_gameData := projr (parseJsonFile_gameSpec (jval_lib game_files) 2 ''game.json'')\<rparr>"

definition one_client :: "GameServer ServerImpl" where
  "one_client = server_update game_handlers [Upgrade 5, Accepted 5 True] (mkServer game_server)"

lemma one_client_fields:
  "app one_client = game_server\<lparr>clients := [Connection 5], users := [\<lparr>nickname = ''5'', userConnection = Connection 5\<rparr>]\<rparr>"
  "channels one_client = [(Connection 5, 5)]" "incoming one_client = []"
  "heap one_client = [5 \<mapsto> mkChannel\<lparr>ch_reading := True\<rparr>]"
proof -
  have five: "to_string 5 = ''5''" by code_simp
  show "app one_client = game_server\<lparr>clients := [Connection 5],
      users := [\<lparr>nickname = ''5'', userConnection = Connection 5\<rparr>]\<rparr>"
    "channels one_client = [(Connection 5, 5)]" "incoming one_client = []"
    "heap one_client = [5 \<mapsto> mkChannel\<lparr>ch_reading := True\<rparr>]"
    by (simp_all add: one_client_def mkServer_def registerChannel_def Let_def um_insert_def um_erase_def
        um_contains_def at_channel_def game_handlers_def onConnect_def mkUser_def game_server_def
        mkGameServer_def mkChannel_def five fun_eq_iff)
qed

lemma one_client_polled:
  "runIteration ord n [Upgrade 5, Accepted 5 True] False (mkServer game_server) = Inr (False, one_client)"
proof -
  have "incoming (server_update game_handlers [Upgrade 5, Accepted 5 True] (mkServer game_server)) = []"
    by (simp add: incoming_server_update del: server_update.simps) (simp add: mkServer_def)
  then have "server_receive one_client = ([], one_client)"
    by (simp add: server_receive_def one_client_def [symmetric] del: server_update.simps)
  moreover have "server_send (buildOutgoing [] (app one_client)) one_client = one_client"
    by (simp add: buildOutgoing_def one_client_fields at_channel_def channel_send_def map_option_case
        fun_upd_idem)
  ultimately show ?thesis
    by (simp add: runIteration_def one_client_def [symmetric] processMessages_def Let_def
        del: server_update.simps)
qed

lemma game_server_idle [simp]: "clients game_server = []" "users game_server = []"
  by (simp_all add: game_server_def mkGameServer_def)

lemma one_client_enabled: "enabled_all game_handlers [Upgrade 5, Accepted 5 True] (mkServer game_server)"
  by (simp add: mkServer_def mkChannel_def)

lemma one_client_served: "served ord n game_server one_client False"
  using served.serve_poll [OF served.serve_start one_client_enabled one_client_polled] .

lemma one_client_inv: "server_inv one_client"
  using served_inv [OF one_client_served] by simp

text \<open>
  C4. In every state the main loop reaches, for any completions the polls deliver: it is a reachable
  state of the network server, whose invariant holds; the clients of the game server are exactly the
  registered connections, each listed once; there is one user per client, in the same order; and no
  message waits unprocessed.
\<close>

theorem served_invariant:
  assumes "served ord n g s stop" "clients g = []" "users g = []"
  shows "net_reachable game_handlers g s \<and> net_inv s \<and>
    distinct (clients (app s)) \<and> set (clients (app s)) = dom (map_of (channels s)) \<and>
    map userConnection (users (app s)) = clients (app s) \<and> incoming s = []"
  using served_inv [OF assms] served_reachable [OF assms(1)] by (auto simp: server_inv_def users_match_def)

theorem served_invariant_witness:
  "set (clients (app one_client)) = dom (map_of (channels one_client)) \<and> incoming one_client = []"
  using served_invariant [OF one_client_served] by simp

text \<open>
  The executable main loop stays within these states: what \<open>run\<close> returns, after any sequence of
  polls, satisfies the invariant of the served states.
\<close>

theorem run_keeps_invariant:
  assumes "run ord n polls (mkServer g) = Inr (stop, s)" "polls_enabled ord n polls (mkServer g)"
    and "clients g = []" "users g = []"
  shows "server_inv s \<and> incoming s = []"
  using served_inv [OF run_served [OF assms(1,2) serve_start] assms(3,4)] .

theorem run_keeps_invariant_witness:
  "run id 0 [([Upgrade 5, Accepted 5 True], False)] (mkServer game_server) = Inr (False, one_client) \<and>
   server_inv one_client"
proof -
  have r: "run id 0 [([Upgrade 5, Accepted 5 True], False)] (mkServer game_server) = Inr (False, one_client)"
    by (simp add: one_client_polled)
  have p: "polls_enabled id 0 [([Upgrade 5, Accepted 5 True], False)] (mkServer game_server)"
    using one_client_enabled by (simp add: one_client_polled del: enabled_all.simps)
  from run_keeps_invariant [OF r p] r show ?thesis by simp
qed

text \<open>
  One iteration of the loop processes exactly the texts its poll has read, each once and in the
  order of the reads, and leaves none behind; the loop ends exactly when one of them is
  \<open>shutdown\<close> or the poll threw.
\<close>

theorem iteration_processes_reads:
  assumes "incoming s = []" "runIteration ord n events err s = Inr (stop, s')"
  shows "(\<exists>mr s3. processMessages ord n (reads events)
               ((server_update game_handlers events s)\<lparr>incoming := []\<rparr>) = Inr (mr, s3) \<and>
             s' = server_send (buildOutgoing (mr_result mr) (app s3)) s3) \<and>
    incoming s' = [] \<and> stop = (err \<or> ''shutdown'' \<in> msg_text ` set (reads events))"
proof -
  have "stop = (err \<or> ''shutdown'' \<in> msg_text ` set (reads events))"
    using runIteration_stop [OF assms] by force
  then show ?thesis using runIteration_received [OF assms] by blast
qed

theorem iteration_processes_reads_witness:
  "\<exists>s'. runIteration id 0 [Read 5 (Some ''hi''), Read 5 (Some ''shutdown'')] False one_client = Inr (True, s') \<and>
        incoming s' = []"
proof -
  let ?es = "[Read 5 (Some ''hi''), Read 5 (Some ''shutdown'')]"
  have "\<exists>r. runIteration id 0 ?es False one_client = Inr r"
    by (auto simp: runIteration_def one_client_fields processMessages_def processMessage_def Let_def
        server_receive_def at_channel_def split: prod.split)
  then obtain stop s' where r: "runIteration id 0 ?es False one_client = Inr (stop, s')" by auto
  with iteration_processes_reads [OF one_client_fields(3) r] show ?thesis by simp
qed

text \<open>
  The answers of one iteration go, as one text, to every connection registered after the
  messages were processed and to nobody else; an empty text is not sent.
\<close>

theorem answers_broadcast:
  assumes "server_inv s"
  shows "map_option ch_sent (heap (server_send (buildOutgoing log (app s)) s) p) =
    (if um_contains (channels s) (Connection p) \<and> log \<noteq> []
     then map_option (\<lambda>ch. ch_sent ch @ [log]) (heap s p) else map_option ch_sent (heap s p))"
  using broadcast_all [OF assms, of log p]
  by (cases "heap s p") (simp_all add: ch_sent_channel_send)

theorem answers_broadcast_witness:
  "map_option ch_sent (heap (server_send (buildOutgoing ''hi'' (app one_client)) one_client) 5) = Some [''hi'']"
  using answers_broadcast [OF one_client_inv, of "''hi''" 5]
  by (simp add: one_client_fields um_contains_def mkChannel_def)

text \<open>
  C39. An empty message kills the server: its \<open>text.at(0)\<close> throws \<open>std::out_of_range\<close>, which nothing in \<open>run\<close>
  catches, so that the iteration that comes to the message leaves \<open>run\<close> with this exception. That it comes to
  the message, only the fault of an earlier message of the same poll can prevent, and lines that are no commands
  have none.
\<close>

theorem empty_message_fatal:
  assumes "incoming s = []" "reads events = ms @ m # ms'" "msg_text m = []"
  shows "runIteration ord n events err s =
      (case processLoop ord n ms ((server_update game_handlers events s)\<lparr>incoming := []\<rparr>, [], False) of
         Inl e \<Rightarrow> Inl e | Inr _ \<Rightarrow> Inl OutOfRange) \<and>
    ((\<forall>x\<in>set ms. msg_text x \<noteq> [] \<and> hd (msg_text x) \<noteq> CHR ''/'') \<longrightarrow>
       runIteration ord n events err s = Inl OutOfRange) \<and>
    is_exception OutOfRange"
proof -
  let ?st = "((server_update game_handlers events s)\<lparr>incoming := []\<rparr>, [], False)"
  have "runIteration ord n events err s = (case processLoop ord n ms ?st of Inl e \<Rightarrow> Inl e | Inr _ \<Rightarrow> Inl OutOfRange)"
    using assms(1,3)
    by (simp add: runIteration_def server_receive_def incoming_server_update assms(2) processMessages_def
        processLoop_append processMessage_empty bindR_def split: sum.split)
  with processLoop_lines [of ms ord n ?st] show ?thesis by (auto split: sum.split)
qed

theorem empty_message_fatal_witness:
  "runIteration id 0 [Read 5 (Some ''hi''), Read 5 (Some [])] False one_client = Inl OutOfRange"
proof -
  have "reads [Read 5 (Some ''hi''), Read 5 (Some [])] =
    [\<lparr>msg_connection = Connection 5, msg_text = ''hi''\<rparr>] @ \<lparr>msg_connection = Connection 5, msg_text = []\<rparr> # []" by simp
  from empty_message_fatal [OF one_client_fields(3) this, of id 0 False] show ?thesis by (auto simp del: server_update.simps)
qed

text \<open>
  \<open>/nickname NAME\<close> renames its sender and nobody else, keeps the clients and the order of the
  users, and is answered with the old and the new name. Without a name, the command itself becomes
  the nickname.
\<close>

theorem nickname_renames_sender:
  assumes "msg_text m = ''/nickname'' @ rest" "rest = [] \<or> hd rest = CHR '' ''" "storable (msg_text m)"
    and "msg_connection m \<in> set (map userConnection (users (app s)))" "i = conn_id (msg_connection m)"
    and "nick = (if rest = [] then ''/nickname'' else tl rest)"
  shows "\<exists>s'. processMessage ord n m (s, out, quit) =
      Inr (s', out @ getUserNickname i (users (app s)) @ '' has changed their name to: '' @ nick @ ''.'' @ nl, quit) \<and>
    (\<forall>j. getUserNickname j (users (app s')) = (if j = i then nick else getUserNickname j (users (app s)))) \<and>
    map userConnection (users (app s')) = map userConnection (users (app s)) \<and>
    clients (app s') = clients (app s)"
proof -
  let ?t = "''nickname'' @ rest"
  have t: "msg_text m = CHR ''/'' # ?t" using assms(1) by simp
  have u: "until CHR '' '' ?t = ''nickname''" using assms(2) by (cases rest) auto
  have nick: "(if CHR '' '' \<in> set ?t then tl (find_from CHR '' '' ?t) else msg_text m) = nick"
    using assms(1,2,6) by (cases rest) auto
  let ?s = "s\<lparr>app := (app s)\<lparr>users := changeUserNickname i nick (users (app s))\<rparr>\<rparr>"
  have "processMessage ord n m (s, out, quit) =
      Inr (?s, out @ getUserNickname i (users (app s)) @ '' has changed their name to: '' @ nick @ ''.'' @ nl, quit)"
    using processMessage_nickname [OF t assms(3) u] nick assms(5) by (simp add: Let_def)
  moreover have "getUserNickname i (changeUserNickname i nick (users (app s))) = nick"
    using assms(4,5) by (intro getUserNickname_change) auto
  ultimately show ?thesis by (intro exI [of _ ?s]) (simp add: getUserNickname_change_other)
qed

theorem nickname_renames_sender_witness:
  "\<exists>s'. processMessage id 0 \<lparr>msg_connection = Connection 5, msg_text = ''/nickname Ann''\<rparr> (one_client, [], False) =
      Inr (s', ''5 has changed their name to: Ann.'' @ nl, False) \<and>
    getUserNickname 5 (users (app s')) = ''Ann''"
  using nickname_renames_sender [of "\<lparr>msg_connection = Connection 5, msg_text = ''/nickname Ann''\<rparr>" "'' Ann''"
      one_client 5 "''Ann''" id 0 "[]" False]
  by (fastforce simp: storable_def one_client_fields)

text \<open>
  Every other message that is not empty is answered without a fault as follows: \<open>quit\<close> disconnects
  its sender and is not answered; a text without a slash is repeated after the sender's nickname;
  an unknown command is reported; \<open>/execute\<close> without a valid game says so.
\<close>

theorem message_answers:
  assumes "storable (msg_text m)" "name = getUserNickname (conn_id (msg_connection m)) (users (app s))"
  shows
    "case msg_text m of
       [] \<Rightarrow> processMessage ord n m (s, out, quit) = Inl OutOfRange
     | c # t \<Rightarrow>
         if msg_text m = ''quit'' then
           processMessage ord n m (s, out, quit) =
             Inr (server_disconnect game_handlers (msg_connection m) s, out, quit)
         else if msg_text m = ''shutdown'' then processMessage ord n m (s, out, quit) = Inr (s, out, True)
         else if c \<noteq> CHR ''/'' then
           processMessage ord n m (s, out, quit) = Inr (s, out @ name @ ''> '' @ msg_text m @ nl, quit)
         else if until CHR '' '' t = ''execute'' then
           processMessage ord n m (s, out, quit) =
             (if isValid (gs_gameData (app s))
              then bindR (executeGame ord n (app s)) (\<lambda>(text, g). Inr (s\<lparr>app := g\<rparr>, out @ text, quit))
              else Inr (s, out @ tab @ ''Cannot execute game - not yet loaded'' @ nl, quit))
         else until CHR '' '' t = ''nickname'' \<or>
           processMessage ord n m (s, out, quit) = Inr (s, out @ name @ ''> command not found.'' @ nl, quit)"
proof (cases "msg_text m")
  case Nil
  then show ?thesis by (simp add: processMessage_empty)
next
  case (Cons c t)
  show ?thesis
  proof (cases "c = CHR ''/''")
    case True
    with Cons processMessage_command [of m t ord n s out quit] assms show ?thesis
      by (cases "until CHR '' '' t = ''nickname''") simp_all
  next
    case False
    with Cons processMessage_chat [of m ord n s out quit] assms show ?thesis
      by (auto simp: processMessage_quit) (simp add: processMessage_def Let_def)+
  qed
qed

theorem message_answers_witness:
  "processMessage id 0 \<lparr>msg_connection = Connection 5, msg_text = ''hi''\<rparr> (one_client, [], False) =
     Inr (one_client, ''5> hi'' @ nl, False)"
  using message_answers [of "\<lparr>msg_connection = Connection 5, msg_text = ''hi''\<rparr>" "''5''" one_client id 0 "[]" False]
  by (simp add: storable_def one_client_fields)

text \<open>
  Executing a game the parser accepted, whose names pass the static check, ends for every order of
  iteration, with a text and no change to the server but the log, unless an addition overflows.
\<close>

theorem executeGame_returns:
  assumes "iteration_order ord" "game_data_ok (gs_gameData g)"
    and "list_all (names_ok []) (gd_topLevelRules (gs_gameData g))"
    and "executeGame ord n g \<noteq> Inl SignedOverflow"
  shows "\<exists>text log. executeGame ord n g = Inr (text, g\<lparr>gs_log := log\<rparr>)"
  using executeGame_safe [OF assms(1-3), of n] assms(4) by blast

lemma one_client_game:
  "gs_gameData (app one_client) = \<lparr>isValid = True, gd_variableMap = [(''debug_target'', 0)],
     gd_perPlayerVariableMap = [(''score'', 0)],
     gd_topLevelRules = [ForEachRule ''players'' ''player'' [AddRule ''players.$player.score'' 1]]\<rparr>"
  by (simp add: one_client_fields game_server_def basic_game_parsed mkGameServer_def)

lemma one_client_execution: "executeGame id 0 (app one_client) \<noteq> Inl SignedOverflow"
proof -
  let ?gs = "mkGameState [(''debug_target'', 0)] [5] [(''score'', 0)]"
  let ?st = "\<lparr>game = ?gs, messages = gs_log (app one_client)\<rparr>"
  have "gs_wf ?gs" by (rule gs_wf_mkGameState) (simp add: um_wf_def)
  moreover have "store ?gs (PlayerVar 5 ''score'') = Some 0" by (simp add: store_mkGameState del: store.simps)
  ultimately have "\<exists>st'. executeRule id 0 (ForEachRule ''players'' ''player'' [AddRule (scoped_name ''player'' ''score'') 1]) ?st =
      Inr (RuleSuccess, st')"
    using forEach_add [OF iteration_order_id, of ?st "''player''" "''score''" 1 0]
    by (auto simp: add_int_def simp del: store.simps executeRule.simps)
  then show ?thesis
    by (auto simp: executeGame_def Let_def one_client_game scoped_name_def simp del: executeRule.simps)
       (auto simp: one_client_fields simp del: executeRule.simps)
qed

theorem executeGame_returns_witness:
  "\<exists>text log. executeGame id 0 (app one_client) = Inr (text, (app one_client)\<lparr>gs_log := log\<rparr>)"
proof (rule executeGame_returns [OF iteration_order_id _ _ one_client_execution])
  show "game_data_ok (gs_gameData (app one_client))"
    unfolding one_client_game by (simp add: game_data_ok_def um_wf_def)
  show "list_all (names_ok []) (gd_topLevelRules (gs_gameData (app one_client)))"
    unfolding one_client_game by code_simp
qed

text \<open>
  Executing a game leaves nothing behind that a later execution could see: the variables are built
  afresh, so a second \<open>/execute\<close> gives the same text, and appends the same lines to the log.
\<close>

theorem execution_repeatable:
  assumes "executeGame ord n (g\<lparr>gs_log := []\<rparr>) = Inr (text, g1)"
  shows "executeGame ord n (g\<lparr>gs_log := ms\<rparr>) = Inr (text, g\<lparr>gs_log := ms @ gs_log g1\<rparr>)"
  using executeGame_log [where g = "g\<lparr>gs_log := []\<rparr>" and ms = ms and ord = ord and n = n] executeGame_frame [OF assms] assms by auto

theorem execution_repeatable_witness:
  "\<exists>text log. executeGame id 0 ((app one_client)\<lparr>gs_log := [''a'', ''b'']\<rparr>) =
     Inr (text, (app one_client)\<lparr>gs_log := [''a'', ''b''] @ log\<rparr>)"
proof -
  have "(app one_client)\<lparr>gs_log := []\<rparr> = app one_client"
    by (simp add: one_client_fields game_server_def mkGameServer_def)
  moreover have "game_data_ok (gs_gameData (app one_client))"
    unfolding one_client_game by (simp add: game_data_ok_def um_wf_def)
  moreover have "list_all (names_ok []) (gd_topLevelRules (gs_gameData (app one_client)))"
    unfolding one_client_game by code_simp
  ultimately obtain answer log where
    "executeGame id 0 ((app one_client)\<lparr>gs_log := []\<rparr>) = Inr (answer, (app one_client)\<lparr>gs_log := log\<rparr>)"
    using executeGame_safe [OF iteration_order_id, of "app one_client" 0] one_client_execution by auto
  from execution_repeatable [OF this, of "[''a'', ''b'']"] show ?thesis by auto
qed

text \<open>
  A configured server has a port, an invite code that a client turns into that port, and the game
  data its specification parses to; only the one registered game name gets that far, and nobody is
  connected yet.
\<close>

theorem setupConfig_establishes:
  assumes "setupConfig J canOpen n name g = Inr (Some g')"
  shows "name = ''Test'' \<and>
    (\<exists>p. gs_port g' = Some p \<and> parseInviteCode (gs_inviteCode g') = ushort_to_string p) \<and>
    parseJsonFile_gameSpec J n ''../social-gaming/test/json/gameSpec_forEach_basic.json'' =
      Inr (gs_gameData g') \<and>
    clients g' = clients g \<and> users g' = users g"
  using assms by (rule setupConfig_result)

text \<open>
  Configuring the server throws nothing, whatever the two files contain and whatever name is
  entered: it either completes or reports an invalid configuration and exits.
\<close>

theorem setupConfig_returns:
  assumes "json_types J" "json_throws J" "json_nesting J depth"
    and "\<And>j. j_parse_file J ''../social-gaming/test/json/gameSpec_forEach_basic.json'' = Some j \<Longrightarrow>
           depth (j_at J j ''rules'') < n"
  shows "\<exists>r. setupConfig J canOpen n name g = Inr r"
  using assms by (rule setupConfig_total)

definition installed_files :: "string \<rightharpoonup> jval" where
  "installed_files =
     [''../social-gaming/data/serverconfig.json'' \<mapsto> JObj [(''port'', JInt 8080), (''serverhtml'', JStr ''w.html'')]]"

lemma installed_config:
  "parseJsonFile_serverConfig (jval_lib installed_files) ''../social-gaming/data/serverconfig.json'' =
     JObj [(''port'', JInt 8080), (''serverhtml'', JStr ''w.html'')]"
  by (simp add: parseJsonFile_serverConfig_def parseJson_def safeParse_def installed_files_def
      validateJsonObject_def validateJsonContent_serverConfig_def validate_root_iff SC_ROOT_ELEMS_def)

lemma installed_setup:
  "\<exists>g. setupConfig (jval_lib installed_files) (\<lambda>_. True) 1000 ''Test'' mkGameServer = Inr (Some g)"
proof -
  have "parseJsonFile_gameSpec (jval_lib installed_files) 1000
      ''../social-gaming/test/json/gameSpec_forEach_basic.json'' = Inr invalidGameData"
    by (simp add: parseJsonFile_gameSpec_def parseJson_def safeParse_def installed_files_def)
  then show ?thesis
    by (simp add: setupConfig_def mkServerConfig_def installed_config configure_def parseGamefile_def
        gameFilepaths_def getPort_def generateInviteCode_def)
qed

theorem setupConfig_establishes_witness:
  "\<exists>g. setupConfig (jval_lib installed_files) (\<lambda>_. True) 1000 ''Test'' mkGameServer = Inr (Some g) \<and>
       gs_port g \<noteq> None \<and> clients g = []"
proof -
  obtain g where g: "setupConfig (jval_lib installed_files) (\<lambda>_. True) 1000 ''Test'' mkGameServer = Inr (Some g)"
    using installed_setup by blast
  from setupConfig_establishes [OF g] g show ?thesis by (auto simp: mkGameServer_def)
qed

theorem setupConfig_returns_witness:
  "\<exists>r. setupConfig (jval_lib installed_files) (\<lambda>_. False) 1 ''Chess'' mkGameServer = Inr r"
  by (rule setupConfig_returns [OF jval_types jval_throws jval_nesting]) (simp add: installed_files_def)

end
