(* ===== verification/Rule_Effects.thy ===== *)
theory Rule_Effects
  imports Rule_Semantics
begin

text \<open>
  What a list of rules adds up to. A reference semantics counts, for every variable, what the \<open>AddRule\<close>s
  add to it, over all players a \<open>forEach\<close> binds at any depth, and collects the lines that are logged. It
  knows no order of players, no scope variables set and unset, and no arithmetic of 32 bits. Whenever an
  execution succeeds, it has done exactly that.
\<close>

section \<open>The reference semantics\<close>

text \<open>The state with \<open>e\<close> bound; only its scope is looked at.\<close>

definition bound_to :: "GameState \<Rightarrow> VariableKey \<Rightarrow> PlayerID \<Rightarrow> GameState" where
  "bound_to gs e p = gs\<lparr>activeScopeVariables := (e, p) # activeScopeVariables gs\<rparr>"

text \<open>
  What a list of rules adds to a variable, when an addition of \<open>k\<close> counts for \<open>w k\<close>. An input rule never
  succeeds; loops, which the parser does not make, are not counted.
\<close>

fun tally :: "(int32 \<Rightarrow> int) \<Rightarrow> PlayerID set \<Rightarrow> GameState \<Rightarrow> rule \<Rightarrow> location \<Rightarrow> int"
and tallies :: "(int32 \<Rightarrow> int) \<Rightarrow> PlayerID set \<Rightarrow> GameState \<Rightarrow> rule list \<Rightarrow> location \<Rightarrow> int" where
  "tally w P gs (AddRule t k) l = (if resolve gs t = Inr l then w k else 0)"
| "tally w P gs (GlobalMessageRule m) l = 0"
| "tally w P gs (LoopRule c rs) l = 0"
| "tally w P gs (InputTextRule u p v) l = 0"
| "tally w P gs (ForEachRule n e rs) l = (\<Sum>p\<in>P. tallies w P (bound_to gs e p) rs l)"
| "tallies w P gs [] l = 0"
| "tallies w P gs (r # rs) l = tally w P gs r l + tallies w P gs rs l"

abbreviation effect :: "PlayerID set \<Rightarrow> GameState \<Rightarrow> rule \<Rightarrow> location \<Rightarrow> int" where
  "effect \<equiv> tally sint"

abbreviation effects :: "PlayerID set \<Rightarrow> GameState \<Rightarrow> rule list \<Rightarrow> location \<Rightarrow> int" where
  "effects \<equiv> tallies sint"

fun lines :: "nat \<Rightarrow> rule \<Rightarrow> string list"
and liness :: "nat \<Rightarrow> rule list \<Rightarrow> string list" where
  "lines n (AddRule t k) = []"
| "lines n (GlobalMessageRule m) = [''Msg: '' @ m]"
| "lines n (LoopRule c rs) = []"
| "lines n (InputTextRule u p v) = []"
| "lines n (ForEachRule l e rs) = concat (replicate n (liness n rs))"
| "liness n [] = []"
| "liness n (r # rs) = lines n r @ liness n rs"

text \<open>\<open>st'\<close> is \<open>st\<close> with \<open>d\<close> added to the variables and \<open>ls\<close> to the log.\<close>

definition shifted :: "(location \<Rightarrow> int) \<Rightarrow> string list \<Rightarrow> ExecState \<Rightarrow> ExecState \<Rightarrow> bool" where
  "shifted d ls st st' \<longleftrightarrow>
     (\<forall>l. map_option sint (store (game st') l) = map_option (\<lambda>u. sint u + d l) (store (game st) l)) \<and>
     messages st' = messages st @ ls"

lemma shifted_refl: "shifted (\<lambda>l. 0) [] st st"
  by (simp add: shifted_def)

lemma shifted_trans:
  assumes "shifted d1 ls1 s t" "shifted d2 ls2 t u"
  shows "shifted (\<lambda>l. d1 l + d2 l) (ls1 @ ls2) s u"
proof -
  have "map_option sint (store (game u) l) = map_option (\<lambda>x. sint x + (d1 l + d2 l)) (store (game s) l)" for l
  proof -
    note step = assms [unfolded shifted_def, THEN conjunct1, rule_format, of l]
    show ?thesis using step by (cases "store (game s) l"; cases "store (game t) l") auto
  qed
  then show ?thesis using assms by (simp add: shifted_def)
qed

lemma shifted_cong:
  assumes "shifted d ls s t" "store (game s') = store (game s)" "store (game t') = store (game t)"
    "messages s' = messages s" "messages t' = messages t"
  shows "shifted d ls s' t'"
  using assms by (simp add: shifted_def)

lemma scope_bound_to [simp]: "scope (bound_to gs e p) = (scope gs)(e \<mapsto> p)"
  by (simp add: bound_to_def scope_def)

lemma resolve_debug_target: "resolve gs ''debug_target'' = Inr (GlobalVar ''debug_target'')"
  by (simp add: resolve_global debug_target_global)

lemma tally_scope_at:
  "scope gs = scope gs' \<Longrightarrow> tally w P gs r l = tally w P gs' r l"
  "scope gs = scope gs' \<Longrightarrow> tallies w P gs rs l = tallies w P gs' rs l"
proof (induction w P gs r l and w P gs rs l arbitrary: gs' and gs' rule: tally_tallies.induct)
  case (1 w P gs t k l)
  then show ?case using resolve_scope [of gs gs' t] by simp
next
  case (5 w P gs n e rs l)
  have "tallies w P (bound_to gs e p) rs l = tallies w P (bound_to gs' e p) rs l" if "p \<in> P" for p
    by (rule 5) (use that 5(2) in simp_all)
  then show ?case by simp
next
  case (7 w P gs r rs l)
  show ?case using 7(1) [OF 7(3)] 7(2) [OF 7(3)] by simp
qed auto

lemma tally_scope:
  "scope gs = scope gs' \<Longrightarrow> tally w P gs r = tally w P gs' r"
  "scope gs = scope gs' \<Longrightarrow> tallies w P gs rs = tallies w P gs' rs"
  using tally_scope_at by (simp_all add: fun_eq_iff)

section \<open>Executions that succeed\<close>

lemma shifted_add:
  assumes "executeAddRule t k st = Inr (RuleSuccess, st')"
  shows "shifted (effect P (game st) (AddRule t k)) [] st st'"
proof -
  obtain l u w where l: "resolve (game st) t = Inr l" "store (game st) l = Some u" "add_int u k = Inr w"
    "st' = st\<lparr>game := snd (put_location (game st) l w)\<rparr>"
    using assms by (auto simp: executeAddRule_spec bindR_iffs split: option.splits)
  then show ?thesis
    using store_put_location_Some [OF l(2), of w] add_int_sint [OF l(3)]
    by (auto simp: shifted_def option.map_ident_strong)
qed

lemma forEach_success:
  assumes "executeForEach ord n e rules (pid # pids) st = Inr (RuleSuccess, st')" "gs_wf (game st)"
  obtains gs s gs' where
    "setActiveScopeVariable (game st) e pid = (SetSuccess, gs)"
    "executeRules ord n rules (st\<lparr>game := gs\<rparr>) = Inr (RuleSuccess, s)"
    "unsetActiveScopeVariable (game s) e = (SetSuccess, gs')"
    "executeForEach ord n e rules pids (s\<lparr>game := gs'\<rparr>) = Inr (RuleSuccess, st')"
    "gs_wf gs" "players gs = players (game st)" "store gs = store (game st)"
    "scope gs = (scope (game st))(e \<mapsto> pid)" "scope (game st) e = None"
    "gs_wf gs'" "players gs' = players (game st)" "store gs' = store (game s)" "scope gs' = scope (game st)"
    "dom (store gs') = dom (store (game st))"
proof -
  obtain gs where gs: "setActiveScopeVariable (game st) e pid = (SetSuccess, gs)"
    using assms(1) by (cases "setActiveScopeVariable (game st) e pid"; cases "fst (setActiveScopeVariable (game st) e pid)") auto
  obtain s where s: "executeRules ord n rules (st\<lparr>game := gs\<rparr>) = Inr (RuleSuccess, s)"
  proof (cases "executeRules ord n rules (st\<lparr>game := gs\<rparr>)" rule: andThen_cases)
  qed (use assms(1) gs that in auto)
  obtain gs' where gs': "unsetActiveScopeVariable (game s) e = (SetSuccess, gs')"
    "executeForEach ord n e rules pids (s\<lparr>game := gs'\<rparr>) = Inr (RuleSuccess, st')"
    using assms(1) gs s
    by (cases "unsetActiveScopeVariable (game s) e"; cases "fst (unsetActiveScopeVariable (game s) e)") auto
  note set = setActive_spec [OF gs]
  note unset = unsetActive_spec [OF gs'(1)]
  note fr = success_frame [OF execute_ok(2) s]
  have wf: "gs_wf gs" "gs_wf gs'" using gs_wf_scope gs gs'(1) assms(2) fr(1) by auto
  have fr2: "players (game s) = players gs" "dom (store (game s)) = dom (store gs)"
    using execute_ok(2) [of "st\<lparr>game := gs\<rparr>" ord n rules] s by (simp_all add: exec_frame_def)
  have "scope gs' = scope (game st)" using unset fr(3) set by (simp add: fun_upd_idem)
  with that [OF gs s gs'] wf fr2 set unset show thesis by simp
qed

lemma success_effect:
  "iteration_order ord \<Longrightarrow> loop_free r \<Longrightarrow> gs_wf (game st) \<Longrightarrow> executeRule ord n r st = Inr (RuleSuccess, st') \<Longrightarrow>
     shifted (effect (players (game st)) (game st) r) (lines (card (players (game st))) r) st st'"
  "iteration_order ord \<Longrightarrow> list_all loop_free rs \<Longrightarrow> gs_wf (game st) \<Longrightarrow>
     executeRules ord n rs st = Inr (RuleSuccess, st') \<Longrightarrow>
     shifted (effects (players (game st)) (game st) rs) (liness (card (players (game st))) rs) st st'"
  "True"
  "iteration_order ord \<Longrightarrow> list_all loop_free rs \<Longrightarrow> gs_wf (game st) \<Longrightarrow>
     executeForEach ord n e rs ids st = Inr (RuleSuccess, st') \<Longrightarrow>
     shifted (\<lambda>l. \<Sum>p\<leftarrow>ids. effects (players (game st)) (bound_to (game st) e p) rs l)
       (concat (replicate (length ids) (liness (card (players (game st))) rs))) st st'"
proof (induction ord n r st and ord n rs st and ord n rs st and ord n e rs ids st
    arbitrary: st' and st' and and st'
    rule: executeRule_executeRules_executeLoop_executeForEach.induct)
  case (1 ord n t v st)
  then show ?case using shifted_add by (simp del: tally.simps)
next
  case (2 ord n m st)
  then show ?case by (auto simp: executeGlobalMessageRule_def shifted_def)
next
  case (4 ord n u p v st)
  then show ?case using input_never_succeeds by fastforce
next
  case (5 ord n l e rules st)
  show ?case
  proof (rule getPlayerIDs_spec [OF 5(2,4)])
    fix ids assume ids: "getPlayerIDs ord (game st) = Inr ids" "distinct ids" "set ids = players (game st)"
    then have l: "l = ''players''" "executeForEach ord n e rules ids st = Inr (RuleSuccess, st')"
      using 5(5) by (auto split: if_splits)
    have "shifted (\<lambda>l. \<Sum>p\<leftarrow>ids. effects (players (game st)) (bound_to (game st) e p) rules l)
       (concat (replicate (length ids) (liness (card (players (game st))) rules))) st st'"
      by (rule 5(1)) (use 5 ids l in auto)
    moreover have "(\<Sum>p\<leftarrow>ids. f p) = (\<Sum>p\<in>players (game st). f p)" for f :: "PlayerID \<Rightarrow> int"
      using sum.distinct_set_conv_list [OF ids(2), of f] ids(3) by simp
    moreover have "length ids = card (players (game st))" using ids(2,3) distinct_card by metis
    ultimately show ?thesis by (simp add: shifted_def)
  qed
next
  case (6 ord n st)
  then show ?case by (simp add: shifted_def option.map_ident)
next
  case (7 ord n r rs st)
  obtain s where s: "executeRule ord n r st = Inr (RuleSuccess, s)" "executeRules ord n rs s = Inr (RuleSuccess, st')"
    using 7(6) by (auto simp: andThen_iffs)
  note fr = success_frame [OF execute_ok(1) s(1)]
  have p: "players (game s) = players (game st)"
    using execute_ok(1) [of st ord n r] s(1) by (simp add: exec_frame_def)
  have "shifted (effect (players (game st)) (game st) r) (lines (card (players (game st))) r) st s"
    using 7(1) [OF 7(3) _ 7(5) s(1)] 7(4) by simp
  moreover have "shifted (effects (players (game s)) (game s) rs) (liness (card (players (game s))) rs) s st'"
    using 7(2) [OF s(1) 7(3) _ fr(1) [OF 7(5)] s(2)] 7(4) by simp
  ultimately show ?case
    using shifted_trans tally_scope(2) [OF fr(3)] p by (fastforce simp: fun_eq_iff)
next
  case (9 ord n e rs st)
  then show ?case by (simp add: shifted_def option.map_ident)
next
  case (10 ord n e rules pid pids st)
  let ?P = "players (game st)"
  from 10(6,5) show ?case
  proof (rule forEach_success)
    fix gs s gs'
    assume a: "setActiveScopeVariable (game st) e pid = (SetSuccess, gs)"
      "executeRules ord n rules (st\<lparr>game := gs\<rparr>) = Inr (RuleSuccess, s)"
      "unsetActiveScopeVariable (game s) e = (SetSuccess, gs')"
      "executeForEach ord n e rules pids (s\<lparr>game := gs'\<rparr>) = Inr (RuleSuccess, st')"
      and b: "gs_wf gs" "players gs = ?P" "store gs = store (game st)" "scope gs = (scope (game st))(e \<mapsto> pid)"
        "gs_wf gs'" "players gs' = ?P" "store gs' = store (game s)" "scope gs' = scope (game st)"
    have "shifted (effects (players gs) gs rules) (liness (card (players gs)) rules) (st\<lparr>game := gs\<rparr>) s"
      using 10(1) [OF a(1) [symmetric] refl 10(3,4) _ a(2)] b(1) by simp
    moreover have "effects ?P gs rules = effects ?P (bound_to (game st) e pid) rules"
      by (rule tally_scope) (simp add: b)
    ultimately have "shifted (effects ?P (bound_to (game st) e pid) rules) (liness (card ?P) rules) st (s\<lparr>game := gs'\<rparr>)"
      using b by (auto elim: shifted_cong)
    moreover have "shifted (\<lambda>l. \<Sum>p\<leftarrow>pids. effects (players gs') (bound_to gs' e p) rules l)
        (concat (replicate (length pids) (liness (card (players gs')) rules))) (s\<lparr>game := gs'\<rparr>) st'"
      using 10(2) [OF a(1) [symmetric] refl a(2) a(3) [symmetric] refl 10(3,4) _ a(4)] b(5) by simp
    moreover have "effects ?P (bound_to gs' e p) rules = effects ?P (bound_to (game st) e p) rules" for p
      by (rule tally_scope) (simp add: b)
    ultimately show ?thesis using shifted_trans b(6) by fastforce
  qed
qed auto

section \<open>Rules that can be played\<close>

text \<open>
  Every addition, whatever the players bound by the loops around it, names a variable of \<open>D\<close>, every
  \<open>foreach\<close> is over the players and binds a fresh element, and nobody is asked for input.
\<close>

fun playable :: "PlayerID set \<Rightarrow> location set \<Rightarrow> GameState \<Rightarrow> rule \<Rightarrow> bool"
and playables :: "PlayerID set \<Rightarrow> location set \<Rightarrow> GameState \<Rightarrow> rule list \<Rightarrow> bool" where
  "playable P D gs (AddRule t k) \<longleftrightarrow> (case resolve gs t of Inl e \<Rightarrow> False | Inr l \<Rightarrow> l \<in> D)"
| "playable P D gs (GlobalMessageRule m) \<longleftrightarrow> True"
| "playable P D gs (LoopRule c rs) \<longleftrightarrow> False"
| "playable P D gs (InputTextRule u p v) \<longleftrightarrow> False"
| "playable P D gs (ForEachRule n e rs) \<longleftrightarrow>
     n = ''players'' \<and> (\<forall>p\<in>P. scope gs e = None \<and> playables P D (bound_to gs e p) rs)"
| "playables P D gs [] \<longleftrightarrow> True"
| "playables P D gs (r # rs) \<longleftrightarrow> playable P D gs r \<and> playables P D gs rs"

lemma playable_scope:
  "scope gs = scope gs' \<Longrightarrow> playable P D gs r \<longleftrightarrow> playable P D gs' r"
  "scope gs = scope gs' \<Longrightarrow> playables P D gs rs \<longleftrightarrow> playables P D gs' rs"
proof (induction P D gs r and P D gs rs arbitrary: gs' and gs' rule: playable_playables.induct)
  case (1 P D gs t k)
  then show ?case using resolve_scope [of gs gs' t] by simp
next
  case (5 P D gs n e rs)
  have "playables P D (bound_to gs e p) rs \<longleftrightarrow> playables P D (bound_to gs' e p) rs" if "p \<in> P" for p
    by (rule 5(1)) (use that 5(2) in simp_all)
  with 5(2) show ?case by simp
next
  case (7 P D gs r rs)
  show ?case using 7(1) [OF 7(3)] 7(2) [OF 7(3)] by simp
qed auto

text \<open>Rules that succeeded could be played.\<close>

lemma success_playable:
  "iteration_order ord \<Longrightarrow> loop_free r \<Longrightarrow> gs_wf (game st) \<Longrightarrow> executeRule ord n r st = Inr (RuleSuccess, st') \<Longrightarrow>
     playable (players (game st)) (dom (store (game st))) (game st) r"
  "iteration_order ord \<Longrightarrow> list_all loop_free rs \<Longrightarrow> gs_wf (game st) \<Longrightarrow>
     executeRules ord n rs st = Inr (RuleSuccess, st') \<Longrightarrow>
     playables (players (game st)) (dom (store (game st))) (game st) rs"
  "True"
  "iteration_order ord \<Longrightarrow> list_all loop_free rs \<Longrightarrow> gs_wf (game st) \<Longrightarrow>
     executeForEach ord n e rs ids st = Inr (RuleSuccess, st') \<Longrightarrow>
     \<forall>p\<in>set ids. scope (game st) e = None \<and>
       playables (players (game st)) (dom (store (game st))) (bound_to (game st) e p) rs"
proof (induction ord n r st and ord n rs st and ord n rs st and ord n e rs ids st
    arbitrary: st' and st' and and st'
    rule: executeRule_executeRules_executeLoop_executeForEach.induct)
  case (1 ord n t v st)
  then show ?case
    by (auto simp: executeAddRule_spec bindR_iffs simp del: store.simps split: option.splits)
next
  case (4 ord n u p v st)
  then show ?case using input_never_succeeds by fastforce
next
  case (5 ord n l e rules st)
  show ?case
  proof (rule getPlayerIDs_spec [OF 5(2,4)])
    fix ids assume ids: "getPlayerIDs ord (game st) = Inr ids" "distinct ids" "set ids = players (game st)"
    then have l: "l = ''players''" "executeForEach ord n e rules ids st = Inr (RuleSuccess, st')"
      using 5(5) by (auto split: if_splits)
    have "\<forall>p\<in>set ids. scope (game st) e = None \<and>
        playables (players (game st)) (dom (store (game st))) (bound_to (game st) e p) rules"
      by (rule 5(1)) (use 5 ids l in auto)
    with l(1) ids(3) show ?thesis by simp
  qed
next
  case (7 ord n r rs st)
  obtain s where s: "executeRule ord n r st = Inr (RuleSuccess, s)" "executeRules ord n rs s = Inr (RuleSuccess, st')"
    using 7(6) by (auto simp: andThen_iffs)
  note fr = success_frame [OF execute_ok(1) s(1)]
  have p: "players (game s) = players (game st)" "dom (store (game s)) = dom (store (game st))"
    using execute_ok(1) [of st ord n r] s(1) by (simp_all add: exec_frame_def)
  have "playables (players (game s)) (dom (store (game s))) (game s) rs"
    using 7(2) [OF s(1) 7(3) _ fr(1) [OF 7(5)] s(2)] 7(4) by simp
  then show ?case
    using 7(1) [OF 7(3) _ 7(5) s(1)] 7(4) playable_scope(2) [OF fr(3)] p by simp
next
  case (10 ord n e rules pid pids st)
  from 10(6,5) show ?case
  proof (rule forEach_success)
    fix gs s gs'
    assume a: "setActiveScopeVariable (game st) e pid = (SetSuccess, gs)"
      "executeRules ord n rules (st\<lparr>game := gs\<rparr>) = Inr (RuleSuccess, s)"
      "unsetActiveScopeVariable (game s) e = (SetSuccess, gs')"
      "executeForEach ord n e rules pids (s\<lparr>game := gs'\<rparr>) = Inr (RuleSuccess, st')"
      and b: "gs_wf gs" "players gs = players (game st)" "store gs = store (game st)"
        "scope gs = (scope (game st))(e \<mapsto> pid)" "scope (game st) e = None" "gs_wf gs'"
        "players gs' = players (game st)" "scope gs' = scope (game st)" "dom (store gs') = dom (store (game st))"
    have "playables (players gs) (dom (store gs)) gs rules"
      using 10(1) [OF a(1) [symmetric] refl 10(3,4) _ a(2)] b(1) by simp
    moreover have "playables P D gs rules \<longleftrightarrow> playables P D (bound_to (game st) e pid) rules" for P D
      by (rule playable_scope) (simp add: b)
    moreover have "\<forall>p\<in>set pids. scope gs' e = None \<and>
        playables (players gs') (dom (store gs')) (bound_to gs' e p) rules"
      using 10(2) [OF a(1) [symmetric] refl a(2) a(3) [symmetric] refl 10(3,4) _ a(4)] b(6) by simp
    moreover have "playables P D (bound_to gs' e p) rules \<longleftrightarrow> playables P D (bound_to (game st) e p) rules" for P D p
      by (rule playable_scope) (simp add: b)
    ultimately show ?thesis using b by simp
  qed
qed auto

section \<open>Room for the additions\<close>

text \<open>What the additions can take a variable up and down by, on the way, whatever their order.\<close>

abbreviation gains :: "PlayerID set \<Rightarrow> GameState \<Rightarrow> rule list \<Rightarrow> location \<Rightarrow> int" where
  "gains \<equiv> tallies (\<lambda>k. max 0 (sint k))"

abbreviation losses :: "PlayerID set \<Rightarrow> GameState \<Rightarrow> rule list \<Rightarrow> location \<Rightarrow> int" where
  "losses \<equiv> tallies (\<lambda>k. min 0 (sint k))"

definition room_for :: "GameState \<Rightarrow> (location \<Rightarrow> int) \<Rightarrow> (location \<Rightarrow> int) \<Rightarrow> bool" where
  "room_for gs lo hi \<longleftrightarrow>
     (\<forall>l u. store gs l = Some u \<longrightarrow> - (2 ^ 31) \<le> sint u + lo l \<and> sint u + hi l < 2 ^ 31)"

lemma tally_mono:
  "(\<And>k. w k \<le> w' k) \<Longrightarrow> tally w P gs r l \<le> tally w' P gs r l"
  "(\<And>k. w k \<le> w' k) \<Longrightarrow> tallies w P gs rs l \<le> tallies w' P gs rs l"
  by (induction w P gs r l and w P gs rs l rule: tally_tallies.induct) (auto intro: sum_mono add_mono)

lemma tally_zero: "tally (\<lambda>k. 0) P gs r l = 0" "tallies (\<lambda>k. 0) P gs rs l = 0"
  by (induction "\<lambda>k :: int32. 0 :: int" P gs r l and "\<lambda>k :: int32. 0 :: int" P gs rs l rule: tally_tallies.induct) simp_all

lemma tally_bounds:
  "tally (\<lambda>k. min 0 (sint k)) P gs r l \<le> effect P gs r l" "effect P gs r l \<le> tally (\<lambda>k. max 0 (sint k)) P gs r l"
  "losses P gs rs l \<le> effects P gs rs l" "effects P gs rs l \<le> gains P gs rs l"
  "losses P gs rs l \<le> 0" "0 \<le> gains P gs rs l"
  using tally_mono(2) [of "\<lambda>k. min 0 (sint k)" "\<lambda>k. 0" P gs rs l] tally_mono(2) [of "\<lambda>k. 0" "\<lambda>k. max 0 (sint k)" P gs rs l]
  by (simp_all add: tally_mono tally_zero)

lemma room_for_weaken:
  "room_for gs lo hi \<Longrightarrow> (\<And>l. lo l \<le> lo' l) \<Longrightarrow> (\<And>l. hi' l \<le> hi l) \<Longrightarrow> room_for gs lo' hi'"
  unfolding room_for_def by (meson add_mono le_less_trans order_refl order_trans)

lemma room_for_shifted:
  assumes "shifted d ls st st'" "room_for (game st) (\<lambda>l. lo l + lo' l) (\<lambda>l. hi l + hi' l)"
    and "\<And>l. lo l \<le> d l" "\<And>l. d l \<le> hi l"
  shows "room_for (game st') lo' hi'"
  unfolding room_for_def
proof (intro allI impI)
  fix l u assume u: "store (game st') l = Some u"
  have "map_option sint (store (game st') l) = map_option (\<lambda>v. sint v + d l) (store (game st) l)"
    using assms(1) by (simp add: shifted_def)
  then obtain v where "store (game st) l = Some v" "sint u = sint v + d l"
    using u by (cases "store (game st) l") (auto simp del: store.simps)
  with assms(2-4) [unfolded room_for_def] assms(3,4) [of l]
  show "- (2 ^ 31) \<le> sint u + lo' l \<and> sint u + hi' l < 2 ^ 31" by (smt (verit))
qed

section \<open>They succeed\<close>

lemma playable_success:
  "iteration_order ord \<Longrightarrow> loop_free r \<Longrightarrow> gs_wf (game st) \<Longrightarrow> playable (players (game st)) (dom (store (game st))) (game st) r \<Longrightarrow>
     room_for (game st) (losses (players (game st)) (game st) [r]) (gains (players (game st)) (game st) [r]) \<Longrightarrow>
     \<exists>st'. executeRule ord n r st = Inr (RuleSuccess, st')"
  "iteration_order ord \<Longrightarrow> list_all loop_free rs \<Longrightarrow> gs_wf (game st) \<Longrightarrow> playables (players (game st)) (dom (store (game st))) (game st) rs \<Longrightarrow>
     room_for (game st) (losses (players (game st)) (game st) rs) (gains (players (game st)) (game st) rs) \<Longrightarrow>
     \<exists>st'. executeRules ord n rs st = Inr (RuleSuccess, st')"
  "True"
  "iteration_order ord \<Longrightarrow> list_all loop_free rs \<Longrightarrow> gs_wf (game st) \<Longrightarrow>
     \<forall>p\<in>set ids. scope (game st) e = None \<and>
       playables (players (game st)) (dom (store (game st))) (bound_to (game st) e p) rs \<Longrightarrow>
     room_for (game st) (\<lambda>l. \<Sum>p\<leftarrow>ids. losses (players (game st)) (bound_to (game st) e p) rs l)
       (\<lambda>l. \<Sum>p\<leftarrow>ids. gains (players (game st)) (bound_to (game st) e p) rs l) \<Longrightarrow>
     \<exists>st'. executeForEach ord n e rs ids st = Inr (RuleSuccess, st')"
proof (induction ord n r st and ord n rs st and ord n rs st and ord n e rs ids st
    rule: executeRule_executeRules_executeLoop_executeForEach.induct)
  case (1 ord n t k st)
  then obtain l u where l: "resolve (game st) t = Inr l" "store (game st) l = Some u"
    by (auto simp: dom_def simp del: store.simps split: sum.splits)
  have "- (2 ^ 31) \<le> sint u + min 0 (sint k) \<and> sint u + max 0 (sint k) < 2 ^ 31"
    using 1(5) [unfolded room_for_def, rule_format, OF l(2)] l(1) by simp
  then have "add_int u k = Inr (u + k)"
    using sint_range_size [of u] by (intro add_int_total) (auto simp: min_def max_def word_size split: if_splits)
  with l show ?case by (simp add: executeAddRule_spec del: store.simps)
next
  case (2 ord n m st)
  then show ?case by (simp add: executeGlobalMessageRule_def)
next
  case (5 ord n l e rules st)
  show ?case
  proof (rule getPlayerIDs_spec [OF 5(2,4)])
    fix ids assume ids: "getPlayerIDs ord (game st) = Inr ids" "distinct ids" "set ids = players (game st)"
    have sum: "(\<Sum>p\<leftarrow>ids. f p) = (\<Sum>p\<in>players (game st). f p)" for f :: "PlayerID \<Rightarrow> int"
      using sum.distinct_set_conv_list [OF ids(2), of f] ids(3) by simp
    have "\<exists>st'. executeForEach ord n e rules ids st = Inr (RuleSuccess, st')"
      by (rule 5(1)) (use 5 ids sum in simp_all)
    then show ?thesis using 5(5) ids by auto
  qed
next
  case (7 ord n r rs st)
  let ?P = "players (game st)" and ?gs = "game st"
  have room: "room_for ?gs (\<lambda>l. tally (\<lambda>k. min 0 (sint k)) ?P ?gs r l + losses ?P ?gs rs l)
      (\<lambda>l. tally (\<lambda>k. max 0 (sint k)) ?P ?gs r l + gains ?P ?gs rs l)"
    using 7(7) by (rule room_for_weaken) simp_all
  have "room_for ?gs (tally (\<lambda>k. min 0 (sint k)) ?P ?gs r) (tally (\<lambda>k. max 0 (sint k)) ?P ?gs r)"
    using room by (rule room_for_weaken) (simp_all add: tally_bounds)
  then obtain s where s: "executeRule ord n r st = Inr (RuleSuccess, s)" using 7(1) [OF 7(3) _ 7(5)] 7(4,6) by auto
  note fr = success_frame [OF execute_ok(1) s]
  have p: "players (game s) = ?P" "dom (store (game s)) = dom (store ?gs)"
    using execute_ok(1) [of st ord n r] s by (simp_all add: exec_frame_def)
  have "shifted (effect ?P ?gs r) (lines (card ?P) r) st s" using success_effect(1) [OF 7(3) _ 7(5) s] 7(4) by simp
  from room_for_shifted [OF this room] have "room_for (game s) (losses ?P ?gs rs) (gains ?P ?gs rs)"
    by (simp add: tally_bounds)
  then have "\<exists>st'. executeRules ord n rs s = Inr (RuleSuccess, st')"
    using 7(2) [OF s 7(3) _ fr(1) [OF 7(5)]] 7(4,6) p playable_scope(2) [OF fr(3)] tally_scope(2) [OF fr(3)] by simp
  with s show ?case by simp
next
  case (10 ord n e rules pid pids st)
  let ?P = "players (game st)" and ?gs = "game st"
  have ok: "scope ?gs e = None" "playables ?P (dom (store ?gs)) (bound_to ?gs e pid) rules" using 10(6) by simp_all
  obtain gs where gs: "setActiveScopeVariable ?gs e pid = (SetSuccess, gs)" using setActive_ok [OF ok(1)] by blast
  note set = setActive_spec [OF gs]
  have b: "scope gs = scope (bound_to ?gs e pid)" using set by simp
  have room: "room_for gs (\<lambda>l. losses ?P gs rules l + (\<Sum>p\<leftarrow>pids. losses ?P (bound_to ?gs e p) rules l))
      (\<lambda>l. gains ?P gs rules l + (\<Sum>p\<leftarrow>pids. gains ?P (bound_to ?gs e p) rules l))"
    using 10(7) set by (simp add: room_for_def tally_scope(2) [OF b] del: store.simps)
  have "room_for gs (losses ?P gs rules) (gains ?P gs rules)"
    using room by (rule room_for_weaken) (auto intro!: sum_list_nonneg sum_list_nonpos simp: tally_bounds)
  then obtain s where s: "executeRules ord n rules (st\<lparr>game := gs\<rparr>) = Inr (RuleSuccess, s)"
    using 10(1) [OF gs [symmetric] refl 10(3,4)] gs_wf_scope(1) [OF gs 10(5)] ok(2) playable_scope(2) [OF b] set by auto
  note fr = success_frame [OF execute_ok(2) s]
  have p: "players (game s) = ?P" "dom (store (game s)) = dom (store ?gs)"
    using execute_ok(2) [of "st\<lparr>game := gs\<rparr>" ord n rules] s set by (simp_all add: exec_frame_def)
  obtain gs' where gs': "unsetActiveScopeVariable (game s) e = (SetSuccess, gs')"
    using unsetActive_ok [of "game s" e pid] fr(3) set by auto
  note unset = unsetActive_spec [OF gs']
  have wf: "gs_wf gs'" using gs_wf_scope(2) [OF gs'] fr(1) gs_wf_scope(1) [OF gs 10(5)] by simp
  have sc: "scope gs' = scope ?gs" using unset fr(3) set ok(1) by (simp add: fun_upd_idem)
  have same: "scope (bound_to gs' e q) = scope (bound_to ?gs e q)" for q by (simp add: sc)
  have "shifted (effects ?P gs rules) (liness (card ?P) rules) (st\<lparr>game := gs\<rparr>) s"
    using success_effect(2) [OF 10(3,4) _ s] gs_wf_scope(1) [OF gs 10(5)] set by simp
  then have "shifted (effects ?P gs rules) (liness (card ?P) rules) (st\<lparr>game := gs\<rparr>) (s\<lparr>game := gs'\<rparr>)"
    using unset by (auto elim: shifted_cong)
  from room_for_shifted [OF this] room
  have "room_for gs' (\<lambda>l. \<Sum>p\<leftarrow>pids. losses ?P (bound_to ?gs e p) rules l) (\<lambda>l. \<Sum>p\<leftarrow>pids. gains ?P (bound_to ?gs e p) rules l)"
    by (simp add: tally_bounds)
  then have "\<exists>st'. executeForEach ord n e rules pids (s\<lparr>game := gs'\<rparr>) = Inr (RuleSuccess, st')"
    using 10(2) [OF gs [symmetric] refl s gs' [symmetric] refl 10(3,4)] wf p unset sc 10(6)
      playable_scope(2) [OF same] tally_scope(2) [OF same]
    by simp
  with gs s gs' show ?case by simp
qed auto

section \<open>Properties\<close>

text \<open>
  C5. What rules add up to: whenever a list of rules without a loop succeeds, every variable has changed by
  exactly the sum the reference semantics counts for it, without wrapping around, and the log has grown by
  exactly its lines, whatever the order in which the players were visited.
\<close>

theorem execution_adds_up:
  assumes "iteration_order ord" "list_all loop_free rs" "gs_wf (game st)"
    and "executeRules ord n rs st = Inr (RuleSuccess, st')"
  shows "(case store (game st) l of
       None \<Rightarrow> store (game st') l = None
     | Some u \<Rightarrow> \<exists>w. store (game st') l = Some w \<and> sint w = sint u + effects (players (game st)) (game st) rs l) \<and>
    messages st' = messages st @ liness (card (players (game st))) rs"
proof -
  note s = success_effect(2) [OF assms]
  then have "map_option sint (store (game st') l) =
      map_option (\<lambda>u. sint u + effects (players (game st)) (game st) rs l) (store (game st) l)"
    by (simp only: shifted_def)
  moreover have "messages st' = messages st @ liness (card (players (game st))) rs"
    using s by (simp only: shifted_def)
  ultimately show ?thesis by (cases "store (game st) l"; cases "store (game st') l") auto
qed

text \<open>In a round for every player, every player scores.\<close>

definition rounds :: "rule list" where
  "rounds = [ForEachRule ''players'' ''e'' [GlobalMessageRule ''round'',
     ForEachRule ''players'' ''f'' [AddRule (scoped_name ''f'' ''score'') 1]]]"

lemma two_players_free: "scope two_players ''e'' = None" "scope two_players ''f'' = None" "players two_players = {7, 8}"
  by (code_simp, code_simp, simp add: two_players_def)

lemma rounds_names:
  "resolve (bound_to (bound_to two_players ''e'' p) ''f'' q) (scoped_name ''f'' ''score'') = Inr (PlayerVar q ''score'')"
  unfolding scoped_name_def by (rule resolve_scoped) simp_all

lemma two_players_small: "store two_players l = Some u \<Longrightarrow> u = 0 \<or> u = 5"
  by (cases l) (auto simp: two_players_def mkGameState_def um_insert_def um_contains_def split: if_splits)

lemma rounds_room:
  "store two_players l = Some u \<Longrightarrow>
     - (2 ^ 31) \<le> sint u + losses {7, 8} two_players rounds l \<and> sint u + gains {7, 8} two_players rounds l < 2 ^ 31"
  using two_players_small [of l u] by (auto simp: rounds_def rounds_names)

lemma rounds_playable:
  "playables {7, 8} (dom (store two_players)) two_players rounds"
  using two_players_names(2,3) two_players_free
  by (auto simp: rounds_def rounds_names simp del: store.simps)

lemma rounds_succeed:
  assumes "iteration_order ord"
  shows "\<exists>st'. executeRules ord 0 rounds two_players_exec = Inr (RuleSuccess, st')"
proof (rule playable_success(2) [OF assms])
  show "room_for (game two_players_exec) (losses (players (game two_players_exec)) (game two_players_exec) rounds)
      (gains (players (game two_players_exec)) (game two_players_exec) rounds)"
    using rounds_room two_players_free(3) by (simp add: room_for_def two_players_exec_def del: store.simps)
qed (use two_players_wf rounds_playable two_players_free(3) in \<open>simp_all add: two_players_exec_def rounds_def del: playables.simps\<close>)

theorem execution_adds_up_witness:
  "\<exists>st' w. executeRules id 0 rounds two_players_exec = Inr (RuleSuccess, st') \<and>
     store (game st') (PlayerVar 7 ''score'') = Some w \<and> sint w = 7 \<and>
     messages st' = [''Msg: round'', ''Msg: round'']"
proof -
  obtain st' where st': "executeRules id 0 rounds two_players_exec = Inr (RuleSuccess, st')"
    using rounds_succeed [OF iteration_order_id] by blast
  have g: "game two_players_exec = two_players" "messages two_players_exec = []"
    by (simp_all add: two_players_exec_def)
  have "effects {7, 8} two_players rounds (PlayerVar 7 ''score'') = 2"
    by (simp add: rounds_def rounds_names)
  moreover have "liness (card {7 :: PlayerID, 8}) rounds = [''Msg: round'', ''Msg: round'']"
    by (simp add: rounds_def numeral_2_eq_2)
  moreover have "list_all loop_free rounds" by (simp add: rounds_def)
  ultimately show ?thesis
    using execution_adds_up [OF iteration_order_id _ _ st', of "PlayerVar 7 ''score''"]
      two_players_names(2) two_players_wf two_players_free(3) g st' by (auto simp del: store.simps)
qed

text \<open>
  The order in which the standard library walks the map of players does not matter: two executions of a
  list of rules without a loop that differ only in it, and that both succeed, give every variable the same
  value and log the same lines.
\<close>

theorem execution_order_irrelevant:
  assumes "iteration_order ord" "iteration_order ord'" "list_all loop_free rs" "gs_wf (game st)"
    and "executeRules ord n rs st = Inr (RuleSuccess, st1)" "executeRules ord' n' rs st = Inr (RuleSuccess, st2)"
  shows "store (game st1) = store (game st2) \<and> messages st1 = messages st2"
proof -
  have s: "shifted (effects (players (game st)) (game st) rs) (liness (card (players (game st))) rs) st st1"
    "shifted (effects (players (game st)) (game st) rs) (liness (card (players (game st))) rs) st st2"
    using success_effect(2) assms by blast+
  have "map_option sint (store (game st1) l) = map_option sint (store (game st2) l)" for l
    using s unfolding shifted_def by metis
  then have "store (game st1) l = store (game st2) l" for l
    by (cases "store (game st1) l"; cases "store (game st2) l")
       (metis None_eq_map_option_iff, metis option.distinct(1) option.map(1,2), metis option.distinct(1) option.map(1,2),
        metis option.inject option.map(2) signed_word_eqI)
  then show ?thesis using s by (auto simp: shifted_def)
qed

theorem execution_order_irrelevant_witness:
  "\<exists>st1 st2. executeRules id 0 rounds two_players_exec = Inr (RuleSuccess, st1) \<and>
     executeRules rev 0 rounds two_players_exec = Inr (RuleSuccess, st2) \<and> store (game st1) = store (game st2)"
proof -
  obtain st1 st2 where s: "executeRules id 0 rounds two_players_exec = Inr (RuleSuccess, st1)"
    "executeRules rev 0 rounds two_players_exec = Inr (RuleSuccess, st2)"
    using rounds_succeed [OF iteration_order_id] rounds_succeed [OF iteration_order_rev] by blast
  have "list_all loop_free rounds" "gs_wf (game two_players_exec)"
    by (simp_all add: rounds_def two_players_exec_def two_players_wf)
  from execution_order_irrelevant [OF iteration_order_id iteration_order_rev this s] s show ?thesis by blast
qed

text \<open>
  C6. When rules succeed: where no sum of the additions that go up, or of those that go down, can take a
  variable out of the range of \<open>int\<close>, a list of rules without loops succeeds exactly when it is playable,
  that is, every addition names a variable that exists, for every choice of players in the loops around it,
  every loop is over the players and its element is not in use, and nobody is asked for input. It then never
  depends on the order of the players whether a game succeeds.
\<close>

theorem execution_succeeds:
  assumes "iteration_order ord" "list_all loop_free rs" "gs_wf (game st)"
    and "\<And>l u. store (game st) l = Some u \<Longrightarrow>
      - (2 ^ 31) \<le> sint u + losses (players (game st)) (game st) rs l \<and>
      sint u + gains (players (game st)) (game st) rs l < 2 ^ 31"
  shows "(\<exists>st'. executeRules ord n rs st = Inr (RuleSuccess, st')) \<longleftrightarrow>
    playables (players (game st)) (dom (store (game st))) (game st) rs"
proof
  assume "\<exists>st'. executeRules ord n rs st = Inr (RuleSuccess, st')"
  then show "playables (players (game st)) (dom (store (game st))) (game st) rs"
    using success_playable(2) [OF assms(1-3)] by blast
next
  have "room_for (game st) (losses (players (game st)) (game st) rs) (gains (players (game st)) (game st) rs)"
    using assms(4) by (simp add: room_for_def del: store.simps)
  moreover assume "playables (players (game st)) (dom (store (game st))) (game st) rs"
  ultimately show "\<exists>st'. executeRules ord n rs st = Inr (RuleSuccess, st')"
    using playable_success(2) [OF assms(1-3)] by blast
qed


text \<open>The rounds succeed, in any order; with the element of the outer loop in both loops they do not.\<close>

definition shadowing :: "rule list" where
  "shadowing = [ForEachRule ''players'' ''e'' [ForEachRule ''players'' ''e'' []]]"

theorem execution_succeeds_witness:
  "(\<exists>st'. executeRules rev 0 rounds two_players_exec = Inr (RuleSuccess, st')) \<and>
   \<not> (\<exists>st'. executeRules rev 0 shadowing two_players_exec = Inr (RuleSuccess, st'))"
proof -
  have g: "game two_players_exec = two_players" by (simp add: two_players_exec_def)
  have free: "list_all loop_free rounds" "list_all loop_free shadowing" by (simp_all add: rounds_def shadowing_def)
  have wf: "gs_wf (game two_players_exec)" by (simp add: g two_players_wf)
  have none: "losses {7, 8} two_players shadowing l = 0" "gains {7, 8} two_players shadowing l = 0" for l
    by (simp_all add: shadowing_def)
  have "- (2 ^ 31) \<le> sint u + losses {7, 8} two_players shadowing l \<and> sint u + gains {7, 8} two_players shadowing l < 2 ^ 31"
    if "store two_players l = Some u" for l u
    using two_players_small [OF that] none by auto
  then have "(\<exists>st'. executeRules rev 0 shadowing two_players_exec = Inr (RuleSuccess, st')) \<longleftrightarrow>
      playables (players (game two_players_exec)) (dom (store (game two_players_exec))) (game two_players_exec) shadowing"
    by (intro execution_succeeds [OF iteration_order_rev free(2) wf]) (simp only: g two_players_free(3))
  moreover have "(\<exists>st'. executeRules rev 0 rounds two_players_exec = Inr (RuleSuccess, st')) \<longleftrightarrow>
      playables (players (game two_players_exec)) (dom (store (game two_players_exec))) (game two_players_exec) rounds"
    by (rule execution_succeeds [OF iteration_order_rev free(1) wf]) (simp only: g two_players_free(3) rounds_room)
  moreover have "\<not> playables {7, 8} (dom (store two_players)) two_players shadowing"
    by (auto simp: shadowing_def)
  ultimately show ?thesis using rounds_playable by (simp only: g two_players_free(3)) blast
qed

end
