(* ===== verification/Playable_Game.thy ===== *)
theory Playable_Game
  imports Server_Behaviour Rule_Effects
begin

text \<open>
  Any game of the shape the parser delivers, played on the server. A check of the rules alone, against the
  names of the variables, makes them playable for whatever players are connected; the command
  \<open>/execute\<close> then reports to everybody what the reference semantics counts.
\<close>

section \<open>Names that are declared\<close>

text \<open>\<open>G\<close> are the variables of the game, \<open>V\<close> those of every player, \<open>B\<close> the elements of the loops around.\<close>

definition declared :: "VariableKey list \<Rightarrow> VariableKey list \<Rightarrow> VariableKey list \<Rightarrow> string \<Rightarrow> bool" where
  "declared G V B t \<longleftrightarrow>
     t \<in> set G \<and> str_find ''players'' t = None \<or>
     list_ex (\<lambda>e. CHR ''.'' \<notin> set e \<and> list_ex (\<lambda>v. t = scoped_name e v \<and> CHR ''$'' \<notin> set v) V) B"

fun well_named :: "VariableKey list \<Rightarrow> VariableKey list \<Rightarrow> VariableKey list \<Rightarrow> rule \<Rightarrow> bool" where
  "well_named G V B (AddRule t k) \<longleftrightarrow> declared G V B t"
| "well_named G V B (GlobalMessageRule m) \<longleftrightarrow> True"
| "well_named G V B (LoopRule c rs) \<longleftrightarrow> False"
| "well_named G V B (InputTextRule u p v) \<longleftrightarrow> False"
| "well_named G V B (ForEachRule l e rs) \<longleftrightarrow>
     l = ''players'' \<and> e \<notin> set B \<and> list_all (well_named G V (e # B)) rs"

lemma well_named_loop_free: "well_named G V B r \<Longrightarrow> loop_free r"
  by (induction G V B r rule: well_named.induct) (auto simp: list_all_iff)

text \<open>The elements in scope are \<open>B\<close>, bound to players, and the variables of \<open>G\<close> and \<open>V\<close> are in \<open>D\<close>.\<close>

definition in_scope :: "PlayerID set \<Rightarrow> VariableKey list \<Rightarrow> GameState \<Rightarrow> bool" where
  "in_scope P B gs \<longleftrightarrow> dom (scope gs) = set B \<and> ran (scope gs) \<subseteq> P"

definition declares :: "PlayerID set \<Rightarrow> VariableKey list \<Rightarrow> VariableKey list \<Rightarrow> location set \<Rightarrow> bool" where
  "declares P G V D \<longleftrightarrow> GlobalVar ` set G \<subseteq> D \<and> (\<forall>p\<in>P. PlayerVar p ` set V \<subseteq> D)"

lemma declared_resolves:
  assumes "declared G V B t" "in_scope P B gs" "declares P G V D"
  shows "\<exists>l\<in>D. resolve gs t = Inr l"
proof (cases "t \<in> set G \<and> str_find ''players'' t = None")
  case True
  then show ?thesis using assms(3) by (auto simp: resolve_global str_find_None declares_def)
next
  case False
  then obtain e v where t: "e \<in> set B" "v \<in> set V" "t = scoped_name e v" "CHR ''.'' \<notin> set e" "CHR ''$'' \<notin> set v"
    using assms(1) by (auto simp: declared_def list_ex_iff)
  then obtain p where p: "scope gs e = Some p" "p \<in> P" using assms(2) by (fastforce simp: in_scope_def intro: ranI)
  have "resolve gs t = Inr (PlayerVar p v)"
    unfolding t(3) scoped_name_def by (rule resolve_scoped) (use t p in simp_all)
  moreover have "PlayerVar p v \<in> D" using t(2) p(2) assms(3) by (auto simp: declares_def image_subset_iff)
  ultimately show ?thesis by blast
qed

lemma in_scope_bound: "in_scope P B gs \<Longrightarrow> e \<notin> set B \<Longrightarrow> p \<in> P \<Longrightarrow> in_scope P (e # B) (bound_to gs e p)"
  by (auto simp: in_scope_def ran_def)

lemma playables_list: "playables P D gs rs \<longleftrightarrow> list_all (playable P D gs) rs"
  by (induction rs) simp_all

lemma well_named_playable:
  "well_named G V B r \<Longrightarrow> in_scope P B gs \<Longrightarrow> declares P G V D \<Longrightarrow> playable P D gs r"
proof (induction G V B r arbitrary: gs rule: well_named.induct)
  case (1 G V B t k)
  then show ?case using declared_resolves [of G V B t P gs D] by auto
next
  case (5 G V B l e rs)
  have "playables P D (bound_to gs e p) rs" if "p \<in> P" for p
    unfolding playables_list list_all_iff
    using 5 in_scope_bound [OF 5(3) _ that, of e] by (simp add: list_all_iff)
  moreover have "scope gs e = None" using 5(2,3) by (auto simp: in_scope_def)
  ultimately show ?case using 5(2) by simp
qed simp_all

section \<open>Playing a game\<close>

definition start_state :: "GameServer \<Rightarrow> GameState" where
  "start_state g =
     mkGameState (gd_variableMap (gs_gameData g)) (map (\<lambda>u. conn_id (userConnection u)) (users g))
       (gd_perPlayerVariableMap (gs_gameData g))"

definition connected :: "GameServer \<Rightarrow> PlayerID set" where
  "connected g = conn_id ` userConnection ` set (users g)"

definition execution_report :: "GetVariableResult \<Rightarrow> GetVariableResult \<Rightarrow> string" where
  "execution_report before after =
     ''Found cmd: execute (Execute game)'' @ nl @ tab @ ''Executing loaded game'' @ nl @
     debug_line ''BEFORE'' before @ debug_line ''AFTER'' after @ tab @ ''Game finished executing.'' @ nl"

text \<open>The additions cannot take the variable out of the range of \<open>int\<close>, in whatever order they come.\<close>

definition has_room :: "GameServer \<Rightarrow> location \<Rightarrow> VariableValue \<Rightarrow> bool" where
  "has_room g l u \<longleftrightarrow>
     (let gs = start_state g; rs = gd_topLevelRules (gs_gameData g)
      in - (2 ^ 31) \<le> sint u + losses (connected g) gs rs l \<and> sint u + gains (connected g) gs rs l < 2 ^ 31)"

text \<open>A valid game whose rules name declared variables and have room to add to them.\<close>

definition game_fits :: "GameServer \<Rightarrow> bool" where
  "game_fits g \<longleftrightarrow>
     (let gd = gs_gameData g; G = map fst (gd_variableMap gd); V = map fst (gd_perPlayerVariableMap gd)
      in isValid gd \<and> distinct G \<and> list_all (well_named G V []) (gd_topLevelRules gd) \<and>
         list_all (\<lambda>(x, u). has_room g (GlobalVar x) u) (gd_variableMap gd) \<and>
         (\<forall>p\<in>connected g. list_all (\<lambda>(x, u). has_room g (PlayerVar p x) u) (gd_perPlayerVariableMap gd)))"

text \<open>What \<open>debug_target\<close> is after the rules.\<close>

definition debug_after :: "GameServer \<Rightarrow> VariableValue option" where
  "debug_after g =
     map_option (\<lambda>u. u + word_of_int (effects (connected g) (start_state g) (gd_topLevelRules (gs_gameData g))
       (GlobalVar ''debug_target''))) (debug_target (start_state g))"

lemma start_state_fields:
  "players (start_state g) = connected g" "scope (start_state g) = Map.empty"
  "distinct (map fst (gd_variableMap (gs_gameData g))) \<Longrightarrow> gs_wf (start_state g)"
  "store (start_state g) (GlobalVar x) = map_of (gd_variableMap (gs_gameData g)) x"
  "store (start_state g) (PlayerVar p x) =
     (if p \<in> connected g then map_of (gd_perPlayerVariableMap (gs_gameData g)) x else None)"
proof -
  have ids: "set (map (\<lambda>u. conn_id (userConnection u)) (users g)) = connected g" by (auto simp: connected_def)
  then show "players (start_state g) = connected g" "scope (start_state g) = Map.empty"
    by (simp_all add: start_state_def)
  show "distinct (map fst (gd_variableMap (gs_gameData g))) \<Longrightarrow> gs_wf (start_state g)"
    unfolding start_state_def by (rule gs_wf_mkGameState) (simp add: um_wf_def)
  show "store (start_state g) (GlobalVar x) = map_of (gd_variableMap (gs_gameData g)) x"
    "store (start_state g) (PlayerVar p x) =
     (if p \<in> connected g then map_of (gd_perPlayerVariableMap (gs_gameData g)) x else None)"
    unfolding start_state_def store_mkGameState ids by simp_all
qed

lemma game_fits_success:
  assumes "iteration_order ord" "game_fits g"
  shows "\<exists>st. executeRules ord n (gd_topLevelRules (gs_gameData g)) \<lparr>game = start_state g, messages = ms\<rparr> = Inr (RuleSuccess, st) \<and>
    debug_target (game st) = debug_after g \<and>
    messages st = ms @ liness (card (connected g)) (gd_topLevelRules (gs_gameData g))"
proof -
  let ?rs = "gd_topLevelRules (gs_gameData g)" and ?st = "\<lparr>game = start_state g, messages = ms\<rparr>"
  let ?G = "map fst (gd_variableMap (gs_gameData g))" and ?V = "map fst (gd_perPlayerVariableMap (gs_gameData g))"
  note fits = assms(2) [unfolded game_fits_def Let_def]
  note start = start_state_fields [of g]
  have wf: "gs_wf (game ?st)" using fits start(3) by simp
  have free: "list_all loop_free ?rs" using fits well_named_loop_free by (auto simp: list_all_iff)
  have "declares (connected g) ?G ?V (dom (store (start_state g)))"
    by (auto simp: declares_def start simp del: store.simps dest: weak_map_of_SomeI)
  moreover have "in_scope (connected g) [] (start_state g)" by (simp add: in_scope_def start(2))
  ultimately have "playables (connected g) (dom (store (start_state g))) (start_state g) ?rs"
    using fits well_named_playable by (auto simp: playables_list list_all_iff)
  moreover have "has_room g l u" if "store (start_state g) l = Some u" for l u
    using that fits start(4,5) by (cases l) (auto simp: list_all_iff simp del: store.simps split: if_splits dest!: map_of_SomeD)
  then have "room_for (start_state g) (losses (connected g) (start_state g) ?rs) (gains (connected g) (start_state g) ?rs)"
    by (simp add: room_for_def has_room_def Let_def del: store.simps)
  ultimately obtain st where st: "executeRules ord n ?rs ?st = Inr (RuleSuccess, st)"
    using playable_success(2) [OF assms(1) free wf, of n] start(1) by auto
  have s: "shifted (effects (connected g) (start_state g) ?rs) (liness (card (connected g)) ?rs) ?st st"
    using success_effect(2) [OF assms(1) free wf st] start(1) by simp
  have "map_option sint (debug_target (game st)) =
      map_option (\<lambda>u. sint u + effects (connected g) (start_state g) ?rs (GlobalVar ''debug_target'')) (debug_target (start_state g))"
    using s [unfolded shifted_def, THEN conjunct1, rule_format, of "GlobalVar ''debug_target''"] by (simp add: debug_target_def)
  moreover have "w = u + word_of_int k" if "sint w = sint u + k" for w u :: int32 and k
    using arg_cong [OF that, of "word_of_int :: int \<Rightarrow> int32"] by simp
  ultimately have "debug_target (game st) = debug_after g"
    unfolding debug_after_def by (cases "debug_target (game st)"; cases "debug_target (start_state g)") auto
  with st s show ?thesis by (simp add: shifted_def)
qed

lemma game_fits_execution:
  assumes "iteration_order ord" "game_fits g"
  shows "executeGame ord n g =
    Inr (execution_report (result_of (debug_target (start_state g))) (result_of (debug_after g)),
         g\<lparr>gs_log := gs_log g @ liness (card (connected g)) (gd_topLevelRules (gs_gameData g))\<rparr>)"
  using game_fits_success [OF assms, of n "gs_log g"]
  by (auto simp: executeGame_def execution_report_def start_state_def Let_def)

section \<open>The game a server was configured with\<close>

text \<open>No client and no message replaces the game data.\<close>

lemma game_data_handlers [simp]:
  "gs_gameData (onConnect g c) = gs_gameData g" "gs_gameData (onDisconnect g c) = gs_gameData g"
  by (simp_all add: onConnect_def onDisconnect_def)

lemma game_data_disconnect [simp]:
  "gs_gameData (app (server_disconnect game_handlers c s)) = gs_gameData (app s)"
  by (simp add: server_disconnect_def Let_def game_handlers_def split: option.split)

lemma game_data_complete:
  "gs_gameData (app (complete game_handlers e s)) = gs_gameData (app s)"
  by (cases e) (simp_all add: Let_def registerChannel_def split: option.split, simp_all add: game_handlers_def)

lemma game_data_update [simp]:
  "gs_gameData (app (server_update game_handlers es s)) = gs_gameData (app s)"
  by (induction es arbitrary: s) (simp_all add: game_data_complete)

lemma game_data_execute: "executeGame ord n g = Inr (t, g') \<Longrightarrow> gs_gameData g' = gs_gameData g"
  by (auto simp: executeGame_def Let_def bindR_iffs)

lemma game_data_message:
  "processMessage ord n m (s, out, quit) = Inr (s', out', quit') \<Longrightarrow> gs_gameData (app s') = gs_gameData (app s)"
  by (auto simp: processMessage_def Let_def bindR_iffs dest!: game_data_execute split: if_splits list.splits)

lemma game_data_loop:
  "processLoop ord n ms (s, out, quit) = Inr (s', out', quit') \<Longrightarrow> gs_gameData (app s') = gs_gameData (app s)"
  by (induction ms arbitrary: s out quit) (auto simp: bindR_iffs dest!: game_data_message)

lemma game_data_served: "served ord n g s stop \<Longrightarrow> gs_gameData (app s) = gs_gameData g"
proof (induction rule: served.induct)
  case (serve_poll s events err stop s')
  then show ?case
    by (auto simp: runIteration_def server_receive_def processMessages_def Let_def bindR_iffs dest!: game_data_loop)
qed (simp add: mkServer_def)

lemma connected_channels:
  assumes "server_inv s"
  shows "card (connected (app s)) = card (dom (map_of (channels s)))"
proof -
  have "userConnection ` set (users (app s)) = dom (map_of (channels s))"
    using assms by (auto simp: server_inv_def users_match_def simp flip: set_map)
  moreover have "inj_on conn_id A" for A by (rule inj_onI) simp
  ultimately show ?thesis by (simp add: connected_def card_image)
qed


text \<open>The iteration that reads the command: everybody who is registered gets the report, and nobody else.\<close>

lemma execute_iteration:
  assumes "server_inv s" "incoming s = []" "um_contains (channels s) (Connection p)" "isValid (gs_gameData (app s))"
    and "executeGame ord n (app s) = Inr (report, (app s)\<lparr>gs_log := log\<rparr>)" "report \<noteq> []"
  shows "\<exists>s'. runIteration ord n [Read p (Some ''/execute'')] False s = Inr (False, s') \<and>
    channels s' = channels s \<and> gs_log (app s') = log \<and>
    (\<forall>q. map_option ch_sent (heap s' q) =
         (if um_contains (channels s) (Connection q)
          then map_option (\<lambda>ch. ch_sent ch @ [report]) (heap s q) else map_option ch_sent (heap s q)))"
proof -
  let ?m = "\<lparr>msg_connection = Connection p, msg_text = ''/execute''\<rparr>"
  let ?s1 = "at_channel p (\<lambda>ch. ch\<lparr>ch_reading := True\<rparr>) (at_channel p (\<lambda>ch. ch\<lparr>ch_reading := False\<rparr>) s)"
  let ?s3 = "?s1\<lparr>app := (app s)\<lparr>gs_log := log\<rparr>\<rparr>"
  have "until CHR '' '' ''execute'' = ''execute''" by code_simp
  moreover have "storable ''/execute''" by (simp add: storable_def)
  ultimately have "processMessage ord n ?m (?s1, [], False) = Inr (?s3, report, False)"
    using processMessage_command [of ?m "''execute''" ord n ?s1 "[]" False] assms(4,5) by simp
  moreover have s1: "(server_update game_handlers [Read p (Some ''/execute'')] s)\<lparr>incoming := []\<rparr> = ?s1"
    using assms(2) by (simp add: at_channel_def)
  ultimately have run: "runIteration ord n [Read p (Some ''/execute'')] False s =
      Inr (False, server_send (buildOutgoing report (app ?s3)) ?s3)"
    using assms(2) by (simp add: runIteration_def server_receive_def processMessages_def)
  obtain ch where ch: "heap s p = Some ch" "ch_reading ch"
    using assms(1,3) net_invD(2,3) [of s] unfolding server_inv_def um_contains_iff channel_inv_def by fastforce
  then have "server_inv (server_update game_handlers [Read p (Some ''/execute'')] s)"
    by (intro server_inv_update [OF assms(1)]) simp
  then have "server_inv ?s1" using server_inv_receive s1 by (metis server_receive_def snd_conv)
  then have "server_inv ?s3" by (rule server_inv_app) (simp_all add: users_match_def)
  moreover have "map_option ch_sent (heap ?s3 q) = map_option ch_sent (heap s q)" for q
    by (simp add: option.map_comp comp_def)
  ultimately show ?thesis
    using run broadcast_all [of ?s3 report] assms(6)
    by (auto simp: option.map_comp comp_def ch_sent_channel_send simp del: server_send.simps)
qed

lemma client_served:
  assumes "clients g = []" "users g = []"
  shows "\<exists>s. served ord n g s False \<and> channels s = [(Connection p, p)]"
proof -
  let ?es = "[Upgrade p, Accepted p True]"
  let ?s = "server_update game_handlers ?es (mkServer g)"
  have en: "enabled_all game_handlers ?es (mkServer g)" by (simp add: mkServer_def mkChannel_def)
  have inc: "incoming ?s = []"
    by (simp add: incoming_server_update del: server_update.simps) (simp add: mkServer_def)
  have "\<exists>s. runIteration ord n ?es False (mkServer g) = Inr (False, s) \<and> channels s = channels ?s"
    using inc by (simp add: runIteration_def server_receive_def processMessages_def Let_def
        del: server_update.simps)
  moreover have "channels ?s = [(Connection p, p)]"
    by (simp add: mkServer_def registerChannel_def Let_def um_insert_def um_erase_def um_contains_def at_channel_def)
  ultimately show ?thesis using served.serve_poll [OF served.serve_start en] by metis
qed

section \<open>Properties\<close>

text \<open>
  C11. Every game that fits is played to its end: in whatever state the main loop has reached, if the game's
  rules name declared variables and the players who are connected leave room for their additions, the text
  \<open>/execute\<close> of any of them ends the game with the numbers of the reference semantics, in any order of the
  players; everybody connected is sent its report, and nobody else is sent anything.
\<close>

theorem fitting_game_served:
  assumes "iteration_order ord" "served ord n g s False" "clients g = []" "users g = []"
    and "um_contains (channels s) (Connection p)" "game_fits (app s)"
  shows "\<exists>s'. runIteration ord n [Read p (Some ''/execute'')] False s = Inr (False, s') \<and>
    channels s' = channels s \<and>
    gs_log (app s') = gs_log (app s) @ liness (card (dom (map_of (channels s)))) (gd_topLevelRules (gs_gameData g)) \<and>
    (\<forall>q. map_option ch_sent (heap s' q) =
         (if um_contains (channels s) (Connection q)
          then map_option (\<lambda>ch. ch_sent ch @
                 [execution_report (result_of (debug_target (start_state (app s)))) (result_of (debug_after (app s)))]) (heap s q)
          else map_option ch_sent (heap s q)))"
proof -
  have s: "server_inv s" "incoming s = []" using served_inv [OF assms(2-4)] by simp_all
  have valid: "isValid (gs_gameData (app s))" using assms(6) by (simp add: game_fits_def Let_def)
  show ?thesis
    using execute_iteration [OF s assms(5) valid game_fits_execution [OF assms(1,6)]]
      connected_channels [OF s(1)] game_data_served [OF assms(2)]
    by (simp add: execution_report_def)
qed

text \<open>A game in which everybody plays a round with everybody, for one player.\<close>

definition round_robin :: GameData where
  "round_robin =
     \<lparr>isValid = True, gd_variableMap = [(''debug_target'', 1)], gd_perPlayerVariableMap = [(''score'', 5)],
      gd_topLevelRules =
        [AddRule ''debug_target'' 2,
         ForEachRule ''players'' ''e'' [ForEachRule ''players'' ''f''
           [AddRule ''debug_target'' 3, AddRule (scoped_name ''f'' ''score'') (- 1)]]]\<rparr>"

lemma round_robin_fits:
  assumes "gs_gameData g = round_robin" "connected g = {5}"
  shows "game_fits g" "debug_target (start_state g) = Some 1" "debug_after g = Some 6"
proof -
  let ?b = "bound_to (bound_to (start_state g) ''e'' 5) ''f'' 5"
  have names: "resolve ?b (scoped_name ''f'' ''score'') = Inr (PlayerVar 5 ''score'')"
    unfolding scoped_name_def by (rule resolve_scoped) simp_all
  have tally: "tallies w {5} (start_state g) (gd_topLevelRules round_robin) (GlobalVar ''debug_target'') = w 2 + w 3"
    "tallies w {5} (start_state g) (gd_topLevelRules round_robin) (PlayerVar 5 ''score'') = w (- 1)" for w
    by (simp_all add: round_robin_def names resolve_debug_target)
  have sints: "sint (2 :: int32) = 2" "sint (3 :: int32) = 3" "sint (- 1 :: int32) = - 1" "sint (1 :: int32) = 1"
    "sint (5 :: int32) = 5" by simp_all
  have "list_all (well_named [''debug_target''] [''score''] []) (gd_topLevelRules round_robin)"
    using debug_target_global by (simp add: round_robin_def declared_def str_find_None)
  moreover have "has_room g (GlobalVar ''debug_target'') 1" "has_room g (PlayerVar 5 ''score'') 5"
    by (simp_all add: has_room_def assms tally sints)
  ultimately show "game_fits g"
    unfolding game_fits_def Let_def assms by (simp add: round_robin_def)
  show t: "debug_target (start_state g) = Some 1"
    using start_state_fields(4) [of g "''debug_target''"] by (simp add: debug_target_def assms(1) round_robin_def)
  show "debug_after g = Some 6" by (simp add: debug_after_def t assms tally sints)
qed

theorem fitting_game_served_witness:
  "\<exists>s s' ch. channels s = [(Connection 5, 5)] \<and> heap s 5 = Some ch \<and>
     runIteration rev 0 [Read 5 (Some ''/execute'')] False s = Inr (False, s') \<and>
     map_option ch_sent (heap s' 5) = Some (ch_sent ch @ [execution_report (get_ok 1) (get_ok 6)])"
proof -
  let ?g = "mkGameServer\<lparr>gs_gameData := round_robin\<rparr>"
  have g: "clients ?g = []" "users ?g = []" by (simp_all add: mkGameServer_def)
  obtain s where s: "served rev 0 ?g s False" "channels s = [(Connection 5, 5)]" using client_served [OF g] by blast
  have inv: "server_inv s" using served_inv [OF s(1) g] by simp
  then have cl: "clients (app s) = map userConnection (users (app s))" by (simp add: server_inv_def users_match_def)
  have "set (clients (app s)) = dom (map_of (channels s))" using inv unfolding server_inv_def by blast
  then have "userConnection ` set (users (app s)) = {Connection 5}" unfolding cl s(2) by simp
  then have c: "connected (app s) = {5}" by (simp add: connected_def)
  have p: "um_contains (channels s) (Connection 5)" by (simp add: s(2) um_contains_def)
  then obtain ch where ch: "heap s 5 = Some ch" using inv net_invD(2) unfolding server_inv_def um_contains_iff by fastforce
  have d: "gs_gameData (app s) = round_robin" using game_data_served [OF s(1)] by simp
  note fits = round_robin_fits [OF d c]
  from fitting_game_served [OF iteration_order_rev s(1) g p fits(1)] obtain s' where
    r: "runIteration rev 0 [Read 5 (Some ''/execute'')] False s = Inr (False, s')" and
    "\<forall>q. map_option ch_sent (heap s' q) =
       (if um_contains (channels s) (Connection q)
        then map_option (\<lambda>ch. ch_sent ch @
               [execution_report (result_of (debug_target (start_state (app s)))) (result_of (debug_after (app s)))]) (heap s q)
        else map_option ch_sent (heap s q))" by blast
  from spec [OF this(2), of 5] have
    "map_option ch_sent (heap s' 5) = Some (ch_sent ch @ [execution_report (get_ok 1) (get_ok 6)])"
    by (simp only: p ch fits(2,3) if_True option.map result_of_simps)
  with r s(2) ch show ?thesis by blast
qed

section \<open>Games that stop half way\<close>

lemma executeRules_append:
  "executeRules ord n (rs @ rs') st = andThen (executeRules ord n rs st) (executeRules ord n rs')"
proof (induction rs arbitrary: st)
  case (Cons r rs)
  show ?case
    by (cases "executeRule ord n r st" rule: andThen_cases) (simp_all add: Cons)
qed simp

lemma undeclared_add_fails:
  assumes "str_find ''players'' t = None" "store (game st) (GlobalVar t) = None"
  shows "executeRule ord n (AddRule t k) st = Inr (RuleFailure, st)"
  using assms by (simp add: executeAddRule_spec resolve_global str_find_None del: store.simps)

text \<open>The game with other rules.\<close>

definition with_rules :: "rule list \<Rightarrow> GameServer \<Rightarrow> GameServer" where
  "with_rules rs g = g\<lparr>gs_gameData := (gs_gameData g)\<lparr>gd_topLevelRules := rs\<rparr>\<rparr>"

text \<open>
  C28. A rule that fails cuts the game off without a word: with an addition to a global variable that is not declared
  among its top-level rules, a game does, logs and reports exactly what it would if it ended before that rule, whatever
  comes after it, down to the line saying that it finished.
\<close>

theorem undeclared_rule_truncates:
  assumes "str_find ''players'' t = None" "t \<notin> set (map fst (gd_variableMap (gs_gameData g)))"
    and "gd_topLevelRules (gs_gameData g) = rs @ AddRule t k # rs'"
  shows "executeGame ord n g =
    bindR (executeGame ord n (with_rules rs g)) (\<lambda>(report, g').
      Inr (report, with_rules (rs @ AddRule t k # rs') g'))"
proof -
  let ?st = "\<lparr>game = start_state g, messages = gs_log g\<rparr>"
  have none: "store (start_state g) (GlobalVar t) = None"
    using assms(2) by (simp add: start_state_def store_mkGameState map_of_eq_None_iff del: store.simps)
  have run: "executeRules ord n (rs @ AddRule t k # rs') ?st =
      bindR (executeRules ord n rs ?st) (\<lambda>(r, st). Inr (RuleFailure, st))"
  proof (cases "executeRules ord n rs ?st" rule: andThen_cases)
    case (success st)
    have "dom (store (game st)) = dom (store (start_state g))"
      using execute_ok(2) [of ?st ord n rs] success by (simp add: exec_frame_def)
    then have "store (game st) (GlobalVar t) = None" using none by (metis domIff)
    with success assms(1) show ?thesis
      by (simp add: executeRules_append undeclared_add_fails del: executeRule.simps(1))
  qed (simp_all add: executeRules_append)
  have start: "start_state (with_rules rs g) = start_state g" "gs_log (with_rules rs g) = gs_log g"
    "gd_topLevelRules (gs_gameData (with_rules rs g)) = rs"
    by (simp_all add: start_state_def with_rules_def)
  have exec: "executeGame ord n g' =
      bindR (executeRules ord n (gd_topLevelRules (gs_gameData g')) \<lparr>game = start_state g', messages = gs_log g'\<rparr>)
        (\<lambda>(r, st). Inr (execution_report (result_of (debug_target (start_state g'))) (result_of (debug_target (game st))),
           g'\<lparr>gs_log := messages st\<rparr>))" for g'
    by (simp add: executeGame_def start_state_def execution_report_def Let_def)
  show ?thesis
    unfolding exec start assms(3) run
    by (cases "executeRules ord n rs ?st") (auto simp: with_rules_def assms(3) [symmetric])
qed

definition misspelt :: GameServer where
  "misspelt = mkGameServer\<lparr>gs_gameData :=
     \<lparr>isValid = True, gd_variableMap = [(''debug_target'', 1)], gd_perPlayerVariableMap = [],
      gd_topLevelRules = [AddRule ''debug_target'' 2, AddRule ''debug-target'' 1, AddRule ''debug_target'' 3]\<rparr>\<rparr>"

theorem undeclared_rule_truncates_witness:
  "executeGame id 0 misspelt = Inr (execution_report (get_ok 1) (get_ok 3), misspelt)"
proof -
  let ?rs = "[AddRule ''debug_target'' 2]"
  have "str_find ''players'' ''debug-target'' = None" by simp
  moreover have "''debug-target'' \<notin> set (map fst (gd_variableMap (gs_gameData misspelt)))" by (simp add: misspelt_def)
  moreover have "gd_topLevelRules (gs_gameData misspelt) = ?rs @ AddRule ''debug-target'' 1 # [AddRule ''debug_target'' 3]"
    by (simp add: misspelt_def)
  ultimately have "executeGame id 0 misspelt =
      bindR (executeGame id 0 (with_rules ?rs misspelt)) (\<lambda>(report, g').
        Inr (report, with_rules (?rs @ AddRule ''debug-target'' 1 # [AddRule ''debug_target'' 3]) g'))"
    by (rule undeclared_rule_truncates)
  moreover have "executeGame id 0 (with_rules ?rs misspelt) =
      Inr (execution_report (get_ok 1) (get_ok 3), with_rules ?rs misspelt)"
    by (simp add: executeGame_def with_rules_def misspelt_def mkGameState_def executeAddRule_def getValue_def setValue_def
        getVariable_def setVariable_def add_int_def um_contains_def um_insert_def um_erase_def Let_def
        execution_report_def debug_target_def mkGameServer_def)
  ultimately show ?thesis by (simp add: with_rules_def misspelt_def)
qed

end
