(* ===== verification/Counting_Game.thy ===== *)
theory Counting_Game
  imports Rule_Effects
begin

text \<open>
  The games of the repository that loop over the players: each counts in \<open>debug_target\<close>, and in a variable
  of every player. The shipped game and the two games of the \<open>foreach\<close> tests are instances. Their
  execution is computed with the reference semantics of \<open>Rule_Effects\<close>.
\<close>

definition counting_round :: "VariableKey \<Rightarrow> VariableKey \<Rightarrow> string \<Rightarrow> rule list" where
  "counting_round e v m = [GlobalMessageRule m, AddRule ''debug_target'' 1, AddRule (scoped_name e v) 1]"

definition counting_rules :: "VariableKey \<Rightarrow> VariableKey \<Rightarrow> string \<Rightarrow> rule list" where
  "counting_rules e v m =
     [GlobalMessageRule ''About to collect input'', AddRule ''debug_target'' 1,
      ForEachRule ''players'' e (counting_round e v m),
      GlobalMessageRule ''Finished collecting input'', AddRule ''debug_target'' 1,
      GlobalMessageRule ''About to produce output'', GlobalMessageRule ''Finished producing output'']"

text \<open>The state a game starts in, for the players \<open>ids\<close>, and the variables it ends with.\<close>

definition counting_start :: "VariableKey \<Rightarrow> VariableValue \<Rightarrow> PlayerID list \<Rightarrow> string list \<Rightarrow> ExecState" where
  "counting_start v w ids ms = \<lparr>game = mkGameState [(''debug_target'', 0)] ids [(v, w)], messages = ms\<rparr>"

definition counting_store :: "VariableKey \<Rightarrow> VariableValue \<Rightarrow> PlayerID set \<Rightarrow> nat \<Rightarrow> location \<Rightarrow> VariableValue option" where
  "counting_store v w P k l =
     (case l of
        GlobalVar x \<Rightarrow> if x = ''debug_target'' then Some (of_nat k) else None
      | PlayerVar p x \<Rightarrow> if p \<in> P \<and> x = v then Some w else None)"

definition counting_log :: "string \<Rightarrow> nat \<Rightarrow> string list" where
  "counting_log m n =
     ''Msg: About to collect input'' # replicate n (''Msg: '' @ m) @
     [''Msg: Finished collecting input'', ''Msg: About to produce output'', ''Msg: Finished producing output'']"

lemma counting_lines: "liness n (counting_rules e v m) = counting_log m n"
proof -
  have "concat (replicate n [x]) = replicate n x" for x :: string by (induction n) simp_all
  then show ?thesis by (simp add: counting_rules_def counting_round_def counting_log_def)
qed

lemma counting_tally:
  assumes "finite P" "CHR ''.'' \<notin> set e" "CHR ''$'' \<notin> set v"
  shows "tallies w P gs (counting_rules e v m) l =
    w 1 * (case l of
        GlobalVar x \<Rightarrow> if x = ''debug_target'' then int (card P + 2) else 0
      | PlayerVar p x \<Rightarrow> if p \<in> P \<and> x = v then 1 else 0)"
proof -
  have "resolve (bound_to gs e p) (scoped_name e v) = Inr (PlayerVar p v)" for p
    unfolding scoped_name_def by (rule resolve_scoped) (use assms(2,3) in simp_all)
  then have name: "resolve (bound_to gs e p) (scoped_name e v) = Inr l \<longleftrightarrow> l = PlayerVar p v" for p l by auto
  have debug: "resolve gs ''debug_target'' = Inr l \<longleftrightarrow> l = GlobalVar ''debug_target''" for gs l
    by (auto simp: resolve_debug_target)
  have all: "(\<Sum>q\<in>P. if p = q \<and> x = v then c else 0) = (if p \<in> P \<and> x = v then c else 0)" for p x and c :: int
    using assms(1) by (cases "x = v") simp_all
  show ?thesis
    by (cases l) (simp_all add: counting_rules_def counting_round_def name debug all algebra_simps)
qed

lemma counting_start_state:
  "store (game (counting_start v w ids ms)) = counting_store v w (set ids) 0"
  "players (game (counting_start v w ids ms)) = set ids" "scope (game (counting_start v w ids ms)) = Map.empty"
  "gs_wf (game (counting_start v w ids ms))" "messages (counting_start v w ids ms) = ms"
proof -
  show "store (game (counting_start v w ids ms)) = counting_store v w (set ids) 0"
    by (rule ext) (auto simp: counting_start_def counting_store_def store_mkGameState simp del: store.simps
        split: location.split)
  show "gs_wf (game (counting_start v w ids ms))"
    unfolding counting_start_def by (simp, rule gs_wf_mkGameState) (simp_all add: um_wf_def)
qed (simp_all add: counting_start_def)

lemma counting_execute:
  assumes "iteration_order ord" "CHR ''.'' \<notin> set e" "CHR ''$'' \<notin> set v"
    and "card (set ids) + 2 < 2 ^ 31" "sint w + 1 < 2 ^ 31"
  shows "\<exists>st'. executeRules ord n (counting_rules e v m) (counting_start v w ids ms) = Inr (RuleSuccess, st') \<and>
    store (game st') = counting_store v (w + 1) (set ids) (card (set ids) + 2) \<and>
    messages st' = ms @ counting_log m (card (set ids))"
proof -
  let ?st = "counting_start v w ids ms" and ?P = "set ids" and ?rs = "counting_rules e v m"
  let ?gs = "game ?st"
  note start = counting_start_state [of v w ids ms]
  note tally = counting_tally [OF _ assms(2,3), of ?P]
  have free: "list_all loop_free ?rs" by (simp add: counting_rules_def counting_round_def)
  have name: "resolve (bound_to ?gs e p) (scoped_name e v) = Inr (PlayerVar p v)" for p
    unfolding scoped_name_def by (rule resolve_scoped) (use assms(2,3) in simp_all)
  have "playables ?P (dom (store ?gs)) ?gs ?rs"
    by (auto simp: counting_rules_def counting_round_def name resolve_debug_target start counting_store_def
        simp del: store.simps)
  moreover have "room_for ?gs (losses ?P ?gs ?rs) (gains ?P ?gs ?rs)"
    using assms(4,5) sint_greater_eq [of w]
    by (auto simp: room_for_def tally start counting_store_def simp del: store.simps split: location.splits if_splits)
  ultimately obtain st' where st': "executeRules ord n ?rs ?st = Inr (RuleSuccess, st')"
    using playable_success(2) [OF assms(1) free, of ?st n] start by auto
  have s: "shifted (effects ?P ?gs ?rs) (liness (card ?P) ?rs) ?st st'"
    using success_effect(2) [OF assms(1) free _ st'] start by simp
  have of_sint: "x = word_of_int i" if "sint x = i" for x :: int32 and i using that by auto
  have "store (game st') l = counting_store v (w + 1) ?P (card ?P + 2) l" for l
  proof -
    have "map_option sint (store (game st') l) = map_option (\<lambda>u. sint u + effects ?P ?gs ?rs l) (counting_store v w ?P 0 l)"
      using s start(1) by (simp add: shifted_def)
    then show ?thesis
      by (cases "store (game st') l"; cases l)
         (auto simp: tally counting_store_def simp del: store.simps split: if_splits dest!: of_sint)
  qed
  then show ?thesis using s st' start by (auto simp: shifted_def counting_lines)
qed

end
