(* ===== verification/Shipped_Game.thy ===== *)
theory Shipped_Game
  imports Playable_Game Counting_Game
begin

text \<open>
  The documents the repository ships, and what the program does with them: the server configuration
  data/serverconfig.json and the game test/json/gameSpec_forEach_basic.json, the game the server plays
  under the name "Test". The parser of the model reads them, the execution of the rules is followed for
  any number of players and any order of iteration, and the two are put together with setupConfig and
  the command "/execute" of the server.
\<close>

section \<open>The documents\<close>

definition game_rules_doc :: jval where
  "game_rules_doc = JArr
     [JObj [(''rule'', JStr ''global-message''), (''value'', JStr ''About to collect input'')],
      JObj [(''rule'', JStr ''add''), (''to'', JStr ''debug_target''), (''value'', JInt 1)],
      JObj [(''rule'', JStr ''foreach''), (''list'', JStr ''players''), (''element'', JStr ''player''),
            (''rules'', JArr
              [JObj [(''rule'', JStr ''global-message''), (''value'', JStr ''This is player's ID: {player}'')],
               JObj [(''rule'', JStr ''add''), (''to'', JStr ''debug_target''), (''value'', JInt 1)],
               JObj [(''rule'', JStr ''add''), (''to'', JStr ''player.input''), (''value'', JInt 1)]])],
      JObj [(''rule'', JStr ''global-message''), (''value'', JStr ''Finished collecting input'')],
      JObj [(''rule'', JStr ''add''), (''to'', JStr ''debug_target''), (''value'', JInt 1)],
      JObj [(''rule'', JStr ''global-message''), (''value'', JStr ''About to produce output'')],
      JObj [(''rule'', JStr ''global-message''), (''value'', JStr ''Finished producing output'')]]"

definition game_doc :: jval where
  "game_doc = JObj
     [(''configuration'', JObj [(''name'', JStr ''MVP game''),
        (''player count'', JObj [(''min'', JInt 0), (''max'', JInt 0)]),
        (''audience'', JBool False), (''setup'', JObj [])]),
      (''constants'', JObj []),
      (''variables'', JObj [(''debug_target'', JInt 0)]),
      (''per-player'', JObj [(''input'', JInt 0)]),
      (''per-audience'', JObj []),
      (''rules'', game_rules_doc)]"

definition config_doc :: jval where
  "config_doc = JObj [(''port'', JInt 4000), (''serverhtml'', JStr ''../web-socket-networking/webchat.html'')]"

definition shipped_files :: "string \<rightharpoonup> jval" where
  "shipped_files =
     [''../social-gaming/data/serverconfig.json'' \<mapsto> config_doc,
      ''../social-gaming/test/json/gameSpec_forEach_basic.json'' \<mapsto> game_doc]"

section \<open>What they parse to\<close>

definition player_rules :: "rule list" where
  "player_rules =
     [GlobalMessageRule ''This is player's ID: {player}'', AddRule ''debug_target'' 1,
      AddRule (scoped_name ''player'' ''input'') 1]"

definition shipped_rules :: "rule list" where
  "shipped_rules =
     [GlobalMessageRule ''About to collect input'', AddRule ''debug_target'' 1,
      ForEachRule ''players'' ''player'' player_rules,
      GlobalMessageRule ''Finished collecting input'', AddRule ''debug_target'' 1,
      GlobalMessageRule ''About to produce output'', GlobalMessageRule ''Finished producing output'']"

definition shipped_game :: GameData where
  "shipped_game =
     \<lparr>isValid = True, gd_variableMap = [(''debug_target'', 0)], gd_perPlayerVariableMap = [(''input'', 0)],
      gd_topLevelRules = shipped_rules\<rparr>"

lemma shipped_names:
  "processScopedVariables [] ''debug_target'' = ''debug_target''"
  "processScopedVariables [(''player'', ''players.$player'')] ''debug_target'' = ''debug_target''"
  "processScopedVariables [(''player'', ''players.$player'')] ''player.input'' = scoped_name ''player'' ''input''"
  by code_simp+

lemma shipped_maps:
  "um_insert [] ''player'' ''players.$player'' = [(''player'', ''players.$player'')]"
  "um_erase [(''player'', ''players.$player'')] ''player'' = []"
  "um_insert [] ''debug_target'' 0 = [(''debug_target'', 0 :: int32)]"
  "um_insert [] ''input'' 0 = [(''input'', 0 :: int32)]"
  by (simp_all add: um_insert_def um_erase_def um_contains_def)

lemma shipped_rules_parsed:
  "parseRules (jval_lib fs) (Suc (Suc n)) [] game_rules_doc = Inr (shipped_rules, [])"
  by (simp add: game_rules_doc_def parseRule.simps parseForEachRule.simps parseAddRule_def
      parseGlobalMessageRule_def shipped_names shipped_maps shipped_rules_def player_rules_def Let_def)

lemma shipped_game_accepted:
  "parseJson (jval_lib shipped_files) ''../social-gaming/test/json/gameSpec_forEach_basic.json'' True GAME_SPEC = game_doc"
proof -
  have "validateJsonContent_rootLevelElements (jval_lib shipped_files) game_doc GS_ROOT_ELEMS"
    by (simp add: validate_root_iff GS_ROOT_ELEMS_def game_doc_def game_rules_doc_def)
  moreover have "shipped_files ''../social-gaming/test/json/gameSpec_forEach_basic.json'' = Some game_doc"
    by (simp add: shipped_files_def)
  ultimately show ?thesis
    by (simp add: parseJson_def safeParse_def validateJsonObject_def validateJsonContent_gameSpec_def)
       (simp add: game_doc_def)
qed

lemma shipped_game_parsed:
  "parseJsonFile_gameSpec (jval_lib shipped_files) (Suc (Suc n))
     ''../social-gaming/test/json/gameSpec_forEach_basic.json'' = Inr shipped_game"
proof -
  have parts: "jval_at game_doc ''rules'' = game_rules_doc"
    "jval_at game_doc ''variables'' = JObj [(''debug_target'', JInt 0)]"
    "jval_at game_doc ''per-player'' = JObj [(''input'', JInt 0)]" "\<not> jval_is_null game_doc"
    by (simp_all add: game_doc_def)
  show ?thesis
    by (simp add: parseJsonFile_gameSpec_def shipped_game_accepted parts parseVariables_def shipped_maps
        shipped_rules_parsed shipped_game_def Let_def shipped_rules_def del: parseRules.simps)
qed

section \<open>Its execution\<close>

abbreviation shipped_log :: "nat \<Rightarrow> string list" where
  "shipped_log \<equiv> counting_log ''This is player's ID: {player}''"

lemma shipped_rules_counting:
  "shipped_rules = counting_rules ''player'' ''input'' ''This is player's ID: {player}''"
  by (simp add: shipped_rules_def player_rules_def counting_rules_def counting_round_def)

lemma shipped_rules_execute:
  assumes "iteration_order ord" "card (set ids) + 2 < 2 ^ 31"
  shows "\<exists>st'. executeRules ord n shipped_rules
      \<lparr>game = mkGameState [(''debug_target'', 0)] ids [(''input'', 0)], messages = ms\<rparr> = Inr (RuleSuccess, st') \<and>
    store (game st') = counting_store ''input'' 1 (set ids) (card (set ids) + 2) \<and>
    messages st' = ms @ shipped_log (card (set ids))"
  using counting_execute [OF assms(1) _ _ assms(2), of "''player''" "''input''" 0 n "''This is player's ID: {player}''" ms]
  by (simp add: shipped_rules_counting counting_start_def)

section \<open>The configured server\<close>

lemma shipped_config:
  "parseJsonFile_serverConfig (jval_lib shipped_files) ''../social-gaming/data/serverconfig.json'' = config_doc"
  by (simp add: parseJsonFile_serverConfig_def parseJson_def safeParse_def shipped_files_def config_doc_def
      validateJsonObject_def validateJsonContent_serverConfig_def validate_root_iff SC_ROOT_ELEMS_def)

lemma port_4000: "ushort_to_string 4000 = ''4000''"
proof -
  have "digit_char 0 = CHR ''0''" "digit_char 4 = CHR ''4''" by code_simp+
  then show ?thesis by (simp add: ushort_to_string_def nat_to_string.simps)
qed

lemma shipped_setup:
  "setupConfig (jval_lib shipped_files) (\<lambda>_. True) (Suc (Suc n)) ''Test'' g =
     Inr (Some (g\<lparr>gs_port := Some 4000, gs_serverHtml := ''../web-socket-networking/webchat.html'',
                  gs_inviteCode := ''0004'', gs_gameData := shipped_game\<rparr>))"
  by (simp add: setupConfig_def mkServerConfig_def shipped_config configure_def parseGamefile_def
      gameFilepaths_def getPort_def generateInviteCode_def getServerHtml_def shipped_game_parsed port_4000)
     (simp add: config_doc_def port_4000 configure_def getPort_def generateInviteCode_def getServerHtml_def setHtmlFilepath_def)

lemma shipped_execution:
  assumes "iteration_order ord" "gs_gameData g = shipped_game"
    "k = card (conn_id ` userConnection ` set (users g))" "k + 2 < 2 ^ 31"
  shows "executeGame ord n g =
    Inr (''Found cmd: execute (Execute game)'' @ nl @ tab @ ''Executing loaded game'' @ nl @
         debug_line ''BEFORE'' (get_ok 0) @ debug_line ''AFTER'' (get_ok (of_nat (k + 2))) @
         tab @ ''Game finished executing.'' @ nl,
         g\<lparr>gs_log := gs_log g @ shipped_log k\<rparr>)"
proof -
  let ?ids = "map (\<lambda>u. conn_id (userConnection u)) (users g)"
  have ids: "set ?ids = conn_id ` userConnection ` set (users g)" by auto
  obtain st' where st': "executeRules ord n shipped_rules
      \<lparr>game = mkGameState [(''debug_target'', 0)] ?ids [(''input'', 0)], messages = gs_log g\<rparr> = Inr (RuleSuccess, st')"
    "store (game st') = counting_store ''input'' 1 (set ?ids) (k + 2)" "messages st' = gs_log g @ shipped_log k"
    using shipped_rules_execute [OF assms(1), of ?ids n "gs_log g"] assms(3,4) ids by auto
  have "debug_target (game st') = Some (of_nat (k + 2))"
    using fun_cong [OF st'(2), of "GlobalVar ''debug_target''"] by (simp add: debug_target_def counting_store_def)
  moreover have "debug_target (mkGameState [(''debug_target'', 0)] ?ids [(''input'', 0)]) = Some 0"
    by (simp add: debug_target_def mkGameState_def)
  ultimately show ?thesis
    using st' assms(2) by (simp add: executeGame_def shipped_game_def Let_def)
qed

definition execute_answer :: "nat \<Rightarrow> string" where
  "execute_answer k = execution_report (get_ok 0) (get_ok (of_nat (k + 2)))"

lemma shipped_iteration:
  assumes "iteration_order ord" "server_inv s" "incoming s = []" "gs_gameData (app s) = shipped_game"
    and "um_contains (channels s) (Connection p)" "k = card (dom (map_of (channels s)))" "k + 2 < 2 ^ 31"
  shows "\<exists>s'. runIteration ord n [Read p (Some ''/execute'')] False s = Inr (False, s') \<and>
    channels s' = channels s \<and> gs_log (app s') = gs_log (app s) @ shipped_log k \<and>
    (\<forall>q. map_option ch_sent (heap s' q) =
         (if um_contains (channels s) (Connection q)
          then map_option (\<lambda>ch. ch_sent ch @ [execute_answer k]) (heap s q) else map_option ch_sent (heap s q)))"
proof (rule execute_iteration [OF assms(2,3,5)])
  show "executeGame ord n (app s) =
      Inr (execute_answer k, (app s)\<lparr>gs_log := gs_log (app s) @ shipped_log k\<rparr>)"
    using shipped_execution [OF assms(1,4) _ assms(7), of n] connected_channels [OF assms(2)] assms(6)
    by (simp add: execute_answer_def execution_report_def connected_def)
qed (simp_all add: assms(4) shipped_game_def execute_answer_def execution_report_def)

section \<open>Properties\<close>

text \<open>
  The game the repository ships, for any players and any order in which their map is walked: the
  rules parsed from its document succeed, every player's \<open>input\<close> ends at 1, \<open>debug_target\<close> at the
  number of players and two more, no other variable exists, and the log has one line per player
  between the fixed ones.
\<close>

theorem shipped_game_plays:
  assumes "iteration_order ord" "card (set ids) + 2 < 2 ^ 31"
    and "parseJsonFile_gameSpec (jval_lib shipped_files) (Suc (Suc d))
           ''../social-gaming/test/json/gameSpec_forEach_basic.json'' = Inr gd"
  shows "\<exists>st'. executeRules ord n (gd_topLevelRules gd)
      \<lparr>game = mkGameState (gd_variableMap gd) ids (gd_perPlayerVariableMap gd), messages = []\<rparr> = Inr (RuleSuccess, st') \<and>
    (\<forall>l. store (game st') l =
         (case l of
            GlobalVar v \<Rightarrow> if v = ''debug_target'' then Some (of_nat (card (set ids) + 2)) else None
          | PlayerVar p v \<Rightarrow> if p \<in> set ids \<and> v = ''input'' then Some 1 else None)) \<and>
    messages st' = shipped_log (card (set ids))"
proof -
  have gd: "gd = shipped_game" using assms(3) by (simp add: shipped_game_parsed)
  have "counting_store ''input'' 1 (set ids) k l =
      (case l of
         GlobalVar v \<Rightarrow> if v = ''debug_target'' then Some (of_nat k) else None
       | PlayerVar p v \<Rightarrow> if p \<in> set ids \<and> v = ''input'' then Some 1 else None)" for k l
    by (simp add: counting_store_def split: location.split)
  moreover obtain st' where "executeRules ord n shipped_rules
      \<lparr>game = mkGameState [(''debug_target'', 0)] ids [(''input'', 0)], messages = []\<rparr> = Inr (RuleSuccess, st')"
    "store (game st') = counting_store ''input'' 1 (set ids) (card (set ids) + 2)"
    "messages st' = shipped_log (card (set ids))"
    using shipped_rules_execute [OF assms(1,2), of n "[]"] by auto
  ultimately show ?thesis by (intro exI [of _ st']) (simp add: gd shipped_game_def del: store.simps of_nat_add add_2_eq_Suc')
qed

theorem shipped_game_plays_witness:
  "\<exists>st'. executeRules id 0 shipped_rules
      \<lparr>game = mkGameState [(''debug_target'', 0)] [7, 8, 7] [(''input'', 0)], messages = []\<rparr> = Inr (RuleSuccess, st') \<and>
    store (game st') (GlobalVar ''debug_target'') = Some 4 \<and> store (game st') (PlayerVar 8 ''input'') = Some 1 \<and>
    length (messages st') = 6"
proof -
  have "card (set [7, 8, 7 :: uintptr]) = 2" by (simp add: card_insert_if)
  moreover from this have "card (set [7, 8, 7 :: uintptr]) + 2 < 2 ^ 31" by simp
  from shipped_game_plays [OF iteration_order_id this shipped_game_parsed [of 0], of 0] obtain st' where
    "executeRules id 0 (gd_topLevelRules shipped_game)
       \<lparr>game = mkGameState (gd_variableMap shipped_game) [7, 8, 7] (gd_perPlayerVariableMap shipped_game),
        messages = []\<rparr> = Inr (RuleSuccess, st')"
    "\<forall>l. store (game st') l =
       (case l of
          GlobalVar v \<Rightarrow>
            if v = ''debug_target'' then Some (of_nat (card (set [7, 8, 7 :: uintptr]) + 2)) else None
        | PlayerVar p v \<Rightarrow> if p \<in> set [7, 8, 7] \<and> v = ''input'' then Some 1 else None)"
    "messages st' = shipped_log (card (set [7, 8, 7 :: uintptr]))" by blast
  ultimately show ?thesis
    by (intro exI [of _ st']) (simp add: shipped_game_def counting_log_def del: store.simps)
qed

text \<open>
  C12. From the shipped files to the players' screens: the server configured with them listens on port
  4000 under the invite code \<open>0004\<close>, and in whatever state its main loop has reached, the text
  \<open>/execute\<close> of any of \<open>k\<close> connected players is answered to all of them, and to nobody else, with the
  report of a game that ended with \<open>debug_target\<close> at \<open>k + 2\<close>.
\<close>

theorem shipped_game_served:
  assumes "iteration_order ord"
    and "setupConfig (jval_lib shipped_files) (\<lambda>_. True) (Suc (Suc d)) ''Test'' mkGameServer = Inr (Some g)"
    and "served ord n g s False" "um_contains (channels s) (Connection p)"
    and "k = card (dom (map_of (channels s)))" "k + 2 < 2 ^ 31"
  shows "gs_port g = Some 4000 \<and> gs_inviteCode g = ''0004'' \<and>
    (\<exists>s'. runIteration ord n [Read p (Some ''/execute'')] False s = Inr (False, s') \<and>
       channels s' = channels s \<and> gs_log (app s') = gs_log (app s) @ shipped_log k \<and>
       (\<forall>q. map_option ch_sent (heap s' q) =
            (if um_contains (channels s) (Connection q)
             then map_option (\<lambda>ch. ch_sent ch @ [execute_answer k]) (heap s q)
             else map_option ch_sent (heap s q))))"
proof -
  have g: "gs_port g = Some 4000" "gs_inviteCode g = ''0004''" "gs_gameData g = shipped_game"
    "clients g = []" "users g = []"
    using assms(2) by (auto simp: shipped_setup mkGameServer_def)
  have s: "server_inv s" "incoming s = []" using served_inv [OF assms(3) g(4,5)] by simp_all
  show ?thesis
    using shipped_iteration [OF assms(1) s _ assms(4-6)] game_data_served [OF assms(3)] g by simp
qed

theorem shipped_game_served_witness:
  "\<exists>s s'. runIteration id 0 [Read 5 (Some ''/execute'')] False s = Inr (False, s') \<and>
     channels s = [(Connection 5, 5)] \<and> gs_log (app s') = gs_log (app s) @ shipped_log 1"
proof -
  obtain g where g: "setupConfig (jval_lib shipped_files) (\<lambda>_. True) (Suc (Suc 0)) ''Test'' mkGameServer = Inr (Some g)"
    "clients g = []" "users g = []" by (simp add: shipped_setup mkGameServer_def)
  obtain s where s: "served id 0 g s False" "channels s = [(Connection 5, 5)]"
    using client_served [OF g(2,3)] by blast
  have c: "um_contains (channels s) (Connection 5)" "1 = card (dom (map_of (channels s)))"
    by (simp_all add: s(2) um_contains_def)
  from shipped_game_served [OF iteration_order_id g(1) s(1) c] s(2) show ?thesis by auto
qed

end
