(* ===== verification/Chat_Server.thy ===== *)
theory Chat_Server
  imports Net_Server
begin

text \<open>
  The chat server tool (\<open>tools/chatserver/chatserver.cpp\<close>), the second application of the network
  server. Its state is the global list of clients; lines on the terminal are left out. The locales
  of the network server are interpreted on its handlers as they are on the game server's.
\<close>

section \<open>State and callbacks\<close>

record ChatServer =
  cs_clients :: "connection list"

record ChatResult =
  cr_result :: string
  cr_shouldShutdown :: bool

definition chat_onConnect :: "ChatServer \<Rightarrow> connection \<Rightarrow> ChatServer" where
  "chat_onConnect a c = a\<lparr>cs_clients := cs_clients a @ [c]\<rparr>"

definition chat_onDisconnect :: "ChatServer \<Rightarrow> connection \<Rightarrow> ChatServer" where
  "chat_onDisconnect a c = a\<lparr>cs_clients := filter (\<lambda>d. d \<noteq> c) (cs_clients a)\<rparr>"

definition chat_handlers :: "ChatServer ConnectionHandler" where
  "chat_handlers = \<lparr>handleConnect = chat_onConnect, handleDisconnect = chat_onDisconnect\<rparr>"

section \<open>Messages\<close>

definition chat_line :: "Message \<Rightarrow> string" where
  "chat_line m = to_string (conn_id (msg_connection m)) @ ''> '' @ msg_text m @ [CHR 0x0A]"

fun chat_processLoop ::
    "Message list \<Rightarrow> ChatServer ServerImpl \<times> string \<times> bool \<Rightarrow> ChatServer ServerImpl \<times> string \<times> bool" where
  "chat_processLoop [] st = st"
| "chat_processLoop (m # ms) (s, result, quit) =
     chat_processLoop ms
       (if msg_text m = ''quit'' then (server_disconnect chat_handlers (msg_connection m) s, result, quit)
        else if msg_text m = ''shutdown'' then (s, result, True)
        else (s, result @ chat_line m, quit))"

definition chat_processMessages ::
    "Message list \<Rightarrow> ChatServer ServerImpl \<Rightarrow> ChatResult \<times> ChatServer ServerImpl" where
  "chat_processMessages ms s =
     (let (s', result, quit) = chat_processLoop ms (s, [], False)
      in (\<lparr>cr_result = result, cr_shouldShutdown = quit\<rparr>, s'))"

definition chat_buildOutgoing :: "string \<Rightarrow> ChatServer \<Rightarrow> Message list" where
  "chat_buildOutgoing log a = map (\<lambda>c. \<lparr>msg_connection = c, msg_text = log\<rparr>) (cs_clients a)"

text \<open>One iteration of the loop of \<open>main\<close>, given the completions of the poll and whether it threw.\<close>

definition chat_iteration ::
    "net_event list \<Rightarrow> bool \<Rightarrow> ChatServer ServerImpl \<Rightarrow> bool \<times> ChatServer ServerImpl" where
  "chat_iteration events errorWhileUpdating s =
     (let s1 = server_update chat_handlers events s;
          (inc, s2) = server_receive s1;
          (mr, s3) = chat_processMessages inc s2;
          s4 = server_send (chat_buildOutgoing (cr_result mr) (app s3)) s3
      in (cr_shouldShutdown mr \<or> errorWhileUpdating, s4))"

fun chat_main :: "(net_event list \<times> bool) list \<Rightarrow> ChatServer ServerImpl \<Rightarrow> ChatServer ServerImpl" where
  "chat_main [] s = s"
| "chat_main ((events, err) # polls) s =
     (let (stop, s') = chat_iteration events err s in if stop then s' else chat_main polls s')"

section \<open>The network server's contracts\<close>

interpretation chat_clients: broadcaster chat_handlers cs_clients chat_buildOutgoing
  by unfold_locales (simp_all add: chat_handlers_def chat_onConnect_def chat_onDisconnect_def
      chat_buildOutgoing_def)

definition chat_inv :: "ChatServer ServerImpl \<Rightarrow> bool" where
  "chat_inv s \<longleftrightarrow>
     net_inv s \<and> distinct (cs_clients (app s)) \<and> set (cs_clients (app s)) = dom (map_of (channels s))"

lemma chat_inv_tracked: "chat_inv s \<longleftrightarrow> net_inv s \<and> chat_clients.tracked s"
  by (auto simp: chat_inv_def chat_clients.tracked_def)

lemma chat_inv_start: "chat_inv (mkServer \<lparr>cs_clients = []\<rparr>)"
  by (simp add: chat_inv_def net_inv_start) (simp add: mkServer_def)

lemma chat_inv_update:
  "chat_inv s \<Longrightarrow> enabled_all chat_handlers es s \<Longrightarrow> chat_inv (server_update chat_handlers es s)"
  by (induction es arbitrary: s)
     (auto simp: chat_inv_tracked net_inv_complete chat_clients.tracked_complete)

lemma chat_inv_disconnect: "chat_inv s \<Longrightarrow> chat_inv (server_disconnect chat_handlers c s)"
  by (simp add: chat_inv_tracked net_inv_disconnect chat_clients.tracked_disconnect)

text \<open>The answers, without the state: the lines in order, and whether a shutdown was asked for.\<close>

definition chat_lines :: "Message list \<Rightarrow> string" where
  "chat_lines ms = concat (map chat_line (filter (\<lambda>m. msg_text m \<notin> {''quit'', ''shutdown''}) ms))"

lemma chat_processLoop_spec:
  "chat_inv s \<Longrightarrow> \<exists>s'. chat_processLoop ms (s, result, quit) =
      (s', result @ chat_lines ms, quit \<or> ''shutdown'' \<in> msg_text ` set ms) \<and>
    chat_inv s' \<and> incoming s' = incoming s"
proof (induction ms arbitrary: s result quit)
  case (Cons m ms)
  show ?case
  proof (cases "msg_text m = ''quit''")
    case True
    with Cons.IH [OF chat_inv_disconnect [OF Cons.prems], of _ result quit] show ?thesis
      by (auto simp: chat_lines_def)
  next
    case False
    with Cons.IH [OF Cons.prems, of result True] Cons.IH [OF Cons.prems, of "result @ chat_line m" quit]
    show ?thesis by (auto simp: chat_lines_def)
  qed
qed (simp add: chat_lines_def)

text \<open>One iteration: the texts read are answered in order, to everybody who is registered then.\<close>

lemma chat_iteration_spec:
  assumes "chat_inv s" "incoming s = []" "enabled_all chat_handlers events s"
    and "s3 = fst (chat_processLoop (reads events) ((server_update chat_handlers events s)\<lparr>incoming := []\<rparr>, [], False))"
  shows "\<exists>s'. chat_iteration events err s = (err \<or> ''shutdown'' \<in> msg_text ` set (reads events), s') \<and>
    chat_inv s' \<and> incoming s' = [] \<and> channels s' = channels s3 \<and>
    (\<forall>p. heap s' p = (if um_contains (channels s3) (Connection p)
                      then map_option (channel_send (chat_lines (reads events))) (heap s3 p) else heap s3 p))"
proof -
  let ?s = "(server_update chat_handlers events s)\<lparr>incoming := []\<rparr>"
  have "chat_inv ?s" using chat_inv_update [OF assms(1,3)] by (simp add: chat_inv_def)
  from chat_processLoop_spec [OF this, of "reads events" "[]" False] assms(4) have s3:
    "chat_processLoop (reads events) (?s, [], False) =
      (s3, chat_lines (reads events), ''shutdown'' \<in> msg_text ` set (reads events))"
    "chat_inv s3" "incoming s3 = []" by auto
  let ?s' = "server_send (chat_buildOutgoing (chat_lines (reads events)) (app s3)) s3"
  have "chat_iteration events err s = (err \<or> ''shutdown'' \<in> msg_text ` set (reads events), ?s')"
    using s3(1) assms(2)
    by (auto simp: chat_iteration_def server_receive_def incoming_server_update chat_processMessages_def)
  moreover have "chat_inv ?s'" using s3(2) by (simp add: chat_inv_def net_inv_send)
  ultimately show ?thesis
    using s3(2,3) chat_clients.broadcast [of s3 "chat_lines (reads events)"]
    by (intro exI [of _ ?s']) (simp add: chat_inv_tracked)
qed

section \<open>Properties\<close>

text \<open>
  C30. One iteration of the chat server never faults, an empty message included: the texts read are
  answered as lines with their senders' identifiers, in order and without the commands; the answer
  goes to exactly the registered connections; the loop ends exactly on \<open>shutdown\<close> or an exception;
  and the list of clients stays the set of registered connections.
\<close>

theorem chat_iteration_answers:
  assumes "chat_inv s" "incoming s = []" "enabled_all chat_handlers events s"
    and "s3 = fst (chat_processLoop (reads events) ((server_update chat_handlers events s)\<lparr>incoming := []\<rparr>, [], False))"
  shows "\<exists>s'. chat_iteration events err s = (err \<or> ''shutdown'' \<in> msg_text ` set (reads events), s') \<and>
    chat_inv s' \<and> incoming s' = [] \<and> channels s' = channels s3 \<and>
    (\<forall>p. heap s' p = (if um_contains (channels s3) (Connection p)
                      then map_option (channel_send (chat_lines (reads events))) (heap s3 p) else heap s3 p))"
  using assms by (rule chat_iteration_spec)

theorem chat_iteration_answers_witness:
  "fst (chat_iteration [Upgrade 5, Accepted 5 True, Read 5 (Some []), Read 5 (Some ''shutdown'')] False
          (mkServer \<lparr>cs_clients = []\<rparr>)) = True"
proof -
  have "enabled_all chat_handlers [Upgrade 5, Accepted 5 True, Read 5 (Some []), Read 5 (Some ''shutdown'')]
      (mkServer \<lparr>cs_clients = []\<rparr>)"
    by (simp add: mkServer_def mkChannel_def Let_def registerChannel_def at_channel_def)
  moreover have "incoming (mkServer \<lparr>cs_clients = []\<rparr>) = []" by (simp add: mkServer_def)
  ultimately obtain s' where
    "chat_iteration [Upgrade 5, Accepted 5 True, Read 5 (Some []), Read 5 (Some ''shutdown'')] False
       (mkServer \<lparr>cs_clients = []\<rparr>) = (True, s')"
    using chat_iteration_answers [OF chat_inv_start _ _ refl, of _ False] by fastforce
  then show ?thesis by simp
qed

end
