(* ===== verification/Net_Client.thy ===== *)
theory Net_Client
  imports Net_Server
begin

text \<open>
  The web socket client (\<open>lib/networking/src/Client.cpp\<close>) and the loop of \<open>executeJoinLobby\<close>
  (\<open>src/main.cpp\<close>) that joins it with the chat window. As in the server, an asynchronous operation
  is something started and not completed, and its completion is an event delivered while \<open>update\<close>
  polls. The chat window is the terminal: it delivers entered texts and collects displayed ones.
\<close>

section \<open>State\<close>

text \<open>
  A string of \<open>writeBuffer\<close> is an object that an asynchronous write refers to, so it carries the
  number of the \<open>send\<close> that made it; \<open>cl_inFlight\<close> lists the numbers of the outstanding writes.
  \<open>cl_closing\<close> counts outstanding \<open>async_close\<close> operations. The histories are not fields of the class:
  \<open>cl_sent\<close>, \<open>cl_received\<close> and \<open>cl_taken\<close> (texts given to \<open>send\<close>, read, and returned by \<open>receive\<close>),
  \<open>cl_written\<close> (texts whose write has completed), \<open>cl_open\<close> (the handshake has succeeded) and \<open>cl_misused\<close>.
  A web socket stream takes a write only when it is open and not being closed, and no other write is outstanding;
  \<open>send\<close> does not look, and \<open>cl_misused\<close> says that it has started a write against these conditions. The library
  promises nothing about the stream from then on.
\<close>

record ClientImpl =
  isClosed :: bool
  cl_connecting :: bool
  cl_handshaking :: bool
  cl_reading :: bool
  cl_closing :: nat
  incomingMessage :: string
  writeBuffer :: "(nat \<times> string) list"
  cl_inFlight :: "nat list"
  cl_sent :: "string list"
  cl_written :: "string list"
  cl_open :: bool
  cl_misused :: bool
  cl_received :: "string list"
  cl_taken :: string

definition mkClient :: ClientImpl where
  "mkClient =
     \<lparr>isClosed = False, cl_connecting = True, cl_handshaking = False, cl_reading = False,
      cl_closing = 0, incomingMessage = [], writeBuffer = [], cl_inFlight = [],
      cl_sent = [], cl_written = [], cl_open = False, cl_misused = False, cl_received = [], cl_taken = []\<rparr>"

section \<open>Operations\<close>

definition client_disconnect :: "ClientImpl \<Rightarrow> ClientImpl" where
  "client_disconnect c = c\<lparr>isClosed := True, cl_closing := Suc (cl_closing c)\<rparr>"

definition client_receive :: "ClientImpl \<Rightarrow> string \<times> ClientImpl" where
  "client_receive c =
     (incomingMessage c, c\<lparr>incomingMessage := [], cl_taken := cl_taken c @ incomingMessage c\<rparr>)"

definition write_allowed :: "ClientImpl \<Rightarrow> bool" where
  "write_allowed c \<longleftrightarrow> cl_open c \<and> \<not> isClosed c \<and> cl_inFlight c = []"

definition client_send :: "string \<Rightarrow> ClientImpl \<Rightarrow> ClientImpl" where
  "client_send message c =
     (if message = [] then c
      else
        let k = length (cl_sent c)
        in c\<lparr>writeBuffer := writeBuffer c @ [(k, message)], cl_inFlight := cl_inFlight c @ [k],
             cl_sent := cl_sent c @ [message], cl_misused := (cl_misused c \<or> \<not> write_allowed c)\<rparr>)"

text \<open>
  \<open>buffer_text k\<close> is the text in buffer \<open>k\<close>, \<open>up_wire\<close> what the client has handed to its stream: the
  texts written, and those in the writes that are outstanding.
\<close>

definition buffer_text :: "nat \<Rightarrow> ClientImpl \<Rightarrow> string list" where
  "buffer_text k c = (case map_of (writeBuffer c) k of Some t \<Rightarrow> [t] | None \<Rightarrow> [])"

definition up_wire :: "ClientImpl \<Rightarrow> string list" where
  "up_wire c = cl_written c @ concat (map (\<lambda>k. buffer_text k c) (cl_inFlight c))"

text \<open>
  \<open>ClientWrote k ok\<close> completes the write of buffer \<open>k\<close>. Its handler drops the front of the write
  buffer, whichever write has completed. An empty text read ends the chain of reads.
\<close>

datatype client_event =
    Connected bool
  | Handshaken bool
  | ClientRead "string option"
  | ClientWrote nat bool
  | ClientClosed

fun client_complete :: "client_event \<Rightarrow> ClientImpl \<Rightarrow> ClientImpl" where
  "client_complete (Connected ok) c =
     (let c1 = c\<lparr>cl_connecting := False\<rparr> in if ok then c1\<lparr>cl_handshaking := True\<rparr> else c1)"
| "client_complete (Handshaken ok) c =
     (let c1 = c\<lparr>cl_handshaking := False\<rparr> in if ok then c1\<lparr>cl_reading := True, cl_open := True\<rparr> else c1)"
| "client_complete (ClientRead r) c =
     (let c1 = c\<lparr>cl_reading := False\<rparr>
      in case r of
           Some message \<Rightarrow>
             let c2 = c1\<lparr>cl_received := cl_received c1 @ [message]\<rparr>
             in if 0 < length message
                then c2\<lparr>incomingMessage := incomingMessage c2 @ message, cl_reading := True\<rparr> else c2
         | None \<Rightarrow> client_disconnect c1)"
| "client_complete (ClientWrote k ok) c =
     (let c1 = c\<lparr>cl_inFlight := remove1 k (cl_inFlight c)\<rparr>
      in if ok then c1\<lparr>writeBuffer := tl (writeBuffer c1), cl_written := cl_written c1 @ buffer_text k c\<rparr>
         else client_disconnect c1)"
| "client_complete ClientClosed c = c\<lparr>cl_closing := cl_closing c - 1\<rparr>"

fun client_enabled :: "ClientImpl \<Rightarrow> client_event \<Rightarrow> bool" where
  "client_enabled c (Connected ok) = cl_connecting c"
| "client_enabled c (Handshaken ok) = cl_handshaking c"
| "client_enabled c (ClientRead r) = cl_reading c"
| "client_enabled c (ClientWrote k ok) = (k \<in> set (cl_inFlight c))"
| "client_enabled c ClientClosed = (0 < cl_closing c)"

fun client_update :: "client_event list \<Rightarrow> ClientImpl \<Rightarrow> ClientImpl" where
  "client_update [] c = c"
| "client_update (e # es) c = client_update es (client_complete e c)"

fun client_enabled_all :: "client_event list \<Rightarrow> ClientImpl \<Rightarrow> bool" where
  "client_enabled_all [] c = True"
| "client_enabled_all (e # es) c = (client_enabled c e \<and> client_enabled_all es (client_complete e c))"

section \<open>Joining a lobby\<close>

record Lobby =
  lobby_client :: ClientImpl
  isExitCommandReceived :: bool
  displayed :: "string list"

definition onTextEntry :: "string \<Rightarrow> Lobby \<Rightarrow> Lobby" where
  "onTextEntry t l =
     (if t = ''exit'' \<or> t = ''quit'' then l\<lparr>isExitCommandReceived := True\<rparr>
      else l\<lparr>lobby_client := client_send t (lobby_client l)\<rparr>)"

text \<open>
  One iteration, given the completions of the poll, the message of an exception it threw, and the
  text entered in the window, if any. The flag returned is the \<open>break\<close>.
\<close>

definition joinIteration ::
    "client_event list \<times> string option \<times> string option \<Rightarrow> Lobby \<Rightarrow> bool \<times> Lobby" where
  "joinIteration = (\<lambda>(events, exn, entry) l.
     let l1 = l\<lparr>lobby_client := client_update events (lobby_client l)\<rparr>
     in case exn of
          Some what \<Rightarrow> (True, l1\<lparr>displayed := displayed l1 @ [''Exception from Client update:'', what]\<rparr>)
        | None \<Rightarrow>
            let (response, c2) = client_receive (lobby_client l1);
                l2 = l1\<lparr>lobby_client := c2\<rparr>;
                l3 = (if response \<noteq> [] then l2\<lparr>displayed := displayed l2 @ [response]\<rparr> else l2)
            in (False, case entry of None \<Rightarrow> l3 | Some t \<Rightarrow> onTextEntry t l3))"

fun joinLoop :: "(client_event list \<times> string option \<times> string option) list \<Rightarrow> Lobby \<Rightarrow> Lobby" where
  "joinLoop [] l = l"
| "joinLoop (p # ps) l =
     (if isExitCommandReceived l \<or> isClosed (lobby_client l) then l
      else let (stop, l') = joinIteration p l in if stop then l' else joinLoop ps l')"

definition executeJoinLobby :: "(client_event list \<times> string option \<times> string option) list \<Rightarrow> Lobby" where
  "executeJoinLobby polls =
     joinLoop polls \<lparr>lobby_client = mkClient, isExitCommandReceived = False, displayed = []\<rparr>"

section \<open>Reachable states\<close>

inductive client_step :: "ClientImpl \<Rightarrow> ClientImpl \<Rightarrow> bool" where
  client_completion: "client_enabled c e \<Longrightarrow> client_step c (client_complete e c)"
| client_sending: "client_step c (client_send t c)"
| client_receiving: "client_step c (snd (client_receive c))"

inductive client_reachable :: "ClientImpl \<Rightarrow> bool" where
  client_start: "client_reachable mkClient"
| client_next: "client_reachable c \<Longrightarrow> client_step c c' \<Longrightarrow> client_reachable c'"

text \<open>Every text read is handed out once, in order; the connection is set up before the first read.\<close>

definition client_inv :: "ClientImpl \<Rightarrow> bool" where
  "client_inv c \<longleftrightarrow>
     concat (cl_received c) = cl_taken c @ incomingMessage c \<and>
     (cl_connecting c \<or> cl_handshaking c \<longrightarrow> cl_received c = [] \<and> \<not> cl_reading c) \<and>
     \<not> (cl_connecting c \<and> cl_handshaking c) \<and>
     (cl_reading c \<longrightarrow> [] \<notin> set (cl_received c))"

lemma client_inv_mk: "client_inv mkClient"
  by (simp add: client_inv_def mkClient_def)

lemma client_complete_inv: "client_inv c \<Longrightarrow> client_enabled c e \<Longrightarrow> client_inv (client_complete e c)"
  by (cases e) (auto simp: client_inv_def client_disconnect_def Let_def split: option.split)

lemma client_step_inv: "client_step c c' \<Longrightarrow> client_inv c \<Longrightarrow> client_inv c'"
proof (induction rule: client_step.induct)
  case (client_completion c e)
  then show ?case by (intro client_complete_inv)
qed (auto simp: client_inv_def client_send_def client_receive_def Let_def)

lemma client_reachable_inv: "client_reachable c \<Longrightarrow> client_inv c"
  by (induction rule: client_reachable.induct) (auto intro: client_inv_mk client_step_inv)

text \<open>After an empty text nothing is read any more.\<close>

lemma client_stalled_step:
  "client_step c c' \<Longrightarrow> client_inv c \<Longrightarrow> [] \<in> set (cl_received c) \<Longrightarrow> cl_received c' = cl_received c"
proof (induction rule: client_step.induct)
  case (client_completion c e)
  then show ?case by (cases e) (auto simp: client_inv_def Let_def client_disconnect_def)
qed (auto simp: client_send_def client_receive_def Let_def)

lemma client_stalled_steps:
  "client_step\<^sup>*\<^sup>* c c' \<Longrightarrow> client_inv c \<Longrightarrow> [] \<in> set (cl_received c) \<Longrightarrow>
   cl_received c' = cl_received c \<and> client_inv c'"
  by (induction rule: rtranclp_induct) (auto simp: client_stalled_step intro: client_step_inv)

section \<open>Writes\<close>

text \<open>
  As long as the stream is used as it must be, at most one write is outstanding, its buffer is the one that is
  held, and everything sent has been written or is in that write, unless the connection is being closed.
\<close>

definition writes_inv :: "ClientImpl \<Rightarrow> bool" where
  "writes_inv c \<longleftrightarrow>
     cl_misused c \<or>
     cl_written c @ map snd (writeBuffer c) = cl_sent c \<and> length (writeBuffer c) \<le> 1 \<and>
     (cl_inFlight c = map fst (writeBuffer c) \<or> isClosed c \<and> cl_inFlight c = [])"

lemma writes_inv_mk: "writes_inv mkClient"
  by (simp add: writes_inv_def mkClient_def)

lemma at_most_one: "length xs \<le> Suc 0 \<longleftrightarrow> xs = [] \<or> (\<exists>x. xs = [x])"
  by (cases xs) auto

lemma client_step_writes: "client_step c c' \<Longrightarrow> writes_inv c \<Longrightarrow> writes_inv c'"
proof (induction rule: client_step.induct)
  case (client_completion c e)
  then show ?case
    by (cases e)
       (auto simp: writes_inv_def client_disconnect_def buffer_text_def Let_def at_most_one split: option.split)
qed (auto simp: writes_inv_def client_send_def write_allowed_def client_receive_def Let_def)

lemma client_reachable_writes: "client_reachable c \<Longrightarrow> writes_inv c"
  by (induction rule: client_reachable.induct) (auto intro: writes_inv_mk client_step_writes)

lemma up_wire_sent:
  "writes_inv c \<Longrightarrow> \<not> cl_misused c \<Longrightarrow> prefix (up_wire c) (cl_sent c) \<and> (isClosed c \<or> up_wire c = cl_sent c)"
  by (auto simp: writes_inv_def up_wire_def buffer_text_def at_most_one) (metis prefixI)

text \<open>Once misused, a stream stays so.\<close>

lemma misused_send [simp]: "cl_misused c \<Longrightarrow> cl_misused (client_send t c)"
  by (simp add: client_send_def Let_def)

lemma misused_receive [simp]: "cl_misused (snd (client_receive c)) = cl_misused c"
  by (simp add: client_receive_def)

lemma misused_complete [simp]: "cl_misused (client_complete e c) = cl_misused c"
  by (cases e) (auto simp: Let_def client_disconnect_def split: option.split)

section \<open>The lobby\<close>

lemma client_update_reachable:
  "client_reachable c \<Longrightarrow> client_enabled_all es c \<Longrightarrow> client_reachable (client_update es c)"
  by (induction es arbitrary: c) (auto intro: client_next client_completion)

lemma client_update_frame [simp]:
  "cl_sent (client_update es c) = cl_sent c \<and> cl_taken (client_update es c) = cl_taken c \<and>
   cl_misused (client_update es c) = cl_misused c"
proof (induction es arbitrary: c)
  case (Cons e es)
  have "cl_sent (client_complete e c) = cl_sent c" "cl_taken (client_complete e c) = cl_taken c"
    by (cases e; auto simp: Let_def client_disconnect_def split: option.split)+
  with Cons show ?case by simp
qed simp

text \<open>What a user has entered that is neither empty nor one of the two commands.\<close>

definition entered :: "string option \<Rightarrow> string list" where
  "entered entry =
     (case entry of None \<Rightarrow> [] | Some t \<Rightarrow> if t \<in> {[], ''exit'', ''quit''} then [] else [t])"

lemma joinIteration_effect:
  assumes "joinIteration (events, exn, entry) l = (stop, l')"
  shows "stop = (exn \<noteq> None)"
    and "cl_sent (lobby_client l') = cl_sent (lobby_client l) @ (if stop then [] else entered entry)"
    and "\<not> stop \<Longrightarrow> concat (displayed l) = cl_taken (lobby_client l) \<Longrightarrow>
           concat (displayed l') = cl_taken (lobby_client l')"
    and "\<not> stop \<Longrightarrow> isExitCommandReceived l' =
           (isExitCommandReceived l \<or> entry \<in> {Some ''exit'', Some ''quit''})"
  using assms
  by (auto simp: joinIteration_def client_receive_def onTextEntry_def client_send_def entered_def Let_def
      split: option.splits if_splits)

text \<open>The texts sent over a whole session: those entered up to the first command.\<close>

fun session_texts :: "(client_event list \<times> string option \<times> string option) list \<Rightarrow> string list" where
  "session_texts [] = []"
| "session_texts ((events, exn, entry) # ps) =
     (if exn \<noteq> None then []
      else if entry \<in> {Some ''exit'', Some ''quit''} then []
      else entered entry @ session_texts ps)"

lemma joinLoop_sent:
  "\<exists>n. cl_sent (lobby_client (joinLoop ps l)) = cl_sent (lobby_client l) @ session_texts (take n ps)"
proof (induction ps arbitrary: l)
  case (Cons p ps)
  obtain events exn entry where p: "p = (events, exn, entry)" by (cases p) auto
  obtain stop l' where it: "joinIteration (events, exn, entry) l = (stop, l')" by fastforce
  note eff = joinIteration_effect [OF it]
  show ?case
  proof (cases "isExitCommandReceived l \<or> isClosed (lobby_client l)")
    case True
    then show ?thesis by (intro exI [of _ 0]) simp
  next
    case False
    show ?thesis
    proof (cases "exn = None \<and> entry \<notin> {Some ''exit'', Some ''quit''}")
      case True
      obtain n where "cl_sent (lobby_client (joinLoop ps l')) = cl_sent (lobby_client l') @ session_texts (take n ps)"
        using Cons by blast
      with True False p it eff show ?thesis by (intro exI [of _ "Suc n"]) auto
    next
      case ends: False
      have "joinLoop (p # ps) l = l' \<or> joinLoop (p # ps) l = joinLoop ps l' \<and> isExitCommandReceived l'"
        using False p it eff ends by auto
      then have "joinLoop (p # ps) l = l'" by (cases ps) auto
      with ends p eff show ?thesis
        by (intro exI [of _ 1]) (auto simp: entered_def split: if_splits)
    qed
  qed
qed simp

lemma joinLoop_displayed:
  "list_all (\<lambda>(events, exn, entry). exn = None) ps \<Longrightarrow> concat (displayed l) = cl_taken (lobby_client l) \<Longrightarrow>
   concat (displayed (joinLoop ps l)) = cl_taken (lobby_client (joinLoop ps l))"
proof (induction ps arbitrary: l)
  case (Cons p ps)
  obtain events entry where p: "p = (events, None, entry)" using Cons.prems(1) by (cases p) auto
  obtain stop l' where it: "joinIteration p l = (stop, l')" by fastforce
  show ?case using Cons joinIteration_effect [OF it [unfolded p]] it p by simp
qed simp

section \<open>Properties\<close>

lemma client_receives_all:
  assumes "client_reachable c"
  shows "concat (cl_received c) = cl_taken c @ fst (client_receive c)"
  using client_reachable_inv [OF assms] by (simp add: client_inv_def client_receive_def)

definition connected_client :: ClientImpl where
  "connected_client = client_update [Connected True, Handshaken True] mkClient"

lemma connected_client_reachable: "client_reachable connected_client"
  unfolding connected_client_def
  by (rule client_update_reachable [OF client_start]) (simp add: mkClient_def)

text \<open>
  The client hands out everything it reads, once and in order, as one stream; and one empty text
  from the server silences it for good: it is not disconnected, but nothing is ever read again.
\<close>

theorem client_reads_until_empty:
  assumes "client_reachable c" "client_step\<^sup>*\<^sup>* c c'"
  shows "concat (cl_received c) = cl_taken c @ fst (client_receive c) \<and>
    ([] \<notin> set (cl_received c) \<or> cl_received c' = cl_received c)"
  using client_receives_all [OF assms(1)] client_stalled_steps [OF assms(2) client_reachable_inv [OF assms(1)]]
  by blast

theorem client_reads_until_empty_witness:
  "\<exists>c. client_reachable c \<and> cl_received c = [''hi'', []] \<and> \<not> isClosed c \<and>
       concat (cl_received c) = cl_taken c @ fst (client_receive c)"
proof -
  let ?c = "client_update [ClientRead (Some ''hi''), ClientRead (Some [])] connected_client"
  have c: "client_reachable ?c"
    by (rule client_update_reachable [OF connected_client_reachable]) (simp add: connected_client_def mkClient_def)
  from client_reads_until_empty [OF c rtranclp.rtrancl_refl] c show ?thesis
    by (intro exI [of _ ?c]) (simp add: connected_client_def mkClient_def)
qed

text \<open>
  The server never sends what would silence a client: in every reachable state of the server no
  empty text has been given to any channel, whatever the application passes to \<open>send\<close>.
\<close>

theorem server_sends_no_empty_text:
  assumes "net_reachable H a s" "heap s p = Some ch"
  shows "[] \<notin> set (ch_sent ch) \<and> [] \<notin> set (ch_written ch) \<and> [] \<notin> set (ch_writeBuffer ch)"
proof -
  have "ch_sent ch = ch_written ch @ ch_writeBuffer ch"
    using net_invD(3) [OF net_reachable_inv [OF assms(1)] assms(2)] by (simp add: channel_inv_def)
  moreover have "[] \<notin> set (ch_sent ch)"
    using net_reachable_no_empty [OF assms(1)] assms(2) by (simp add: no_empty_def)
  ultimately show ?thesis by simp
qed

theorem server_sends_no_empty_text_witness:
  "\<exists>ch. heap two_sent 5 = Some ch \<and> [] \<notin> set (ch_writeBuffer ch)"
  using server_sends_no_empty_text [OF two_sent_reachable, of 5] two_sent_channel(2) by blast

text \<open>
  The client's writes are safe as long as the stream is used as it must be, which means that nothing is
  entered before the connection is open and no two lines between two completions: then at most one write is
  outstanding and its buffer is still held, and nothing sent waits for a write to be started.
\<close>

theorem proper_sends_safe:
  assumes "client_reachable c" "\<not> cl_misused c"
  shows "length (cl_inFlight c) \<le> 1 \<and> list_all (\<lambda>k. k \<in> set (map fst (writeBuffer c))) (cl_inFlight c) \<and>
    prefix (up_wire c) (cl_sent c) \<and> (isClosed c \<or> up_wire c = cl_sent c)"
  using client_reachable_writes [OF assms(1)] up_wire_sent [OF client_reachable_writes [OF assms(1)] assms(2)] assms(2)
  by (auto simp: writes_inv_def list_all_iff)

theorem proper_sends_safe_witness:
  "length (cl_inFlight (client_send ''hi'' connected_client)) \<le> 1 \<and> up_wire (client_send ''hi'' connected_client) = [''hi'']"
proof -
  have "client_reachable (client_send ''hi'' connected_client)"
    by (rule client_next [OF connected_client_reachable client_sending])
  moreover have "\<not> cl_misused (client_send ''hi'' connected_client)"
    by (simp add: client_send_def connected_client_def mkClient_def write_allowed_def)
  ultimately show ?thesis
    using proper_sends_safe by (fastforce simp: client_send_def connected_client_def mkClient_def)
qed

text \<open>
  C35. Nothing makes them wait: two texts entered in the lobby between two completions have two writes
  outstanding on the same stream, and if the second completes first, its handler destroys the
  buffer the first is still writing from.
\<close>

theorem lobby_sends_overlap:
  assumes "a \<notin> {[], ''exit'', ''quit''}" "b \<notin> {[], ''exit'', ''quit''}"
  shows "let c = lobby_client (executeJoinLobby
                   [([Connected True, Handshaken True], None, Some a), ([], None, Some b)])
         in cl_inFlight c = [0, 1] \<and> client_enabled c (ClientWrote 1 True) \<and>
            cl_inFlight (client_complete (ClientWrote 1 True) c) = [0] \<and>
            map fst (writeBuffer (client_complete (ClientWrote 1 True) c)) = [1]"
  using assms
  by (simp add: executeJoinLobby_def joinIteration_def onTextEntry_def client_send_def client_receive_def
      mkClient_def)

text \<open>So the stream is misused: nothing is promised of what the server reads from then on.\<close>

lemma lobby_misuses_stream:
  assumes "a \<notin> {[], ''exit'', ''quit''}" "b \<notin> {[], ''exit'', ''quit''}"
  shows "cl_misused (lobby_client (executeJoinLobby
    [([Connected True, Handshaken True], None, Some a), ([], None, Some b)]))"
  using assms
  by (simp add: executeJoinLobby_def joinIteration_def onTextEntry_def client_send_def client_receive_def
      mkClient_def write_allowed_def)

theorem lobby_sends_overlap_witness:
  "cl_inFlight (lobby_client (executeJoinLobby
     [([Connected True, Handshaken True], None, Some ''hi''), ([], None, Some ''there'')])) = [0, 1]"
  using lobby_sends_overlap [of "''hi''" "''there''"] by (simp add: Let_def)

text \<open>
  A session in a lobby: what the client sends is what was entered up to some point, without empty
  lines and without the commands \<open>exit\<close> and \<open>quit\<close>, which never reach the server; and as long as no
  poll throws, what is displayed is exactly what was received.
\<close>

theorem lobby_session:
  assumes "list_all (\<lambda>(events, exn, entry). exn = None) polls" "l = executeJoinLobby polls"
  shows "(\<exists>n. cl_sent (lobby_client l) = session_texts (take n polls)) \<and>
    ''exit'' \<notin> set (cl_sent (lobby_client l)) \<and> ''quit'' \<notin> set (cl_sent (lobby_client l)) \<and>
    concat (displayed l) = cl_taken (lobby_client l)"
proof -
  obtain n where n: "cl_sent (lobby_client l) = session_texts (take n polls)"
    using joinLoop_sent [of polls "\<lparr>lobby_client = mkClient, isExitCommandReceived = False, displayed = []\<rparr>"] assms(2)
    by (auto simp: executeJoinLobby_def mkClient_def)
  have "''exit'' \<notin> set (session_texts ps) \<and> ''quit'' \<notin> set (session_texts ps)" for ps
    by (induction ps rule: session_texts.induct) (auto simp: entered_def split: option.split)
  moreover have "concat (displayed l) = cl_taken (lobby_client l)"
    unfolding assms(2) executeJoinLobby_def by (rule joinLoop_displayed [OF assms(1)]) (simp add: mkClient_def)
  ultimately show ?thesis using n by metis
qed

theorem lobby_session_witness:
  "concat (displayed (executeJoinLobby [([Connected True, Handshaken True], None, Some ''hi''),
     ([ClientRead (Some ''5> hi'')], None, Some ''quit'')])) = ''5> hi''"
proof -
  let ?l = "executeJoinLobby [([Connected True, Handshaken True], None, Some ''hi''),
     ([ClientRead (Some ''5> hi'')], None, Some ''quit'')]"
  have "cl_taken (lobby_client ?l) = ''5> hi''"
    by (simp add: executeJoinLobby_def joinIteration_def onTextEntry_def client_send_def client_receive_def
        mkClient_def)
  with lobby_session [OF _ refl, of "[([Connected True, Handshaken True], None, Some ''hi''),
     ([ClientRead (Some ''5> hi'')], None, Some ''quit'')]"] show ?thesis by simp
qed

end
