(* ===== verification/Chat_Window.thy ===== *)
theory Chat_Window
  imports Net_Client
begin

text \<open>
  The terminal window of the chat (\<open>src/GameClient/GameChatWindow.cpp\<close>; the code of
  \<open>tools/chatclient/ChatWindow.cpp\<close> is the same). The curses and form libraries are parameters: a
  record says what a call does to the state of the screen, which the model does not look into, and
  answers the three questions the code asks. The size of the terminal and the key that \<open>getch\<close> reads
  are given to each update. What the libraries document of their calls is the hypothesis
  \<open>form_library\<close>, stated apart; a small line editor shows that it can be met.
\<close>

section \<open>The libraries\<close>

datatype window = Stdscr | View | Entry | EntrySub

datatype field_opt = O_VISIBLE | O_PUBLIC | O_EDIT | O_ACTIVE

datatype curses_call =
    Initscr | Noecho | Halfdelay int | Endwin
  | Newwin window int int int int | Derwin window window int int int int | Delwin window
  | Scrollok window bool | Wborder window string
  | Wresize window int int | Mvwin window int int | Wclear window
  | Refresh | Wrefresh window | Move int int | Wprintw window string
  | New_field int int int int int int | Set_field_buffer nat string | Set_field_opts "field_opt list"
  | New_form | Set_form_win window | Set_form_sub window | Post_form | Unpost_form | Free_form | Free_field
  | Form_driver int | Pos_form_cursor

record 'w curses =
  KEY_ENTER :: int
  KEY_BACKSPACE :: int
  KEY_DC :: int
  ERR :: int
  REQ_VALIDATION :: int
  REQ_DEL_PREV :: int
  REQ_DEL_CHAR :: int
  curses_call :: "curses_call \<Rightarrow> 'w \<Rightarrow> 'w"
  has_field :: "'w \<Rightarrow> bool"
  has_form :: "'w \<Rightarrow> bool"
  field_buffer :: "'w \<Rightarrow> string"
  getyx_entrySub :: "'w \<Rightarrow> int \<times> int"

definition calls :: "('w, 'x) curses_scheme \<Rightarrow> curses_call list \<Rightarrow> 'w \<Rightarrow> 'w" where
  "calls L cs w = fold (curses_call L) cs w"

section \<open>The window\<close>

record 'w ChatWindowImpl =
  parentX :: int
  parentY :: int
  entrySize :: int
  screen :: 'w

abbreviation entry_border :: string where
  "entry_border \<equiv> ''  - ++  ''"

text \<open>The constructor, with what \<open>getmaxyx\<close> finds. \<open>None\<close> is a failing assertion.\<close>

definition mkChatWindow ::
    "('w, 'x) curses_scheme \<Rightarrow> int \<Rightarrow> int \<times> int \<Rightarrow> 'w \<Rightarrow> 'w ChatWindowImpl option" where
  "mkChatWindow L updateDelay = (\<lambda>(maxY, maxX) w0.
     let rows = 3;
         w1 = calls L [Initscr, Noecho, Halfdelay updateDelay] w0;
         w2 = calls L [Newwin View (maxY - rows) maxX 0 0, Scrollok View True,
                       Newwin Entry rows maxX (maxY - rows) 0, Wborder Entry entry_border,
                       Derwin EntrySub Entry (rows - 1) maxX 1 0,
                       New_field (rows - 1) maxX 0 0 0 0] w1
     in if \<not> has_field L w2 then None
        else
          let w3 = calls L [Set_field_buffer 0 [], Set_field_opts [O_VISIBLE, O_PUBLIC, O_EDIT, O_ACTIVE],
                            New_form] w2
          in if \<not> has_form L w3 then None
             else Some \<lparr>parentX = maxX, parentY = maxY, entrySize = rows,
                        screen = calls L [Set_form_win Entry, Set_form_sub EntrySub, Post_form,
                                          Refresh, Wrefresh Entry] w3\<rparr>)"

definition destroyChatWindow :: "('w, 'x) curses_scheme \<Rightarrow> 'w ChatWindowImpl \<Rightarrow> 'w" where
  "destroyChatWindow L cw =
     calls L [Unpost_form, Free_form, Free_field, Delwin Entry, Delwin View, Endwin] (screen cw)"

definition on_screen ::
    "('w, 'x) curses_scheme \<Rightarrow> curses_call list \<Rightarrow> 'w ChatWindowImpl \<Rightarrow> 'w ChatWindowImpl" where
  "on_screen L cs cw = cw\<lparr>screen := calls L cs (screen cw)\<rparr>"

definition resizeOnShapeChange ::
    "('w, 'x) curses_scheme \<Rightarrow> int \<times> int \<Rightarrow> 'w ChatWindowImpl \<Rightarrow> 'w ChatWindowImpl" where
  "resizeOnShapeChange L = (\<lambda>(newY, newX) cw.
     if newY \<noteq> parentY cw \<or> newX \<noteq> parentX cw then
       let cw1 = cw\<lparr>parentX := newX, parentY := newY\<rparr>
       in on_screen L [Wresize View (parentY cw1 - entrySize cw1) (parentX cw1),
                       Wresize Entry (entrySize cw1) (parentX cw1),
                       Mvwin Entry (parentY cw1 - entrySize cw1) 0,
                       Wclear Stdscr, Wborder Entry entry_border] cw1
     else cw)"

text \<open>The arithmetic is on \<open>size_t\<close>: the \<open>int\<close> operands are converted, and the result wraps.\<close>

definition getFieldSize :: "('w, 'x) curses_scheme \<Rightarrow> 'w ChatWindowImpl \<Rightarrow> size_t" where
  "getFieldSize L cw =
     (let (y, x) = getyx_entrySub L (screen cw)
      in word_of_int y * word_of_int (parentX cw) + word_of_int x)"

text \<open>
  \<open>std::string{p, n}\<close> copies \<open>n\<close> bytes. It throws for a length no string can have, and reads past
  the end when the buffer, with its terminating zero, is shorter.
\<close>

definition getFieldString :: "('w, 'x) curses_scheme \<Rightarrow> 'w ChatWindowImpl \<Rightarrow> fault + string" where
  "getFieldString L cw =
     (let n = unat (getFieldSize L cw);
          buf = field_buffer L (screen cw) @ [CHR 0x00]
      in if 2 ^ 63 \<le> n then Inl LengthError
         else if length buf < n then Inl ReadPastEnd
         else Inr (take n buf))"

text \<open>\<open>a\<close> is the state that the callback \<open>onTextEntry\<close> works on.\<close>

definition processInput ::
    "('w, 'x) curses_scheme \<Rightarrow> (string \<Rightarrow> 'a \<Rightarrow> 'a) \<Rightarrow> int \<Rightarrow> 'w ChatWindowImpl \<times> 'a \<Rightarrow>
     fault + 'w ChatWindowImpl \<times> 'a" where
  "processInput L onEntry key = (\<lambda>(cw, a).
     if key = KEY_ENTER L \<or> key = 10 then
       let cw1 = on_screen L [Form_driver (REQ_VALIDATION L)] cw
       in bindR (getFieldString L cw1) (\<lambda>t.
            Inr (on_screen L [Move 1 1, Set_field_buffer 0 [], Refresh, Pos_form_cursor] cw1, onEntry t a))
     else if key = KEY_BACKSPACE L \<or> key = 127 then
       Inr (on_screen L [Form_driver (REQ_DEL_PREV L)] cw, a)
     else if key = KEY_DC L then Inr (on_screen L [Form_driver (REQ_DEL_CHAR L)] cw, a)
     else if key = ERR L then Inr (cw, a)
     else Inr (on_screen L [Form_driver key] cw, a))"

definition refreshWindow :: "('w, 'x) curses_scheme \<Rightarrow> 'w ChatWindowImpl \<Rightarrow> 'w ChatWindowImpl" where
  "refreshWindow L = on_screen L [Wrefresh View, Wrefresh Entry]"

text \<open>The text is passed as a C string, so it ends at its first zero.\<close>

definition displayText :: "('w, 'x) curses_scheme \<Rightarrow> string \<Rightarrow> 'w ChatWindowImpl \<Rightarrow> 'w ChatWindowImpl" where
  "displayText L t = on_screen L [Wprintw View (until (CHR 0x00) t)]"

definition window_update ::
    "('w, 'x) curses_scheme \<Rightarrow> (string \<Rightarrow> 'a \<Rightarrow> 'a) \<Rightarrow> int \<times> int \<Rightarrow> int \<Rightarrow> 'w ChatWindowImpl \<times> 'a \<Rightarrow>
     fault + 'w ChatWindowImpl \<times> 'a" where
  "window_update L onEntry maxyx key = (\<lambda>(cw, a).
     bindR (processInput L onEntry key (resizeOnShapeChange L maxyx cw, a))
       (\<lambda>(cw', a'). Inr (refreshWindow L cw', a')))"

fun window_updates ::
    "('w, 'x) curses_scheme \<Rightarrow> (string \<Rightarrow> 'a \<Rightarrow> 'a) \<Rightarrow> ((int \<times> int) \<times> int) list \<Rightarrow> 'w ChatWindowImpl \<times> 'a \<Rightarrow>
     fault + 'w ChatWindowImpl \<times> 'a" where
  "window_updates L onEntry [] s = Inr s"
| "window_updates L onEntry ((maxyx, key) # ks) s =
     bindR (window_update L onEntry maxyx key s) (window_updates L onEntry ks)"

section \<open>What is documented of the libraries\<close>

text \<open>
  \<open>field_is w l\<close>: the field holds the text \<open>l\<close>, of two rows of \<open>cols\<close> columns at most, and its
  cursor stands behind it; \<open>placed w\<close>: the cursor of the entry window stands where the field's does.
  Nothing is said of a field that is full, which may grow, nor of a deletion at the start of the second
  row.
\<close>

definition special_keys :: "('w, 'x) curses_scheme \<Rightarrow> int list" where
  "special_keys L = [KEY_ENTER L, 10, KEY_BACKSPACE L, 127, KEY_DC L, ERR L]"

definition printable :: "int \<Rightarrow> bool" where
  "printable k \<longleftrightarrow> 32 \<le> k \<and> k < 127"

definition key_char :: "int \<Rightarrow> char" where
  "key_char k = char_of (nat k)"

definition keeps_entry :: "nat \<Rightarrow> curses_call \<Rightarrow> bool" where
  "keeps_entry cols c =
     (case c of
        Move y x \<Rightarrow> True | Refresh \<Rightarrow> True | Wrefresh win \<Rightarrow> True | Wprintw win t \<Rightarrow> win = View
      | Wresize win y x \<Rightarrow> win = View \<or> (win = Entry \<and> 3 \<le> y \<and> int cols \<le> x)
      | Mvwin win y x \<Rightarrow> win = Entry | Wclear win \<Rightarrow> win = Stdscr | Wborder win b \<Rightarrow> win = Entry
      | _ \<Rightarrow> False)"

definition form_library ::
    "('w, 'x) curses_scheme \<Rightarrow> nat \<Rightarrow> ('w \<Rightarrow> string \<Rightarrow> bool) \<Rightarrow> ('w \<Rightarrow> bool) \<Rightarrow> bool" where
  "form_library L cols field_is placed \<longleftrightarrow>
     distinct (special_keys L) \<and> list_all (\<lambda>k. \<not> printable k) (special_keys L) \<and>
     (\<forall>w l k. field_is w l \<longrightarrow> printable k \<longrightarrow> length l + 1 < 2 * cols \<longrightarrow>
        field_is (curses_call L (Form_driver k) w) (l @ [key_char k]) \<and>
        placed (curses_call L (Form_driver k) w)) \<and>
     (\<forall>w l. field_is w l \<longrightarrow> length l \<noteq> cols \<longrightarrow>
        field_is (curses_call L (Form_driver (REQ_DEL_PREV L)) w) (butlast l) \<and>
        placed (curses_call L (Form_driver (REQ_DEL_PREV L)) w)) \<and>
     (\<forall>w l r. field_is w l \<longrightarrow> r \<in> {REQ_DEL_CHAR L, REQ_VALIDATION L} \<longrightarrow>
        field_is (curses_call L (Form_driver r) w) l \<and> placed (curses_call L (Form_driver r) w)) \<and>
     (\<forall>w l. field_is w l \<longrightarrow> length l < 2 * cols \<longrightarrow>
        field_buffer L (curses_call L (Form_driver (REQ_VALIDATION L)) w) =
          l @ replicate (2 * cols - length l) CHR '' '') \<and>
     (\<forall>w l. field_is w l \<longrightarrow> placed w \<longrightarrow> length l < 2 * cols \<longrightarrow>
        getyx_entrySub L w = (int (length l div cols), int (length l mod cols))) \<and>
     (\<forall>w l. field_is w l \<longrightarrow> field_is (curses_call L (Set_field_buffer 0 []) w) []) \<and>
     (\<forall>w l. field_is w l \<longrightarrow> field_is (curses_call L Pos_form_cursor w) l \<and> placed (curses_call L Pos_form_cursor w)) \<and>
     (\<forall>w l c. field_is w l \<longrightarrow> keeps_entry cols c \<longrightarrow> field_is (curses_call L c w) l) \<and>
     (\<forall>w l c. field_is w l \<longrightarrow> placed w \<longrightarrow> keeps_entry cols c \<longrightarrow> placed (curses_call L c w))"

lemma form_libraryD:
  assumes "form_library L cols field_is placed" "field_is w l"
  shows "printable k \<Longrightarrow> length l + 1 < 2 * cols \<Longrightarrow>
           field_is (curses_call L (Form_driver k) w) (l @ [key_char k]) \<and> placed (curses_call L (Form_driver k) w)"
    and "length l \<noteq> cols \<Longrightarrow> field_is (curses_call L (Form_driver (REQ_DEL_PREV L)) w) (butlast l) \<and>
           placed (curses_call L (Form_driver (REQ_DEL_PREV L)) w)"
    and "r \<in> {REQ_DEL_CHAR L, REQ_VALIDATION L} \<Longrightarrow>
           field_is (curses_call L (Form_driver r) w) l \<and> placed (curses_call L (Form_driver r) w)"
    and "length l < 2 * cols \<Longrightarrow> field_buffer L (curses_call L (Form_driver (REQ_VALIDATION L)) w) =
           l @ replicate (2 * cols - length l) CHR '' ''"
    and "placed w \<Longrightarrow> length l < 2 * cols \<Longrightarrow>
           getyx_entrySub L w = (int (length l div cols), int (length l mod cols))"
    and "field_is (curses_call L (Set_field_buffer 0 []) w) []"
    and "field_is (curses_call L Pos_form_cursor w) l \<and> placed (curses_call L Pos_form_cursor w)"
    and "keeps_entry cols c \<Longrightarrow> field_is (curses_call L c w) l"
    and "placed w \<Longrightarrow> keeps_entry cols c \<Longrightarrow> placed (curses_call L c w)"
proof -
  note law = assms(1) [unfolded form_library_def]
  show "printable k \<Longrightarrow> length l + 1 < 2 * cols \<Longrightarrow>
      field_is (curses_call L (Form_driver k) w) (l @ [key_char k]) \<and> placed (curses_call L (Form_driver k) w)"
    using law assms(2) by simp
  show "length l \<noteq> cols \<Longrightarrow> field_is (curses_call L (Form_driver (REQ_DEL_PREV L)) w) (butlast l) \<and>
      placed (curses_call L (Form_driver (REQ_DEL_PREV L)) w)"
    using law assms(2) by simp
  show "r \<in> {REQ_DEL_CHAR L, REQ_VALIDATION L} \<Longrightarrow>
      field_is (curses_call L (Form_driver r) w) l \<and> placed (curses_call L (Form_driver r) w)"
    using law assms(2) by auto
  show "length l < 2 * cols \<Longrightarrow> field_buffer L (curses_call L (Form_driver (REQ_VALIDATION L)) w) =
      l @ replicate (2 * cols - length l) CHR '' ''"
    using law assms(2) by simp
  show "placed w \<Longrightarrow> length l < 2 * cols \<Longrightarrow>
      getyx_entrySub L w = (int (length l div cols), int (length l mod cols))"
    using law assms(2) by simp
  show "field_is (curses_call L (Set_field_buffer 0 []) w) []"
    "field_is (curses_call L Pos_form_cursor w) l \<and> placed (curses_call L Pos_form_cursor w)"
    using law assms(2) by auto
  show "keeps_entry cols c \<Longrightarrow> field_is (curses_call L c w) l"
    "placed w \<Longrightarrow> keeps_entry cols c \<Longrightarrow> placed (curses_call L c w)"
    using law assms(2) by auto
qed

lemma form_library_keys:
  "form_library L cols field_is placed \<Longrightarrow> distinct (special_keys L) \<and> list_all (\<lambda>k. \<not> printable k) (special_keys L)"
  by (simp add: form_library_def)

text \<open>Every law holds of a plain line editor.\<close>

definition line_editor :: "nat \<Rightarrow> string curses" where
  "line_editor cols =
     \<lparr>KEY_ENTER = 343, KEY_BACKSPACE = 263, KEY_DC = 330, ERR = - 1,
      REQ_VALIDATION = 600, REQ_DEL_PREV = 601, REQ_DEL_CHAR = 602,
      curses_call = (\<lambda>c w. case c of
          Form_driver k \<Rightarrow> if k = 601 then butlast w else if printable k then w @ [key_char k] else w
        | Set_field_buffer n t \<Rightarrow> t
        | _ \<Rightarrow> w),
      has_field = (\<lambda>w. True), has_form = (\<lambda>w. True),
      field_buffer = (\<lambda>w. w @ replicate (2 * cols - length w) CHR '' ''),
      getyx_entrySub = (\<lambda>w. (int (length w div cols), int (length w mod cols)))\<rparr>"

lemma line_editor_calls:
  "curses_call (line_editor cols) (Form_driver k) w =
     (if k = 601 then butlast w else if printable k then w @ [key_char k] else w)"
  "curses_call (line_editor cols) (Set_field_buffer n t) w = t"
  "curses_call (line_editor cols) Pos_form_cursor w = w"
  by (simp_all add: line_editor_def)

lemma line_editor_keeps: "keeps_entry c k \<Longrightarrow> curses_call (line_editor cols) k w = w"
  by (cases k) (simp_all add: line_editor_def keeps_entry_def)

lemma line_editor_fields:
  "KEY_ENTER (line_editor cols) = 343" "KEY_BACKSPACE (line_editor cols) = 263" "KEY_DC (line_editor cols) = 330"
  "ERR (line_editor cols) = - 1" "REQ_VALIDATION (line_editor cols) = 600" "REQ_DEL_PREV (line_editor cols) = 601"
  "REQ_DEL_CHAR (line_editor cols) = 602" "has_field (line_editor cols) w" "has_form (line_editor cols) w"
  "field_buffer (line_editor cols) w = w @ replicate (2 * cols - length w) CHR '' ''"
  "getyx_entrySub (line_editor cols) w = (int (length w div cols), int (length w mod cols))"
  by (simp_all add: line_editor_def)

lemma line_editor_library: "form_library (line_editor cols) cols (\<lambda>w l. w = l) (\<lambda>w. True)"
  unfolding form_library_def
  by (intro conjI allI impI)
     (simp_all add: line_editor_calls line_editor_keeps line_editor_fields special_keys_def printable_def,
      auto simp: line_editor_calls line_editor_fields printable_def)

section \<open>The text behind a key\<close>

text \<open>What a line becomes, and which line is complete, when a key is pressed.\<close>

definition type_key :: "('w, 'x) curses_scheme \<Rightarrow> int \<Rightarrow> string \<Rightarrow> string \<times> string option" where
  "type_key L key l =
     (if key = KEY_ENTER L \<or> key = 10 then ([], Some l)
      else if key = KEY_BACKSPACE L \<or> key = 127 then (butlast l, None)
      else if key = KEY_DC L \<or> key = ERR L then (l, None)
      else (l @ [key_char key], None))"

fun typed :: "('w, 'x) curses_scheme \<Rightarrow> int list \<Rightarrow> string \<Rightarrow> string \<times> string option list" where
  "typed L [] l = (l, [])"
| "typed L (k # ks) l =
     (let (l1, e) = type_key L k l; (l2, es) = typed L ks l1 in (l2, e # es))"

text \<open>Keys that stay within the field.\<close>

definition key_fits :: "('w, 'x) curses_scheme \<Rightarrow> nat \<Rightarrow> int \<Rightarrow> string \<Rightarrow> bool" where
  "key_fits L cols key l \<longleftrightarrow>
     length l < 2 * cols \<and>
     (if key = KEY_BACKSPACE L \<or> key = 127 then length l \<noteq> cols
      else key \<in> set (special_keys L) \<or> printable key \<and> length l + 1 < 2 * cols)"

fun keys_fit :: "('w, 'x) curses_scheme \<Rightarrow> nat \<Rightarrow> int list \<Rightarrow> string \<Rightarrow> bool" where
  "keys_fit L cols [] l = True"
| "keys_fit L cols (k # ks) l = (key_fits L cols k l \<and> keys_fit L cols ks (fst (type_key L k l)))"

section \<open>The entry\<close>

lemma unat_size:
  assumes "0 \<le> y" "y < 2" "0 \<le> x" "x < c" "c < 2 ^ 31"
  shows "unat (word_of_int y * word_of_int c + word_of_int x :: size_t) = nat (y * c + x)"
    and "nat (y * c + x) < 2 * nat c"
proof -
  have y: "y = 0 \<or> y = 1" using assms by arith
  then have b: "0 \<le> y * c + x" "y * c + x < 2 * c" using assms by auto
  have "word_of_int y * word_of_int c + word_of_int x = (word_of_int (y * c + x) :: size_t)" by simp
  moreover have "take_bit 64 (y * c + x) = y * c + x"
    using b assms(5) by (intro take_bit_int_eq_self) simp_all
  ultimately show "unat (word_of_int y * word_of_int c + word_of_int x :: size_t) = nat (y * c + x)"
    by (simp only: unat_eq_nat_uint unsigned_of_int) simp
  show "nat (y * c + x) < 2 * nat c" using y assms by auto
qed

lemma getFieldString_take:
  assumes "getyx_entrySub L (screen cw) = (y, x)" "0 \<le> y" "y < 2" "0 \<le> x" "x < parentX cw" "parentX cw < 2 ^ 31"
    and "2 * nat (parentX cw) \<le> length (field_buffer L (screen cw))"
  shows "getFieldString L cw = Inr (take (nat (y * parentX cw + x)) (field_buffer L (screen cw)))"
  using assms unat_size [OF assms(2-6)] by (simp add: getFieldString_def getFieldSize_def Let_def)

lemma calls_simps [simp]:
  "calls L [] w = w" "calls L (c # cs) w = calls L cs (curses_call L c w)"
  by (simp_all add: calls_def)

lemma on_screen_fields [simp]:
  "screen (on_screen L cs cw) = calls L cs (screen cw)" "parentX (on_screen L cs cw) = parentX cw"
  "parentY (on_screen L cs cw) = parentY cw" "entrySize (on_screen L cs cw) = entrySize cw"
  by (simp_all add: on_screen_def)

lemma keeps_entry_simps [simp]:
  "keeps_entry cols (Move y x)" "keeps_entry cols Refresh" "keeps_entry cols (Wrefresh win)"
  "keeps_entry cols (Wprintw View t)" "keeps_entry cols (Wresize View y x)"
  "keeps_entry cols (Wresize Entry y x) = (3 \<le> y \<and> int cols \<le> x)"
  "keeps_entry cols (Mvwin Entry y x)" "keeps_entry cols (Wclear Stdscr)" "keeps_entry cols (Wborder Entry b)"
  by (simp_all add: keeps_entry_def)

section \<open>Editing\<close>

text \<open>The window shows the line \<open>l\<close>, and the terminal has the shape the field was made for.\<close>

definition shows_line ::
    "nat \<Rightarrow> ('w \<Rightarrow> string \<Rightarrow> bool) \<Rightarrow> ('w \<Rightarrow> bool) \<Rightarrow> 'w ChatWindowImpl \<Rightarrow> string \<Rightarrow> bool" where
  "shows_line cols field_is placed cw l \<longleftrightarrow>
     parentX cw = int cols \<and> field_is (screen cw) l \<and> placed (screen cw)"

lemma entry_cursor:
  assumes "length l < 2 * cols"
  shows "int (length l div cols) * int cols + int (length l mod cols) = int (length l)"
    and "int (length l div cols) < 2" "length l mod cols < cols"
proof -
  show "int (length l div cols) * int cols + int (length l mod cols) = int (length l)"
    by (metis div_mult_mod_eq of_nat_add of_nat_mult)
  show "int (length l div cols) < 2" "length l mod cols < cols"
    using assms by (simp_all add: less_mult_imp_div_less)
qed

lemma field_string:
  assumes "form_library L cols field_is placed" "shows_line cols field_is placed cw l" "length l < 2 * cols"
    "cols < 2 ^ 31"
  shows "getFieldString L (on_screen L [Form_driver (REQ_VALIDATION L)] cw) = Inr l"
proof -
  let ?cw = "on_screen L [Form_driver (REQ_VALIDATION L)] cw"
  note D = form_libraryD [OF assms(1)]
  have w: "field_is (screen cw) l" "parentX cw = int cols" using assms(2) by (simp_all add: shows_line_def)
  then have "field_is (screen ?cw) l" "placed (screen ?cw)"
    "field_buffer L (screen ?cw) = l @ replicate (2 * cols - length l) CHR '' ''"
    using D(3) [OF w(1), of "REQ_VALIDATION L"] D(4) [OF w(1) assms(3)] by simp_all
  moreover from this have "getyx_entrySub L (screen ?cw) = (int (length l div cols), int (length l mod cols))"
    using D(5) assms(3) by blast
  ultimately show ?thesis
    using getFieldString_take [of L ?cw "int (length l div cols)" "int (length l mod cols)"] w(2)
      entry_cursor [OF assms(3)] assms(3,4) by simp
qed

lemma keeps_calls:
  assumes "form_library L cols field_is placed" "list_all (keeps_entry cols) cs" "field_is w l" "placed w"
  shows "field_is (calls L cs w) l \<and> placed (calls L cs w)"
  using assms(2-4) by (induction cs arbitrary: w) (auto simp: form_libraryD(8,9) [OF assms(1)])

lemma entry_cleared:
  assumes "form_library L cols field_is placed" "field_is w l"
  shows "field_is (calls L [Move 1 1, Set_field_buffer 0 [], Refresh, Pos_form_cursor] w) [] \<and>
    placed (calls L [Move 1 1, Set_field_buffer 0 [], Refresh, Pos_form_cursor] w)"
proof -
  note D = form_libraryD [OF assms(1)]
  have "field_is (curses_call L (Move 1 1) w) l" using D(8) [OF assms(2)] by simp
  then have "field_is (curses_call L (Set_field_buffer 0 []) (curses_call L (Move 1 1) w)) []" by (rule D(6))
  then have "field_is (curses_call L Refresh (curses_call L (Set_field_buffer 0 []) (curses_call L (Move 1 1) w))) []"
    by (rule D(8)) simp
  then show ?thesis using D(7) by simp
qed

text \<open>One update: the line and the completed line are those of \<open>type_key\<close>.\<close>

lemma window_update_typed:
  assumes lib: "form_library L cols field_is placed" and cw: "shows_line cols field_is placed cw l"
    and fits: "key_fits L cols key l" and cols: "cols < 2 ^ 31"
  shows "\<exists>cw'. window_update L onEntry (parentY cw, int cols) key (cw, a) =
      Inr (cw', case snd (type_key L key l) of None \<Rightarrow> a | Some t \<Rightarrow> onEntry t a) \<and>
    shows_line cols field_is placed cw' (fst (type_key L key l)) \<and> parentY cw' = parentY cw"
proof -
  note D = form_libraryD [OF lib]
  have w: "parentX cw = int cols" "field_is (screen cw) l" "placed (screen cw)"
    using cw by (simp_all add: shows_line_def)
  have len: "length l < 2 * cols" using fits by (simp add: key_fits_def)
  have same: "resizeOnShapeChange L (parentY cw, int cols) cw = cw" using w by (simp add: resizeOnShapeChange_def)
  have refreshed: "shows_line cols field_is placed (refreshWindow L cw') l'"
    if "field_is (screen cw') l'" "placed (screen cw')" "parentX cw' = int cols" for cw' l'
    using that keeps_calls [OF lib, of "[Wrefresh View, Wrefresh Entry]"]
    by (simp add: shows_line_def refreshWindow_def)
  have py: "parentY (refreshWindow L cw') = parentY cw'" for cw' by (simp add: refreshWindow_def)
  have drive: "shows_line cols field_is placed (refreshWindow L (on_screen L [Form_driver k] cw)) l'"
    if "field_is (curses_call L (Form_driver k) (screen cw)) l' \<and> placed (curses_call L (Form_driver k) (screen cw))" for k l'
    using that w(1) by (intro refreshed) simp_all
  let ?cw1 = "on_screen L [Form_driver (REQ_VALIDATION L)] cw"
  consider (ret) "key = KEY_ENTER L \<or> key = 10" | (bksp) "\<not> (key = KEY_ENTER L \<or> key = 10)" "key = KEY_BACKSPACE L \<or> key = 127"
    | (dc) "\<not> (key = KEY_ENTER L \<or> key = 10)" "\<not> (key = KEY_BACKSPACE L \<or> key = 127)" "key = KEY_DC L"
    | (nothing) "\<not> (key = KEY_ENTER L \<or> key = 10)" "\<not> (key = KEY_BACKSPACE L \<or> key = 127)" "key \<noteq> KEY_DC L" "key = ERR L"
    | (chr) "key \<notin> set (special_keys L)" by (simp add: special_keys_def) metis
  then show ?thesis
  proof cases
    case ret
    have "field_is (screen ?cw1) l" using D(3) [OF w(2), of "REQ_VALIDATION L"] by simp
    from entry_cleared [OF lib this] w(1) ret show ?thesis
      by (simp add: window_update_def same processInput_def field_string [OF lib cw len cols] type_key_def py refreshed
          del: calls_simps(2))
  next
    case bksp
    with fits have "length l \<noteq> cols" by (simp add: key_fits_def)
    from drive [OF D(2) [OF w(2) this]] bksp show ?thesis
      by (simp add: window_update_def same processInput_def type_key_def py)
  next
    case dc
    from drive [OF D(3) [OF w(2), of "REQ_DEL_CHAR L"]] dc show ?thesis
      by (simp add: window_update_def same processInput_def type_key_def py)
  next
    case nothing
    then show ?thesis
      using refreshed [OF w(2,3,1)] by (simp add: window_update_def same processInput_def type_key_def py)
  next
    case chr
    with fits have "printable key" "length l + 1 < 2 * cols" by (auto simp: key_fits_def special_keys_def split: if_splits)
    from drive [OF D(1) [OF w(2) this]] chr show ?thesis
      by (simp add: window_update_def same processInput_def type_key_def py special_keys_def)
  qed
qed

lemma window_updates_typed:
  assumes "form_library L cols field_is placed" "cols < 2 ^ 31"
    and "shows_line cols field_is placed cw l" "keys_fit L cols keys l" "parentY cw = rows"
  shows "\<exists>cw'. window_updates L onEntry (map (\<lambda>k. ((rows, int cols), k)) keys) (cw, a) =
      Inr (cw', fold (\<lambda>e a. case e of None \<Rightarrow> a | Some t \<Rightarrow> onEntry t a) (snd (typed L keys l)) a) \<and>
    shows_line cols field_is placed cw' (fst (typed L keys l)) \<and> parentY cw' = rows"
  using assms(3-5)
proof (induction keys arbitrary: cw l a)
  case (Cons k ks)
  obtain l1 e where k: "type_key L k l = (l1, e)" by fastforce
  from window_update_typed [OF assms(1) Cons.prems(1) _ assms(2), of k onEntry a] Cons.prems(2) k
  obtain cw1 where cw1: "window_update L onEntry (parentY cw, int cols) k (cw, a) =
      Inr (cw1, case e of None \<Rightarrow> a | Some t \<Rightarrow> onEntry t a)"
    "shows_line cols field_is placed cw1 l1" "parentY cw1 = parentY cw" by auto
  from Cons.IH [OF cw1(2)] Cons.prems cw1 k show ?case by (simp add: case_prod_beta)
qed simp

section \<open>Another width\<close>

text \<open>
  When the terminal has become wider than the field, the position computed from the new width is not
  that of the cursor once the line has reached its second row.
\<close>

lemma widened_entry:
  assumes lib: "form_library L cols field_is placed" and cw: "shows_line cols field_is placed cw l"
    and "entrySize cw = 3" "length l < 2 * cols" "cols < c'" "c' < 2 ^ 31"
  defines "n \<equiv> (length l div cols) * c' + length l mod cols"
  shows "getFieldString L (on_screen L [Form_driver (REQ_VALIDATION L)] (resizeOnShapeChange L (rows, int c') cw)) =
    (if 2 * cols + 1 < n then Inl ReadPastEnd
     else Inr (take n (l @ replicate (2 * cols - length l) CHR '' '' @ [CHR 0x00])))"
proof -
  let ?r = "resizeOnShapeChange L (rows, int c') cw"
  let ?cw = "on_screen L [Form_driver (REQ_VALIDATION L)] ?r"
  note D = form_libraryD [OF lib]
  have w: "field_is (screen cw) l" "placed (screen cw)" "parentX cw = int cols"
    using cw by (simp_all add: shows_line_def)
  have r: "field_is (screen ?r) l" "parentX ?r = int c'"
    using keeps_calls [OF lib _ w(1,2), of "[Wresize View (rows - 3) (int c'), Wresize Entry 3 (int c'),
      Mvwin Entry (rows - 3) 0, Wclear Stdscr, Wborder Entry entry_border]"] assms(3,5) w(3)
    by (simp_all add: resizeOnShapeChange_def)
  have v: "field_is (screen ?cw) l \<and> placed (screen ?cw)"
    using D(3) [OF r(1), of "REQ_VALIDATION L"] by simp
  have buf: "field_buffer L (screen ?cw) = l @ replicate (2 * cols - length l) CHR '' ''"
    using D(4) [OF r(1) assms(4)] by simp
  have yx: "getyx_entrySub L (screen ?cw) = (int (length l div cols), int (length l mod cols))"
    using D(5) v assms(4) by blast
  have c: "int (length l div cols) < 2" "length l mod cols < c'" "parentX ?cw = int c'"
    using entry_cursor [OF assms(4)] assms(5) r(2) by simp_all
  have size: "getFieldSize L ?cw = word_of_int (int (length l div cols)) * word_of_int (int c') +
      word_of_int (int (length l mod cols))"
    by (simp only: getFieldSize_def yx c(3) Let_def prod.case)
  have "nat (int (length l div cols) * int c' + int (length l mod cols)) = n"
    by (simp add: n_def nat_int_add flip: of_nat_mult of_nat_add)
  then have "unat (getFieldSize L ?cw) = n" "n < 2 * c'"
    using unat_size [of "int (length l div cols)" "int (length l mod cols)" "int c'"] c(1,2) assms(6)
    unfolding size by simp_all
  then show ?thesis
    using assms(4,6) buf by (simp add: getFieldString_def Let_def)
qed

section \<open>Properties\<close>

text \<open>
  C21. The size computed from the cursor never wraps around and stays within the two rows of the entry, so
  the string made from the field reads within its buffer: as long as the cursor is inside the window
  and the field has as many columns as the terminal. At most \<open>2 * parentX - 1\<close> characters are taken,
  however long the text in the field has grown.
\<close>

theorem entry_size_bounds:
  assumes "getyx_entrySub L (screen cw) = (y, x)" "0 \<le> y" "y < entrySize cw - 1" "entrySize cw = 3"
    and "0 \<le> x" "x < parentX cw" "parentX cw < 2 ^ 31" "2 * nat (parentX cw) \<le> length (field_buffer L (screen cw))"
  shows "unat (getFieldSize L cw) = nat (y * parentX cw + x) \<and> unat (getFieldSize L cw) < 2 * nat (parentX cw) \<and>
    getFieldString L cw = Inr (take (nat (y * parentX cw + x)) (field_buffer L (screen cw)))"
  using assms unat_size [of y x "parentX cw"] getFieldString_take [OF assms(1,2) _ assms(5-8)]
  by (simp add: getFieldSize_def)

definition new_editor :: "nat \<Rightarrow> string ChatWindowImpl" where
  "new_editor cols = the (mkChatWindow (line_editor cols) 1 (24, int cols) [])"

lemma line_editor_other:
  "c \<in> {Initscr, Noecho, Halfdelay d, Newwin win a b y x, Scrollok win bl, Wborder win t, Derwin win win' a b y x,
     New_field a b y x e f, Set_field_opts os, New_form, Set_form_win win, Set_form_sub win, Post_form, Refresh,
     Wrefresh win} \<Longrightarrow> curses_call (line_editor cols) c w = w"
  by (auto simp: line_editor_def)

lemma new_editor_fields:
  "parentX (new_editor cols) = int cols" "parentY (new_editor cols) = 24" "entrySize (new_editor cols) = 3"
  "screen (new_editor cols) = []"
  by (simp_all add: new_editor_def mkChatWindow_def Let_def line_editor_other line_editor_calls line_editor_fields)

lemma new_editor_line:
  "shows_line cols (\<lambda>w l. w = l) (\<lambda>w. True) ((new_editor cols)\<lparr>screen := l\<rparr>) l"
  by (simp add: shows_line_def new_editor_fields)

theorem entry_size_bounds_witness:
  "getFieldString (line_editor 80) ((new_editor 80)\<lparr>screen := ''hi''\<rparr>) = Inr ''hi''"
  using entry_size_bounds [of "line_editor 80" "(new_editor 80)\<lparr>screen := ''hi''\<rparr>" 0 2]
  by (simp add: line_editor_fields new_editor_fields)

text \<open>
  C19. The window is a line editor: whatever printable ASCII and editing keys are pressed, each update acts as
  the abstract editor of one line does, and the callback gets the completed lines, exactly and in the order
  they were completed, as long as no line fills the two rows of the field, no character is taken back over the
  end of the first row, and the terminal keeps its shape.
\<close>

theorem window_edits_lines:
  assumes "form_library L cols field_is placed" "cols < 2 ^ 31"
    and "shows_line cols field_is placed cw l" "keys_fit L cols keys l" "parentY cw = rows"
  shows "\<exists>cw'. window_updates L onEntry (map (\<lambda>k. ((rows, int cols), k)) keys) (cw, a) =
      Inr (cw', fold (\<lambda>e a. case e of None \<Rightarrow> a | Some t \<Rightarrow> onEntry t a) (snd (typed L keys l)) a) \<and>
    shows_line cols field_is placed cw' (fst (typed L keys l))"
  using window_updates_typed [OF assms, of onEntry a] by blast

theorem window_edits_lines_witness:
  "\<exists>cw'. window_updates (line_editor 80) (\<lambda>t ts. ts @ [t])
     (map (\<lambda>k. ((24, 80), k)) [104, 111, 127, 105, 10, 111]) (new_editor 80, []) = Inr (cw', [''hi''])"
proof -
  have k: "key_char 104 = CHR ''h''" "key_char 111 = CHR ''o''" "key_char 105 = CHR ''i''"
    unfolding key_char_def by code_simp+
  have "shows_line 80 (\<lambda>w l. w = l) (\<lambda>w. True) (new_editor 80) []"
    by (simp add: shows_line_def new_editor_fields)
  from window_edits_lines [OF line_editor_library _ this, of "[104, 111, 127, 105, 10, 111]" 24 "\<lambda>t ts. ts @ [t]" "[]"]
  show ?thesis
    by (auto simp: line_editor_fields key_fits_def type_key_def special_keys_def printable_def new_editor_fields k)
qed

text \<open>
  C40. After the terminal has been made wider, a line that had reached its second row is not sent as it
  was typed: the position of the cursor is computed with the new width and the field keeps its old
  one. The string takes blanks behind the text or, when the terminal is wide enough, reads past the end
  of the field's buffer; only a line of one row is delivered as it stands.
\<close>

theorem widened_terminal_overreads:
  assumes "form_library L cols field_is placed" "shows_line cols field_is placed cw l"
    and "entrySize cw = 3" "length l < 2 * cols" "cols < c'" "c' < 2 ^ 31"
  shows "bindR (window_update L onEntry (rows, int c') (KEY_ENTER L) (cw, a)) (\<lambda>(_, a'). Inr a') =
    (if length l < cols then Inr (onEntry l a)
     else if 2 * cols + 1 < c' + (length l - cols) then Inl ReadPastEnd
     else Inr (onEntry (take (c' + (length l - cols)) (l @ replicate (2 * cols - length l) CHR '' '' @ [CHR 0x00])) a))"
proof -
  have "length l div cols = 1" "length l mod cols = length l - cols" if "\<not> length l < cols"
    using that assms(4) by (simp_all add: div_nat_eqI mod_if le_mod_geq)
  then show ?thesis
    using widened_entry [OF assms, of rows] assms(4)
    by (simp add: window_update_def processInput_def)
qed

theorem widened_terminal_overreads_witness:
  "bindR (window_update (line_editor 80) (\<lambda>t ts. ts @ [t]) (24, 200) 343
     ((new_editor 80)\<lparr>screen := replicate 100 CHR ''x''\<rparr>, [])) (\<lambda>(_, a'). Inr a') = Inl ReadPastEnd"
  using widened_terminal_overreads [OF line_editor_library new_editor_line [of 80 "replicate 100 CHR ''x''"],
      of 200 "\<lambda>t ts. ts @ [t]" 24 "[]"]
  by (simp add: line_editor_fields new_editor_fields)

end
