(* ===== verification/Chat_Client.thy ===== *)
theory Chat_Client
  imports Chat_Window
begin

text \<open>
  The chat window and the network client together: the loop of \<open>executeJoinLobby\<close> (\<open>src/main.cpp\<close>)
  with the window in it, and the chat client tool (\<open>tools/chatclient/chatclient.cpp\<close>). An iteration is
  given the completions of the client's poll, the message of an exception it threw, the size of the
  terminal and the key that \<open>getch\<close> reads. The lemmas show that the lobby of \<open>Net_Client\<close>, which is given
  whole lines, is what this loop does.
\<close>

type_synonym terminal_poll = "client_event list \<times> string option \<times> (int \<times> int) \<times> int"

section \<open>Joining a lobby with a window\<close>

definition window_joinIteration ::
    "('w, 'x) curses_scheme \<Rightarrow> terminal_poll \<Rightarrow> 'w ChatWindowImpl \<times> Lobby \<Rightarrow>
     fault + bool \<times> 'w ChatWindowImpl \<times> Lobby" where
  "window_joinIteration L = (\<lambda>(events, exn, maxyx, key) (cw, l).
     let l1 = l\<lparr>lobby_client := client_update events (lobby_client l)\<rparr>
     in case exn of
          Some what \<Rightarrow>
            Inr (True, displayText L what (displayText L ''Exception from Client update:'' cw),
                 l1\<lparr>displayed := displayed l1 @ [''Exception from Client update:'', what]\<rparr>)
        | None \<Rightarrow>
            let (response, c2) = client_receive (lobby_client l1);
                l2 = l1\<lparr>lobby_client := c2\<rparr>;
                (cw3, l3) = (if response \<noteq> []
                             then (displayText L response cw, l2\<lparr>displayed := displayed l2 @ [response]\<rparr>)
                             else (cw, l2))
            in bindR (window_update L onTextEntry maxyx key (cw3, l3)) (\<lambda>s'. Inr (False, s')))"

fun window_joinLoop ::
    "('w, 'x) curses_scheme \<Rightarrow> terminal_poll list \<Rightarrow> 'w ChatWindowImpl \<times> Lobby \<Rightarrow>
     fault + 'w ChatWindowImpl \<times> Lobby" where
  "window_joinLoop L [] s = Inr s"
| "window_joinLoop L (p # ps) s =
     (if isExitCommandReceived (snd s) \<or> isClosed (lobby_client (snd s)) then Inr s
      else bindR (window_joinIteration L p s) (\<lambda>(stop, s').
             if stop then Inr s' else window_joinLoop L ps s'))"

text \<open>
  The whole function, from the window's constructor to its destructor; the window waits a tenth of a
  second for a key. \<open>None\<close> is a failing assertion of the constructor.
\<close>

definition new_lobby :: Lobby where
  "new_lobby = \<lparr>lobby_client = mkClient, isExitCommandReceived = False, displayed = []\<rparr>"

definition window_executeJoinLobby ::
    "('w, 'x) curses_scheme \<Rightarrow> int \<times> int \<Rightarrow> terminal_poll list \<Rightarrow> 'w \<Rightarrow> (fault + 'w \<times> Lobby) option" where
  "window_executeJoinLobby L maxyx polls w0 =
     map_option (\<lambda>cw. bindR (window_joinLoop L polls (cw, new_lobby)) (\<lambda>(cw', l). Inr (destroyChatWindow L cw', l)))
       (mkChatWindow L 1 maxyx w0)"

section \<open>The chat client tool\<close>

text \<open>An exception of the poll ends this loop too, but only after the rest of the iteration.\<close>

definition chatclient_iteration ::
    "('w, 'x) curses_scheme \<Rightarrow> terminal_poll \<Rightarrow> 'w ChatWindowImpl \<times> Lobby \<Rightarrow> fault + 'w ChatWindowImpl \<times> Lobby" where
  "chatclient_iteration L = (\<lambda>(events, exn, maxyx, key) (cw, l).
     let l1 = l\<lparr>lobby_client := client_update events (lobby_client l)\<rparr>;
         (cw2, l2) = (case exn of
             Some what \<Rightarrow>
               (displayText L what (displayText L ''Exception from Client update:'' cw),
                l1\<lparr>displayed := displayed l1 @ [''Exception from Client update:'', what],
                   isExitCommandReceived := True\<rparr>)
           | None \<Rightarrow> (cw, l1));
         (response, c) = client_receive (lobby_client l2);
         l3 = l2\<lparr>lobby_client := c\<rparr>;
         (cw4, l4) = (if response \<noteq> []
                      then (displayText L response cw2, l3\<lparr>displayed := displayed l3 @ [response]\<rparr>)
                      else (cw2, l3))
     in window_update L onTextEntry maxyx key (cw4, l4))"

fun chatclient_loop ::
    "('w, 'x) curses_scheme \<Rightarrow> terminal_poll list \<Rightarrow> 'w ChatWindowImpl \<times> Lobby \<Rightarrow>
     fault + 'w ChatWindowImpl \<times> Lobby" where
  "chatclient_loop L [] s = Inr s"
| "chatclient_loop L (p # ps) s =
     (if isExitCommandReceived (snd s) \<or> isClosed (lobby_client (snd s)) then Inr s
      else bindR (chatclient_iteration L p s) (chatclient_loop L ps))"

text \<open>The program returns 1 without its two arguments, and 0 otherwise.\<close>

definition chatclient_main ::
    "('w, 'x) curses_scheme \<Rightarrow> int \<Rightarrow> int \<times> int \<Rightarrow> terminal_poll list \<Rightarrow> 'w \<Rightarrow>
     (fault + int \<times> ('w \<times> Lobby) option) option" where
  "chatclient_main L argc maxyx polls w0 =
     (if argc < 3 then Some (Inr (1, None))
      else map_option (\<lambda>cw. bindR (chatclient_loop L polls (cw, new_lobby))
                              (\<lambda>(cw', l). Inr (0, Some (destroyChatWindow L cw', l))))
             (mkChatWindow L 1 maxyx w0))"

section \<open>Lines instead of keys\<close>

fun with_entries ::
    "terminal_poll list \<Rightarrow> string option list \<Rightarrow> (client_event list \<times> string option \<times> string option) list" where
  "with_entries ((events, exn, _) # ps) (e # es) = (events, exn, e) # with_entries ps es"
| "with_entries _ _ = []"

definition poll_key :: "terminal_poll \<Rightarrow> int" where
  "poll_key p = snd (snd (snd p))"

definition same_shape :: "int \<times> int \<Rightarrow> terminal_poll list \<Rightarrow> bool" where
  "same_shape maxyx ps \<longleftrightarrow> list_all (\<lambda>p. fst (snd (snd p)) = maxyx) ps"

lemma shows_line_display:
  "form_library L cols field_is placed \<Longrightarrow> shows_line cols field_is placed cw l \<Longrightarrow>
   shows_line cols field_is placed (displayText L t cw) l \<and> parentY (displayText L t cw) = parentY cw"
  using keeps_calls [of L cols field_is placed "[Wprintw View (until (CHR 0x00) t)]" "screen cw" l]
  by (simp add: shows_line_def displayText_def)

lemma window_iteration_refines:
  assumes lib: "form_library L cols field_is placed" "cols < 2 ^ 31"
    and cw: "shows_line cols field_is placed cw line" "key_fits L cols key line"
    and j: "joinIteration (events, exn, snd (type_key L key line)) l = (stop, l')"
  shows "\<exists>cw'. window_joinIteration L (events, exn, (parentY cw, int cols), key) (cw, l) = Inr (stop, cw', l') \<and>
    (\<not> stop \<longrightarrow> shows_line cols field_is placed cw' (fst (type_key L key line)) \<and> parentY cw' = parentY cw)"
proof (cases exn)
  case (Some what)
  with j show ?thesis by (auto simp: window_joinIteration_def joinIteration_def)
next
  case None
  let ?l1 = "l\<lparr>lobby_client := client_update events (lobby_client l)\<rparr>"
  obtain response c where r: "client_receive (lobby_client ?l1) = (response, c)" by fastforce
  let ?cw3 = "if response \<noteq> [] then displayText L response cw else cw"
  let ?l3 = "if response \<noteq> [] then ?l1\<lparr>lobby_client := c, displayed := displayed ?l1 @ [response]\<rparr>
             else ?l1\<lparr>lobby_client := c\<rparr>"
  have "shows_line cols field_is placed ?cw3 line" "parentY ?cw3 = parentY cw"
    using shows_line_display [OF lib(1) cw(1)] cw(1) by simp_all
  with window_update_typed [OF lib(1) _ cw(2) lib(2), of ?cw3 onTextEntry ?l3] obtain cw' where
    u: "window_update L onTextEntry (parentY cw, int cols) key (?cw3, ?l3) =
      Inr (cw', case snd (type_key L key line) of None \<Rightarrow> ?l3 | Some t \<Rightarrow> onTextEntry t ?l3)"
    "shows_line cols field_is placed cw' (fst (type_key L key line))" "parentY cw' = parentY cw" by auto
  moreover have "stop = False" "l' = (case snd (type_key L key line) of None \<Rightarrow> ?l3 | Some t \<Rightarrow> onTextEntry t ?l3)"
    using j None r by (auto simp: joinIteration_def Let_def split: option.split)
  ultimately show ?thesis
    using None r by (cases "response = []") (simp_all add: window_joinIteration_def)
qed

lemma window_joinLoop_refines:
  assumes "form_library L cols field_is placed" "cols < 2 ^ 31"
    and "shows_line cols field_is placed cw line" "keys_fit L cols (map poll_key polls) line"
    and "same_shape (parentY cw, int cols) polls"
  shows "\<exists>cw'. window_joinLoop L polls (cw, l) =
    Inr (cw', joinLoop (with_entries polls (snd (typed L (map poll_key polls) line))) l)"
  using assms(3-5)
proof (induction polls arbitrary: cw line l)
  case (Cons p ps)
  obtain events exn maxyx key where p: "p = (events, exn, maxyx, key)" by (cases p) auto
  with Cons.prems(3) have yx: "maxyx = (parentY cw, int cols)" by (simp add: same_shape_def)
  obtain line1 e where k: "type_key L key line = (line1, e)" by fastforce
  obtain stop l1 where j: "joinIteration (events, exn, e) l = (stop, l1)" by fastforce
  have "key_fits L cols key line" using Cons.prems(2) by (simp add: p poll_key_def)
  from window_iteration_refines [OF assms(1,2) Cons.prems(1) this, of events exn l stop l1] j k obtain cw1 where
    it: "window_joinIteration L p (cw, l) = Inr (stop, cw1, l1)"
    "\<not> stop \<longrightarrow> shows_line cols field_is placed cw1 line1 \<and> parentY cw1 = parentY cw"
    unfolding p yx by auto
  show ?case
  proof (cases "stop \<or> isExitCommandReceived l \<or> isClosed (lobby_client l)")
    case True
    with it j show ?thesis by (auto simp: p poll_key_def k case_prod_beta)
  next
    case False
    with it have "shows_line cols field_is placed cw1 line1" "parentY cw1 = parentY cw" by simp_all
    from Cons.IH [OF this(1), of l1] Cons.prems this(2) p k False it j show ?thesis
      by (simp add: poll_key_def same_shape_def case_prod_beta)
  qed
qed simp

section \<open>What is sent\<close>

text \<open>Completions that do not close the client: no read and no write fails.\<close>

fun quiet_event :: "client_event \<Rightarrow> bool" where
  "quiet_event (ClientRead r) = (r \<noteq> None)"
| "quiet_event (ClientWrote k ok) = ok"
| "quiet_event _ = True"

lemma quiet_update: "list_all quiet_event es \<Longrightarrow> isClosed (client_update es c) = isClosed c"
proof (induction es arbitrary: c)
  case (Cons e es)
  then have "isClosed (client_complete e c) = isClosed c" by (cases e) (auto simp: Let_def split: option.split)
  with Cons show ?case by simp
qed simp

lemma quiet_iteration:
  "list_all quiet_event events \<Longrightarrow> joinIteration (events, None, entry) l = (stop, l') \<Longrightarrow>
   isClosed (lobby_client l') = isClosed (lobby_client l)"
  by (auto simp: joinIteration_def Let_def client_receive_def onTextEntry_def client_send_def quiet_update
      split: option.splits if_splits)

definition quiet_poll :: "client_event list \<times> string option \<times> 'b \<Rightarrow> bool" where
  "quiet_poll p \<longleftrightarrow> list_all quiet_event (fst p) \<and> fst (snd p) = None"

lemma joinLoop_sent_quiet:
  "list_all quiet_poll ps \<Longrightarrow> \<not> isExitCommandReceived l \<Longrightarrow> \<not> isClosed (lobby_client l) \<Longrightarrow>
   cl_sent (lobby_client (joinLoop ps l)) = cl_sent (lobby_client l) @ session_texts ps"
proof (induction ps arbitrary: l)
  case (Cons p ps)
  obtain events entry where p: "p = (events, None, entry)" "list_all quiet_event events"
    using Cons.prems(1) by (cases p) (auto simp: quiet_poll_def)
  obtain stop l' where it: "joinIteration (events, None, entry) l = (stop, l')" by fastforce
  note eff = joinIteration_effect [OF it] and quiet = quiet_iteration [OF p(2) it]
  show ?case
  proof (cases "entry \<in> {Some ''exit'', Some ''quit''}")
    case True
    then have "joinLoop ps l' = l'" using eff by (cases ps) auto
    with True Cons.prems p it eff show ?thesis by (auto simp: entered_def)
  next
    case False
    then show ?thesis using Cons p it eff quiet by (simp add: quiet_poll_def)
  qed
qed simp

definition completed :: "string option list \<Rightarrow> string list" where
  "completed es = concat (map (case_option [] (\<lambda>t. [t])) es)"

lemma session_texts_completed:
  "length es = length polls \<Longrightarrow> list_all quiet_poll polls \<Longrightarrow>
   session_texts (with_entries polls es) =
     takeWhile (\<lambda>t. t \<notin> {''exit'', ''quit''}) (filter (\<lambda>t. t \<noteq> []) (completed es))"
proof (induction polls es rule: with_entries.induct)
  case (1 events exn rest ps e es)
  then show ?case by (cases e) (auto simp: quiet_poll_def completed_def entered_def)
qed (simp_all add: completed_def)

lemma typed_length: "length (snd (typed L ks l)) = length ks"
  by (induction ks arbitrary: l) (simp_all add: case_prod_beta)

lemma with_entries_quiet:
  "list_all quiet_poll polls \<Longrightarrow> list_all quiet_poll (with_entries polls es)"
  by (induction polls es rule: with_entries.induct) (auto simp: quiet_poll_def)

lemma chatclient_loop_lobby:
  "list_all (\<lambda>p. fst (snd p) = None) polls \<Longrightarrow> chatclient_loop L polls s = window_joinLoop L polls s"
proof (induction polls arbitrary: s)
  case (Cons p ps)
  obtain events maxyx key cw l where p: "p = (events, None, maxyx, key)" "s = (cw, l)"
    using Cons.prems by (cases p; cases s) auto
  have "window_joinIteration L p s = bindR (chatclient_iteration L p s) (\<lambda>s'. Inr (False, s'))"
    by (simp add: p window_joinIteration_def chatclient_iteration_def Let_def split: prod.split)
  then show ?case using Cons by (cases "chatclient_iteration L p s") simp_all
qed simp

section \<open>Properties\<close>

text \<open>
  C18. The lobby that reads keys from a terminal refines the lobby that is given lines: for every sequence
  of keys that stays within the entry field, and whatever the network does meanwhile, the loop with
  the window returns, and leaves the lobby that the loop over the lines of the abstract editor leaves.
\<close>

theorem window_join_refines:
  assumes "form_library L cols field_is placed" "cols < 2 ^ 31"
    and "shows_line cols field_is placed cw line" "keys_fit L cols (map poll_key polls) line"
    and "same_shape (parentY cw, int cols) polls"
  shows "\<exists>cw'. window_joinLoop L polls (cw, l) =
    Inr (cw', joinLoop (with_entries polls (snd (typed L (map poll_key polls) line))) l)"
  using window_joinLoop_refines [OF assms, of l] .

abbreviation typing :: "client_event list \<Rightarrow> int \<Rightarrow> terminal_poll" where
  "typing events key \<equiv> (events, None, (24, 80), key)"

definition hi_quit :: "terminal_poll list" where
  "hi_quit = typing [Connected True, Handshaken True] 104 # typing [] 105 # typing [] 10 #
     typing [ClientWrote 0 True] 113 # map (typing []) [117, 105, 116, 10]"

lemma hi_quit_keys:
  "map poll_key hi_quit = [104, 105, 10, 113, 117, 105, 116, 10]"
  "same_shape (parentY (new_editor 80), int 80) hi_quit" "list_all quiet_poll hi_quit"
  "keys_fit (line_editor 80) 80 (map poll_key hi_quit) []"
  "snd (typed (line_editor 80) (map poll_key hi_quit) []) =
     [None, None, Some ''hi'', None, None, None, None, Some ''quit'']"
proof -
  have k: "key_char 104 = CHR ''h''" "key_char 105 = CHR ''i''" "key_char 113 = CHR ''q''"
    "key_char 117 = CHR ''u''" "key_char 116 = CHR ''t''"
    unfolding key_char_def by code_simp+
  show keys: "map poll_key hi_quit = [104, 105, 10, 113, 117, 105, 116, 10]"
    by (simp add: hi_quit_def poll_key_def)
  show "same_shape (parentY (new_editor 80), int 80) hi_quit" "list_all quiet_poll hi_quit"
    by (simp_all add: hi_quit_def same_shape_def new_editor_fields quiet_poll_def)
  show "keys_fit (line_editor 80) 80 (map poll_key hi_quit) []"
    unfolding keys by (simp add: key_fits_def type_key_def special_keys_def printable_def line_editor_fields k)
  show "snd (typed (line_editor 80) (map poll_key hi_quit) []) =
      [None, None, Some ''hi'', None, None, None, None, Some ''quit'']"
    unfolding keys by (simp add: type_key_def line_editor_fields k)
qed

lemma new_editor_empty: "shows_line 80 (\<lambda>w l. w = l) (\<lambda>w. True) (new_editor 80) []"
  by (simp add: shows_line_def new_editor_fields)

theorem window_join_refines_witness:
  "\<exists>cw' l'. window_joinLoop (line_editor 80) hi_quit (new_editor 80, new_lobby) = Inr (cw', l') \<and>
     l' = executeJoinLobby (with_entries hi_quit [None, None, Some ''hi'', None, None, None, None, Some ''quit''])"
  using window_join_refines [OF line_editor_library _ new_editor_empty hi_quit_keys(4,2), of new_lobby]
  by (simp add: hi_quit_keys(5) executeJoinLobby_def new_lobby_def)

text \<open>
  C20. From the keyboard to the network: while the connection holds, the client is given to send exactly the
  lines completed in the window before the first \<open>exit\<close> or \<open>quit\<close>, in order, without the empty ones; and
  the chat client tool, whose loop is another, does the same.
\<close>

theorem typed_lines_sent:
  assumes "form_library L cols field_is placed" "cols < 2 ^ 31"
    and "shows_line cols field_is placed cw line" "keys_fit L cols (map poll_key polls) line"
    and "same_shape (parentY cw, int cols) polls" "list_all quiet_poll polls"
  shows "\<exists>cw' l'. window_joinLoop L polls (cw, new_lobby) = Inr (cw', l') \<and>
    chatclient_loop L polls (cw, new_lobby) = Inr (cw', l') \<and>
    cl_sent (lobby_client l') =
      takeWhile (\<lambda>t. t \<notin> {''exit'', ''quit''})
        (filter (\<lambda>t. t \<noteq> []) (completed (snd (typed L (map poll_key polls) line))))"
proof -
  let ?es = "snd (typed L (map poll_key polls) line)"
  let ?l = "joinLoop (with_entries polls ?es) new_lobby"
  have "\<exists>cw'. window_joinLoop L polls (cw, new_lobby) = Inr (cw', ?l)"
    using window_joinLoop_refines [OF assms(1-5)] .
  moreover have "chatclient_loop L polls (cw, new_lobby) = window_joinLoop L polls (cw, new_lobby)"
    using assms(6) by (intro chatclient_loop_lobby) (auto simp: list_all_iff quiet_poll_def)
  moreover have "cl_sent (lobby_client ?l) = session_texts (with_entries polls ?es)"
    using joinLoop_sent_quiet [OF with_entries_quiet [OF assms(6)], of new_lobby]
    by (simp add: new_lobby_def mkClient_def)
  moreover have "length ?es = length polls" by (simp add: typed_length)
  ultimately show ?thesis using session_texts_completed [OF _ assms(6), of ?es] by auto
qed

theorem typed_lines_sent_witness:
  "\<exists>cw' l'. window_joinLoop (line_editor 80) hi_quit (new_editor 80, new_lobby) = Inr (cw', l') \<and>
     cl_sent (lobby_client l') = [''hi'']"
  using typed_lines_sent [OF line_editor_library _ new_editor_empty hi_quit_keys(4,2,3)]
  by (auto simp: hi_quit_keys(5) completed_def)

end
