(* ===== verification/Http_Session.thy ===== *)
theory Http_Session
  imports Net_Server
begin

text \<open>
  The HTTP side of the server (\<open>HTTPSession\<close> and \<open>listenForConnections\<close> of
  \<open>lib/networking/src/Server.cpp\<close>): each accepted socket gets a session that reads requests,
  answers them with the one page the server has, or hands the socket to a new web socket channel.
  The asynchronous reads and writes of a session are operations started and not completed;
  whether a response asks for the end of the stream (\<open>need_eof\<close>) is Boost's and is a parameter. After a write
  that fails the code shuts its side of the socket down with a call that may throw: the exception leaves the
  poll, where it is the flag of \<open>runIteration\<close>.
\<close>

section \<open>Requests and responses\<close>

datatype verb = VerbGet | VerbHead | VerbOther

record HttpRequest =
  rq_method :: verb
  rq_target :: string
  rq_keep_alive :: bool
  rq_upgrade :: bool

datatype http_status = StatusOk | StatusBadRequest

record HttpResponse =
  rs_status :: http_status
  rs_body :: string
  rs_content_length :: nat
  rs_keep_alive :: bool

definition badRequest :: "HttpRequest \<Rightarrow> string \<Rightarrow> HttpResponse" where
  "badRequest request why =
     \<lparr>rs_status = StatusBadRequest, rs_body = why, rs_content_length = length why,
      rs_keep_alive = rq_keep_alive request\<rparr>"

definition shouldServeIndex :: "string \<Rightarrow> bool" where
  "shouldServeIndex target \<longleftrightarrow>
     (let index = ''/index.html''
      in target = ''/'' \<or>
         (length index \<le> length target \<and> drop (length target - length index) target = index))"

definition okResponse :: "string \<Rightarrow> HttpRequest \<Rightarrow> HttpResponse" where
  "okResponse body request =
     \<lparr>rs_status = StatusOk, rs_body = (if rq_method request = VerbHead then [] else body),
      rs_content_length = length body, rs_keep_alive = rq_keep_alive request\<rparr>"

text \<open>
  The responses \<open>handleRequest\<close> starts to write, in order. The two refusals are not followed by a
  return in the code, so the page is always sent as well.
\<close>

definition handleRequest :: "string \<Rightarrow> HttpRequest \<Rightarrow> HttpResponse list" where
  "handleRequest httpMessage request =
     (if rq_method request \<noteq> VerbGet \<and> rq_method request \<noteq> VerbHead
      then [badRequest request ''Unknown HTTP-method''] else []) @
     (if \<not> shouldServeIndex (rq_target request)
      then [badRequest request ''Illegal request-target''] else []) @
     [okResponse httpMessage request]"

section \<open>Sessions\<close>

text \<open>
  \<open>hs_request\<close> is the member \<open>request\<close> that every read of the session fills, \<open>None\<close> while it is empty;
  \<open>hs_reading\<close> counts the outstanding \<open>async_read\<close> operations, \<open>hs_writing\<close> lists the responses
  of the outstanding \<open>async_write\<close> operations, \<open>hs_upgraded\<close> says that the socket has been moved
  to a channel. What a read that fails leaves in \<open>request\<close> nothing looks at.
\<close>

record HTTPSession =
  hs_request :: "HttpRequest option"
  hs_reading :: nat
  hs_writing :: "HttpResponse list"
  hs_upgraded :: bool
  hs_shutdown :: bool

definition mkHTTPSession :: HTTPSession where
  "mkHTTPSession =
     \<lparr>hs_request = None, hs_reading = 0, hs_writing = [], hs_upgraded = False, hs_shutdown = False\<rparr>"

definition http_start :: "HTTPSession \<Rightarrow> HTTPSession" where
  "http_start s = s\<lparr>hs_reading := Suc (hs_reading s)\<rparr>"

text \<open>
  \<open>HttpRead\<close> completes a read with a request or an error, \<open>HttpWrote k ok\<close> the \<open>k\<close>-th of the
  outstanding writes.
\<close>

datatype http_event = HttpRead "HttpRequest option" | HttpWrote nat bool

fun http_enabled :: "HTTPSession \<Rightarrow> http_event \<Rightarrow> bool" where
  "http_enabled s (HttpRead r) = (0 < hs_reading s)"
| "http_enabled s (HttpWrote k ok) = (k < length (hs_writing s))"

fun http_complete :: "(HttpResponse \<Rightarrow> bool) \<Rightarrow> string \<Rightarrow> http_event \<Rightarrow> HTTPSession \<Rightarrow> HTTPSession" where
  "http_complete needEof httpMessage (HttpRead r) s =
     (let s1 = s\<lparr>hs_reading := hs_reading s - 1\<rparr>
      in case r of
           None \<Rightarrow> s1
         | Some request \<Rightarrow>
             let s2 = s1\<lparr>hs_request := Some request\<rparr>
             in if rq_upgrade request then s2\<lparr>hs_upgraded := True\<rparr>
                else s2\<lparr>hs_writing := hs_writing s2 @ handleRequest httpMessage request\<rparr>)"
| "http_complete needEof httpMessage (HttpWrote k ok) s =
     (let response = hs_writing s ! k;
          s1 = s\<lparr>hs_writing := take k (hs_writing s) @ drop (Suc k) (hs_writing s)\<rparr>
      in if \<not> ok then s1\<lparr>hs_shutdown := True\<rparr>
         else if needEof response then s1\<lparr>hs_shutdown := True\<rparr>
         else http_start s1)"

section \<open>Accepting connections\<close>

text \<open>The sessions the server has started, and the number of outstanding accepts.\<close>

record Acceptor =
  ac_sessions :: "HTTPSession list"
  ac_accepting :: nat

definition listenForConnections :: "Acceptor \<Rightarrow> Acceptor" where
  "listenForConnections a = a\<lparr>ac_accepting := Suc (ac_accepting a)\<rparr>"

definition afterAccept :: "bool \<Rightarrow> Acceptor \<Rightarrow> Acceptor" where
  "afterAccept ok a =
     (let a1 = a\<lparr>ac_accepting := ac_accepting a - 1\<rparr>
      in listenForConnections
           (if ok then a1\<lparr>ac_sessions := ac_sessions a1 @ [http_start mkHTTPSession]\<rparr> else a1))"

section \<open>Behaviour\<close>

text \<open>A request the server answers as HTTP wants: a known method and the one page it has.\<close>

definition proper_request :: "HttpRequest \<Rightarrow> bool" where
  "proper_request r \<longleftrightarrow> rq_method r \<in> {VerbGet, VerbHead} \<and> shouldServeIndex (rq_target r)"

lemma shouldServeIndex_iff: "shouldServeIndex t \<longleftrightarrow> t = ''/'' \<or> (\<exists>p. t = p @ ''/index.html'')"
proof -
  have "length i \<le> length t \<and> drop (length t - length i) t = i \<longleftrightarrow> (\<exists>p. t = p @ i)" for i :: string
  proof (intro iffI conjI)
    assume "length i \<le> length t \<and> drop (length t - length i) t = i"
    then show "\<exists>p. t = p @ i" by (metis append_take_drop_id)
  qed auto
  then show ?thesis unfolding shouldServeIndex_def Let_def by blast
qed

lemma handleRequest_proper: "proper_request r \<Longrightarrow> handleRequest body r = [okResponse body r]"
  by (auto simp: proper_request_def handleRequest_def)

lemma handleRequest_improper: "\<not> proper_request r \<Longrightarrow> 2 \<le> length (handleRequest body r)"
  by (auto simp: proper_request_def handleRequest_def)

inductive http_reachable :: "(HttpRequest \<Rightarrow> bool) \<Rightarrow> (HttpResponse \<Rightarrow> bool) \<Rightarrow> string \<Rightarrow> HTTPSession \<Rightarrow> bool"
  for P needEof body where
  http_begin: "http_reachable P needEof body (http_start mkHTTPSession)"
| http_step: "http_reachable P needEof body s \<Longrightarrow> http_enabled s e \<Longrightarrow>
     (\<And>r. e = HttpRead (Some r) \<Longrightarrow> P r) \<Longrightarrow> http_reachable P needEof body (http_complete needEof body e s)"

text \<open>
  While its requests are proper or ask for a web socket, a session has one operation outstanding at most,
  and none once its socket has been moved to a channel.
\<close>

definition polite_request :: "HttpRequest \<Rightarrow> bool" where
  "polite_request r \<longleftrightarrow> rq_upgrade r \<or> proper_request r"

definition http_serial :: "HTTPSession \<Rightarrow> bool" where
  "http_serial s \<longleftrightarrow>
     hs_reading s + length (hs_writing s) \<le> 1 \<and> list_all (\<lambda>r. rs_status r = StatusOk) (hs_writing s) \<and>
     (hs_upgraded s \<longrightarrow> hs_reading s = 0 \<and> hs_writing s = [])"

lemma http_serial_start: "http_serial (http_start mkHTTPSession)"
  by (simp add: http_serial_def http_start_def mkHTTPSession_def)

lemma http_serial_complete:
  assumes "http_serial s" "http_enabled s e" "\<And>r. e = HttpRead (Some r) \<Longrightarrow> polite_request r"
  shows "http_serial (http_complete needEof body e s)"
proof (cases e)
  case (HttpRead r)
  have "0 < hs_reading s" using assms(2) HttpRead by simp
  moreover have "hs_reading s + length (hs_writing s) \<le> 1" using assms(1) by (simp add: http_serial_def)
  ultimately have "hs_reading s = 1" "length (hs_writing s) = 0" by linarith+
  then have "hs_reading s = 1" "hs_writing s = []" by simp_all
  moreover have "\<not> hs_upgraded s" using assms(1) calculation by (auto simp: http_serial_def)
  moreover have "rq_upgrade x \<or> handleRequest body x = [okResponse body x]" if "r = Some x" for x
    using assms(3) HttpRead that handleRequest_proper by (auto simp: polite_request_def)
  ultimately show ?thesis
    using HttpRead by (fastforce simp: http_serial_def Let_def okResponse_def split: option.split)
next
  case (HttpWrote k ok)
  then have "length (hs_writing s) = 1" "hs_reading s = 0" "k = 0" "\<not> hs_upgraded s"
    using assms(1,2) by (auto simp: http_serial_def)
  then show ?thesis using HttpWrote by (auto simp: http_serial_def Let_def http_start_def)
qed

lemma http_reachable_serial: "http_reachable polite_request needEof body s \<Longrightarrow> http_serial s"
  by (induction rule: http_reachable.induct) (auto simp: http_serial_start http_serial_complete)

section \<open>Properties\<close>

text \<open>
  A proper request, GET or HEAD of a target that is \<open>/\<close> or ends in \<open>/index.html\<close>, gets exactly one
  response, the page. Any other request gets the page too, after one refusal or two.
\<close>

theorem handleRequest_responses:
  "if rq_method r \<in> {VerbGet, VerbHead} \<and> (rq_target r = ''/'' \<or> (\<exists>p. rq_target r = p @ ''/index.html''))
   then handleRequest body r = [okResponse body r]
   else 2 \<le> length (handleRequest body r) \<and> last (handleRequest body r) = okResponse body r \<and>
        rs_status (hd (handleRequest body r)) = StatusBadRequest"
  unfolding shouldServeIndex_iff [symmetric]
  by (auto simp: handleRequest_def badRequest_def)

text \<open>
  As long as a session's requests are proper or ask for a web socket it has one asynchronous operation
  outstanding at most, and only the page is ever on its way.
\<close>

theorem proper_session_serial:
  assumes "http_reachable polite_request needEof body s"
  shows "hs_reading s + length (hs_writing s) \<le> 1 \<and> list_all (\<lambda>r. rs_status r = StatusOk) (hs_writing s)"
  using http_reachable_serial [OF assms] by (simp add: http_serial_def)

definition get_index :: HttpRequest where
  "get_index = \<lparr>rq_method = VerbGet, rq_target = ''/'', rq_keep_alive = True, rq_upgrade = False\<rparr>"

theorem proper_session_serial_witness:
  "length (hs_writing (http_complete (\<lambda>r. \<not> rs_keep_alive r) ''page'' (HttpRead (Some get_index)) (http_start mkHTTPSession))) = 1"
proof -
  have "http_reachable polite_request (\<lambda>r. \<not> rs_keep_alive r) ''page''
      (http_complete (\<lambda>r. \<not> rs_keep_alive r) ''page'' (HttpRead (Some get_index)) (http_start mkHTTPSession))"
    by (rule http_step [OF http_begin])
       (auto simp: http_start_def polite_request_def proper_request_def get_index_def shouldServeIndex_def)
  from proper_session_serial [OF this] show ?thesis
    by (simp add: http_start_def mkHTTPSession_def get_index_def handleRequest_def)
qed

text \<open>
  C34. One improper request breaks that: right after it a session has at least two writes outstanding on
  one socket; and with the connection kept alive, once they are done it reads twice at a time into
  the same request.
\<close>

theorem improper_request_overlaps:
  assumes "\<not> proper_request r" "\<not> rq_upgrade r" "hs_reading s = 1" "hs_writing s = []"
    and "\<And>x. needEof x = (\<not> rs_keep_alive x)"
  shows "2 \<le> length (hs_writing (http_complete needEof body (HttpRead (Some r)) s)) \<and>
    (\<not> rq_keep_alive r \<or>
     2 \<le> hs_reading (http_complete needEof body (HttpWrote 0 True)
            (http_complete needEof body (HttpWrote 0 True)
              (http_complete needEof body (HttpRead (Some r)) s))))"
  using assms handleRequest_improper [OF assms(1), of body]
  by (auto simp: http_start_def handleRequest_def badRequest_def okResponse_def Let_def)

theorem improper_request_overlaps_witness:
  "2 \<le> length (hs_writing (http_complete (\<lambda>x. \<not> rs_keep_alive x) ''page''
     (HttpRead (Some (get_index\<lparr>rq_target := ''/secret''\<rparr>))) (http_start mkHTTPSession)))"
  using improper_request_overlaps [of "get_index\<lparr>rq_target := ''/secret''\<rparr>" "http_start mkHTTPSession"
      "\<lambda>x. \<not> rs_keep_alive x" "''page''"]
  by (simp add: proper_request_def get_index_def shouldServeIndex_def http_start_def mkHTTPSession_def)

text \<open>
  C31. A session that keeps its connection reads its next request on top of the last one: after one proper
  request has been answered, the read that is started again is given a \<open>request\<close> that is not empty, which
  the HTTP library requires it to be. The first read of a session is in order.
\<close>

theorem kept_session_reuses_request:
  assumes "proper_request r" "\<not> rq_upgrade r" "rq_keep_alive r" "\<And>x. needEof x = (\<not> rs_keep_alive x)"
  shows "hs_reading (http_start mkHTTPSession) = 1 \<and> hs_request (http_start mkHTTPSession) = None \<and>
    (let s = http_complete needEof body (HttpWrote 0 True)
               (http_complete needEof body (HttpRead (Some r)) (http_start mkHTTPSession))
     in hs_reading s = 1 \<and> hs_writing s = [] \<and> hs_request s = Some r)"
  using assms
  by (simp add: http_start_def mkHTTPSession_def handleRequest_proper okResponse_def)

theorem kept_session_reuses_request_witness:
  "hs_request (http_complete (\<lambda>x. \<not> rs_keep_alive x) ''page'' (HttpWrote 0 True)
     (http_complete (\<lambda>x. \<not> rs_keep_alive x) ''page'' (HttpRead (Some get_index)) (http_start mkHTTPSession))) =
   Some get_index"
proof -
  have "proper_request get_index" by (simp add: proper_request_def get_index_def shouldServeIndex_def)
  moreover have "\<not> rq_upgrade get_index" "rq_keep_alive get_index" by (simp_all add: get_index_def)
  ultimately show ?thesis
    using kept_session_reuses_request [of get_index "\<lambda>x. \<not> rs_keep_alive x" "''page''"]
    by (simp only: Let_def simp_thms)
qed

end
