(* ===== verification/Program_Main.thy ===== *)
theory Program_Main
  imports Shipped_Game Chat_Server Chat_Client Http_Session
begin

text \<open>
  The entry points: \<open>main\<close> of the program (\<open>src/main.cpp\<close>) and of the chat server tool
  (\<open>tools/chatserver/chatserver.cpp\<close>), and the two functions that read the page a server answers HTTP
  requests with. What is typed and given on the command line, what the polls deliver and which files
  can be read are arguments; the value is the exit status, or what the program has come to after the
  polls given. The welcome text is left out.
\<close>

section \<open>The page\<close>

text \<open>\<open>Inl\<close> is the status the function ends the program with when the file cannot be read.\<close>

definition getHTTPMessage :: "(string \<Rightarrow> string option) \<Rightarrow> string \<Rightarrow> int + string" where
  "getHTTPMessage readable htmlLocation =
     (case readable htmlLocation of Some contents \<Rightarrow> Inr contents | None \<Rightarrow> Inl (- 1))"

definition chat_getHTTPMessage :: "(string \<Rightarrow> string option) \<Rightarrow> string \<Rightarrow> int + string" where
  "chat_getHTTPMessage readable htmlLocation =
     (case readable htmlLocation of Some contents \<Rightarrow> Inr contents | None \<Rightarrow> Inl (- 1))"

section \<open>The chat server tool\<close>

datatype chat_end =
    ChatExit int
  | ChatServed ushort string "ChatServer ServerImpl"

text \<open>The port is an \<open>int\<close> narrowed to \<open>unsigned short\<close>.\<close>

definition chatserver_main ::
    "(string \<Rightarrow> string option) \<Rightarrow> string list \<Rightarrow> (net_event list \<times> bool) list \<Rightarrow> fault + chat_end" where
  "chatserver_main readable argv polls =
     (if length argv < 3 then Inr (ChatExit 1)
      else
        bindR (stoi (argv ! 1)) (\<lambda>i.
          let port = (ucast i :: ushort)
          in case chat_getHTTPMessage readable (argv ! 2) of
               Inl status \<Rightarrow> Inr (ChatExit status)
             | Inr html \<Rightarrow> Inr (ChatServed port html (chat_main polls (mkServer \<lparr>cs_clients = []\<rparr>)))))"

section \<open>The program\<close>

text \<open>\<open>Aborted\<close> is a failing assertion of the window's constructor.\<close>

datatype 'w program_end =
    Exit int
  | Aborted
  | Hosted GameServer "GameServer ServerImpl"
  | Joined string 'w Lobby

text \<open>
  What is typed: the command, then the name of the game or the invite code; what the polls of the two
  loops deliver; and the terminal's size and state.
\<close>

record 'w program_input =
  command :: string
  gameName :: string
  inviteCode :: string
  host_polls :: "(net_event list \<times> bool) list"
  join_polls :: "terminal_poll list"
  terminal :: "int \<times> int"
  terminal_state :: 'w

definition program_main ::
    "('j, 'x) json_lib_scheme \<Rightarrow> (string \<Rightarrow> bool) \<Rightarrow> (string list \<Rightarrow> string list) \<Rightarrow> nat \<Rightarrow>
     ('w, 'y) curses_scheme \<Rightarrow> 'w program_input \<Rightarrow> fault + 'w program_end" where
  "program_main J canOpen ord n L i =
     (if command i = ''1'' then
        bindR (setupConfig J canOpen n (gameName i) mkGameServer) (\<lambda>r.
          case r of
            None \<Rightarrow> Inr (Exit 1)
          | Some g \<Rightarrow> bindR (run ord n (host_polls i) (mkServer g)) (\<lambda>(_, s). Inr (Hosted g s)))
      else if command i = ''2'' then
        (case window_executeJoinLobby L (terminal i) (join_polls i) (terminal_state i) of
           None \<Rightarrow> Inr Aborted
         | Some r \<Rightarrow> bindR r (\<lambda>(w, l). Inr (Joined (parseInviteCode (inviteCode i)) w l)))
      else Inr (Exit 1))"

section \<open>Configurations that are refused\<close>

lemma mkServerConfig_valid:
  assumes "json_types J"
  shows "\<exists>cfg. mkServerConfig J canOpen path = Inr cfg \<and> config_ok cfg \<and>
    sc_valid cfg = (canOpen path \<and> \<not> j_is_null J (parseJsonFile_serverConfig J path))"
proof (cases "canOpen path \<and> \<not> j_is_null J (parseJsonFile_serverConfig J path)")
  case True
  with serverConfig_valid(3,4) [OF assms, of path] show ?thesis
    by (auto simp: mkServerConfig_def configure_def config_ok_def Let_def)
qed (auto simp: mkServerConfig_def config_ok_def Let_def)

lemma setupConfig_refused:
  assumes "json_types J" "setupConfig J canOpen n name g = Inr r"
  shows "r = None \<longleftrightarrow>
    name \<noteq> ''Test'' \<or> \<not> canOpen ''../social-gaming/data/serverconfig.json'' \<or>
    j_is_null J (parseJsonFile_serverConfig J ''../social-gaming/data/serverconfig.json'')"
proof -
  from mkServerConfig_valid [OF assms(1), of canOpen "''../social-gaming/data/serverconfig.json''"] obtain cfg where
    cfg: "mkServerConfig J canOpen ''../social-gaming/data/serverconfig.json'' = Inr cfg" "config_ok cfg"
    "sc_valid cfg = (canOpen ''../social-gaming/data/serverconfig.json'' \<and>
       \<not> j_is_null J (parseJsonFile_serverConfig J ''../social-gaming/data/serverconfig.json''))" by blast
  show ?thesis
  proof (cases "name = ''Test''")
    case True
    then obtain gd where "parseGamefile J n cfg name = Inr (gd, cfg)"
      using assms(2) cfg(1) by (auto simp: setupConfig_def parseGamefile_def gameFilepaths_def bindR_iffs)
    with assms(2) cfg True valid_invite_code [OF cfg(2)] show ?thesis
      by (cases "sc_valid cfg") (auto simp: setupConfig_def)
  next
    case False
    with assms(2) cfg(1) show ?thesis by (auto simp: setupConfig_def unknown_game_invalidates)
  qed
qed

text \<open>The page of a configured server is the text of a member of its configuration.\<close>

lemma mkServerConfig_html:
  assumes "mkServerConfig J canOpen path = Inr cfg" "sc_valid cfg"
  shows "j_get_string J (j_at J (parseJsonFile_serverConfig J path) ''serverhtml'') = Inr (sc_htmlFilepath cfg)"
  using assms by (auto simp: mkServerConfig_def configure_def Let_def bindR_eq_Inr split: if_splits)

lemma setupConfig_html:
  assumes "setupConfig J canOpen n name g0 = Inr (Some g)"
  shows "j_get_string J (j_at J (parseJsonFile_serverConfig J ''../social-gaming/data/serverconfig.json'') ''serverhtml'') =
    Inr (gs_serverHtml g)"
proof -
  obtain cfg gd cfg' where c: "mkServerConfig J canOpen ''../social-gaming/data/serverconfig.json'' = Inr cfg"
    "parseGamefile J n cfg name = Inr (gd, cfg')" "sc_valid cfg'" "gs_serverHtml g = getServerHtml cfg'"
    using assms by (auto simp: setupConfig_def bindR_eq_Inr split: if_splits)
  then have "cfg' = cfg" by (auto simp: parseGamefile_def bindR_eq_Inr split: option.splits)
  then show ?thesis using mkServerConfig_html [OF c(1)] c(3,4) by (simp add: getServerHtml_def)
qed

section \<open>Properties\<close>

text \<open>
  C27. When the program ends with status 1 instead of hosting or joining: on any command but \<open>1\<close> and \<open>2\<close>,
  and on \<open>1\<close> exactly when no game has the name given or the server's configuration cannot be opened
  or is not accepted. Until then nothing it does can fault, provided the rules of the game nest less
  deeply than the fuel, and no number in a document is too large for the library, which throws then another
  exception than the one \<open>safeParse\<close> catches.
\<close>

theorem program_exits:
  assumes "json_types J" "json_throws J" "json_nesting J depth"
    and "\<And>j. j_parse_file J ''../social-gaming/test/json/gameSpec_forEach_basic.json'' = Some j \<Longrightarrow>
           depth (j_at J j ''rules'') < n"
    and "command i \<noteq> ''2''"
  shows "program_main J canOpen ord n L i = Inr (Exit 1) \<longleftrightarrow>
    command i \<noteq> ''1'' \<or> gameName i \<noteq> ''Test'' \<or> \<not> canOpen ''../social-gaming/data/serverconfig.json'' \<or>
    j_is_null J (parseJsonFile_serverConfig J ''../social-gaming/data/serverconfig.json'')"
proof -
  obtain r where r: "setupConfig J canOpen n (gameName i) mkGameServer = Inr r"
    using setupConfig_total [OF assms(1-4)] by blast
  show ?thesis
  proof (cases r)
    case None
    with setupConfig_refused [OF assms(1) r] r assms(5) show ?thesis by (simp add: program_main_def)
  next
    case (Some g)
    have "program_main J canOpen ord n L i \<noteq> Inr (Exit 1)" if "command i = ''1''"
      using that r Some by (auto simp: program_main_def bindR_eq_Inr)
    moreover have "program_main J canOpen ord n L i = Inr (Exit 1)" if "command i \<noteq> ''1''"
      using that assms(5) by (simp add: program_main_def)
    ultimately show ?thesis using setupConfig_refused [OF assms(1) r] Some by blast
  qed
qed

theorem program_exits_witness:
  "program_main (jval_lib shipped_files) (\<lambda>_. True) id (Suc (size game_rules_doc)) (line_editor 80)
     \<lparr>command = ''1'', gameName = ''Chess'', inviteCode = [], host_polls = [], join_polls = [], terminal = (24, 80),
      terminal_state = []\<rparr> = Inr (Exit 1)"
proof -
  have "jval_at game_doc ''rules'' = game_rules_doc" by (simp add: game_doc_def)
  then have depth_ok: "size (j_at (jval_lib shipped_files) j ''rules'') < Suc (size game_rules_doc)"
    if "j_parse_file (jval_lib shipped_files) ''../social-gaming/test/json/gameSpec_forEach_basic.json'' = Some j" for j
    using that by (auto simp: shipped_files_def)
  show ?thesis
    by (subst program_exits [OF jval_types jval_throws jval_nesting depth_ok]) simp_all
qed

text \<open>
  The port of the chat server is its first argument modulo 65536: the \<open>int\<close> that \<open>stoi\<close> reads is
  narrowed without a check, so a number above 65535 silently names another port, and only one that
  is no \<open>int\<close> is refused, by an exception that nothing catches.
\<close>

theorem chat_port_narrowed:
  assumes "argv ! 1 = nat_to_string k" "3 \<le> length argv" "readable (argv ! 2) = Some html"
  shows "chatserver_main readable argv polls =
      (if k < 2 ^ 31 then Inr (ChatServed (of_nat k) html (chat_main polls (mkServer \<lparr>cs_clients = []\<rparr>)))
       else Inl OutOfRange) \<and>
    (\<forall>p html' s. chatserver_main readable argv polls = Inr (ChatServed p html' s) \<longrightarrow> unat p = k mod 65536)"
proof -
  have "(ucast (of_nat k :: int32) :: ushort) = of_nat k"
    by (rule bit_word_eqI) (simp add: bit_simps)
  then have "chatserver_main readable argv polls =
      (if k < 2 ^ 31 then Inr (ChatServed (of_nat k) html (chat_main polls (mkServer \<lparr>cs_clients = []\<rparr>)))
       else Inl OutOfRange)"
    using assms by (simp add: chatserver_main_def stoi_decimal chat_getHTTPMessage_def)
  moreover have "unat (of_nat k :: ushort) = k mod 65536" by (simp add: unat_of_nat)
  ultimately show ?thesis by (simp split: if_splits)
qed

theorem chat_port_narrowed_witness:
  "\<exists>s. chatserver_main (\<lambda>f. Some ''page'') [''chatserver'', nat_to_string 69536, ''webchat.html''] [] =
     Inr (ChatServed 4000 ''page'' s)"
  using chat_port_narrowed [of "[''chatserver'', nat_to_string 69536, ''webchat.html'']" 69536
      "\<lambda>f. Some ''page''" "''page''" "[]"]
  by simp

text \<open>
  What the game server answers an HTTP request for its page with is not the page: \<open>setupConfig\<close> takes
  the member \<open>serverhtml\<close> of the configuration, a path, for the text, and \<open>getHTTPMessage\<close>, which
  would read the file, is not called. The chat server answers with the contents of its file.
\<close>

theorem index_page_is_path:
  assumes "setupConfig J canOpen n name g0 = Inr (Some g)" "rq_method r = VerbGet" "shouldServeIndex (rq_target r)"
    and "chatserver_main readable argv polls = Inr (ChatServed p html s)"
  shows "map rs_body (handleRequest (gs_serverHtml g) r) = [gs_serverHtml g] \<and>
    j_get_string J (j_at J (parseJsonFile_serverConfig J ''../social-gaming/data/serverconfig.json'') ''serverhtml'') =
      Inr (gs_serverHtml g) \<and>
    map (Some \<circ> rs_body) (handleRequest html r) = [readable (argv ! 2)]"
proof -
  have "j_get_string J (j_at J (parseJsonFile_serverConfig J ''../social-gaming/data/serverconfig.json'') ''serverhtml'') =
      Inr (gs_serverHtml g)"
    using assms(1) setupConfig_html by blast
  moreover have "readable (argv ! 2) = Some html"
    using assms(4) by (auto simp: chatserver_main_def chat_getHTTPMessage_def bindR_eq_Inr split: if_splits option.splits)
  ultimately show ?thesis using assms(2,3) by (simp add: handleRequest_def okResponse_def)
qed

theorem index_page_is_path_witness:
  "\<exists>g. setupConfig (jval_lib shipped_files) (\<lambda>_. True) (Suc (Suc 0)) ''Test'' mkGameServer = Inr (Some g) \<and>
     map rs_body (handleRequest (gs_serverHtml g) get_index) = [''../web-socket-networking/webchat.html'']"
proof -
  obtain g where g: "setupConfig (jval_lib shipped_files) (\<lambda>_. True) (Suc (Suc 0)) ''Test'' mkGameServer = Inr (Some g)"
    "gs_serverHtml g = ''../web-socket-networking/webchat.html''" by (simp add: shipped_setup)
  have "\<exists>html s. chatserver_main (\<lambda>f. Some ''page'') [''chatserver'', nat_to_string 4000, ''webchat.html''] [] =
      Inr (ChatServed 4000 html s)"
    by (simp add: chatserver_main_def stoi_decimal chat_getHTTPMessage_def)
  then obtain html s where c: "chatserver_main (\<lambda>f. Some ''page'')
      [''chatserver'', nat_to_string 4000, ''webchat.html''] [] = Inr (ChatServed 4000 html s)" by blast
  from index_page_is_path [OF g(1) _ _ c, of get_index] g show ?thesis
    by (auto simp: get_index_def shouldServeIndex_def)
qed

end
