(* ===== verification/Client_Server_Link.thy ===== *)
theory Client_Server_Link
  imports Net_Client
begin

text \<open>
  One connection, with both ends: a channel of the network server and the client that made it. The two
  run the operations of \<open>Net_Server\<close> and \<open>Net_Client\<close>; what joins them is the socket, which delivers
  texts in the order they were handed to it. The pair refines a duplex of two queues, which is the
  contract of a connection as the applications see it, and properties of the duplex are transferred.
  The server may do anything with its other channels and its application. Two things are taken for granted. The
  channel's object is not released: of a connection that the server has dropped, and forgotten, only the past
  is spoken of. And the client has not misused its stream: a user who enters lines too early or too fast makes
  it (\<open>lobby_misuses_stream\<close>), after which the library promises nothing and neither do the theorems.
\<close>

section \<open>Refinement mappings\<close>

text \<open>
  A step of a reachable state is, through \<open>f\<close>, a sequence of steps of the specification, unless it breaks a
  condition \<open>ok\<close> of what the program runs on, which then stays broken.
\<close>

locale refinement_map =
  fixes cinit :: "'c \<Rightarrow> bool" and cstep :: "'c \<Rightarrow> 'c \<Rightarrow> bool"
    and ainit :: "'s \<Rightarrow> bool" and astep :: "'s \<Rightarrow> 's \<Rightarrow> bool"
    and cinv :: "'c \<Rightarrow> bool" and ok :: "'c \<Rightarrow> bool" and f :: "'c \<Rightarrow> 's"
  assumes inits: "cinit c \<Longrightarrow> cinv c \<and> ainit (f c)"
    and ok_before: "cstep c c' \<Longrightarrow> ok c' \<Longrightarrow> ok c"
    and steps: "cinv c \<Longrightarrow> cstep c c' \<Longrightarrow> ok c' \<Longrightarrow> cinv c' \<and> astep\<^sup>*\<^sup>* (f c) (f c')"
begin

lemma preserved:
  assumes "cstep\<^sup>*\<^sup>* c c'" "cinv c" "ok c'"
  shows "cinv c' \<and> astep\<^sup>*\<^sup>* (f c) (f c')"
  using assms(1,3)
proof (induction rule: rtranclp_induct)
  case base
  then show ?case using assms(2) by simp
next
  case (step y z)
  then show ?case using steps [of y z] ok_before [of y z] by auto
qed

lemma reached: "cinit c \<Longrightarrow> cstep\<^sup>*\<^sup>* c c' \<Longrightarrow> ok c' \<Longrightarrow> cinv c' \<and> astep\<^sup>*\<^sup>* (f c) (f c')"
  using preserved inits by blast

lemma transferred:
  assumes "cinit c" "cstep\<^sup>*\<^sup>* c c'" "ok c'"
    and "\<And>a. ainit a \<Longrightarrow> P a" "\<And>a a'. P a \<Longrightarrow> astep a a' \<Longrightarrow> P a'"
  shows "P (f c')"
proof -
  have "astep\<^sup>*\<^sup>* a a' \<Longrightarrow> P a \<Longrightarrow> P a'" for a a'
    by (induction rule: rtranclp_induct) (use assms(5) in blast)+
  then show ?thesis using reached [OF assms(1-3)] inits [OF assms(1)] assms(4) by blast
qed

end

section \<open>The duplex\<close>

text \<open>For each direction, the texts sent and those that have arrived.\<close>

record Duplex =
  down_sent :: "string list"
  down_arrived :: "string list"
  up_sent :: "string list"
  up_arrived :: "string list"

definition duplex_init :: "Duplex \<Rightarrow> bool" where
  "duplex_init d \<longleftrightarrow> d = \<lparr>down_sent = [], down_arrived = [], up_sent = [], up_arrived = []\<rparr>"

inductive duplex_step :: "Duplex \<Rightarrow> Duplex \<Rightarrow> bool" where
  send_down: "t \<noteq> [] \<Longrightarrow> duplex_step d (d\<lparr>down_sent := down_sent d @ [t]\<rparr>)"
| arrive_down: "prefix (down_arrived d @ [t]) (down_sent d) \<Longrightarrow>
    duplex_step d (d\<lparr>down_arrived := down_arrived d @ [t]\<rparr>)"
| send_up: "t \<noteq> [] \<Longrightarrow> duplex_step d (d\<lparr>up_sent := up_sent d @ [t]\<rparr>)"
| arrive_up: "prefix (up_arrived d @ [t]) (up_sent d) \<Longrightarrow>
    duplex_step d (d\<lparr>up_arrived := up_arrived d @ [t]\<rparr>)"

inductive_cases duplex_stepE: "duplex_step d d'"

definition duplex_inv :: "Duplex \<Rightarrow> bool" where
  "duplex_inv d \<longleftrightarrow>
     prefix (down_arrived d) (down_sent d) \<and> prefix (up_arrived d) (up_sent d) \<and>
     [] \<notin> set (down_sent d) \<and> [] \<notin> set (up_sent d)"

lemma duplex_inv_init: "duplex_init d \<Longrightarrow> duplex_inv d"
  by (simp add: duplex_init_def duplex_inv_def)

lemma duplex_inv_step: "duplex_inv d \<Longrightarrow> duplex_step d d' \<Longrightarrow> duplex_inv d'"
  by (auto simp: duplex_inv_def intro: prefix_order.trans elim!: duplex_stepE)

section \<open>The two ends\<close>

text \<open>\<open>up_read\<close> is a history: the texts the server has read from the channel.\<close>

record 'a Link =
  srv :: "'a ServerImpl"
  cli :: ClientImpl
  up_read :: "string list"

text \<open>What the server has handed to the socket: written, or in the write that is outstanding.\<close>

definition on_wire :: "uintptr \<Rightarrow> 'a ServerImpl \<Rightarrow> string list" where
  "on_wire p s = (case heap s p of None \<Rightarrow> [] | Some ch \<Rightarrow> ch_written ch @ ch_inFlight ch)"

definition sent_down :: "uintptr \<Rightarrow> 'a ServerImpl \<Rightarrow> string list" where
  "sent_down p s = (case heap s p of None \<Rightarrow> [] | Some ch \<Rightarrow> ch_sent ch)"

text \<open>
  What the environment guarantees is in the two steps that read: as long as the client has not misused its stream,
  an end reads what the other has handed to its stream, in order: the client what the channel has written or is
  writing (\<open>on_wire\<close>), the server what the client has written or is writing (\<open>up_wire\<close>).

  Completions of the server's operations other than a text read from the channel.\<close>

definition local_event :: "uintptr \<Rightarrow> net_event \<Rightarrow> bool" where
  "local_event p e \<longleftrightarrow> e \<noteq> Upgrade p \<and> e \<noteq> Released p \<and> (\<forall>t. e \<noteq> Read p (Some t))"

inductive link_step :: "'a ConnectionHandler \<Rightarrow> uintptr \<Rightarrow> 'a Link \<Rightarrow> 'a Link \<Rightarrow> bool"
  for H :: "'a ConnectionHandler" and p :: uintptr where
  server_completes: "enabled (srv l) e \<Longrightarrow> local_event p e \<Longrightarrow>
    link_step H p l (l\<lparr>srv := complete H e (srv l)\<rparr>)"
| server_reads: "enabled (srv l) (Read p (Some t)) \<Longrightarrow> cl_misused (cli l) \<or> prefix (up_read l @ [t]) (up_wire (cli l)) \<Longrightarrow>
    link_step H p l (l\<lparr>srv := complete H (Read p (Some t)) (srv l), up_read := up_read l @ [t]\<rparr>)"
| server_sends: "link_step H p l (l\<lparr>srv := server_send ms (srv l)\<rparr>)"
| server_takes: "link_step H p l (l\<lparr>srv := snd (server_receive (srv l))\<rparr>)"
| server_closes: "link_step H p l (l\<lparr>srv := server_disconnect H c (srv l)\<rparr>)"
| server_acts: "link_step H p l (l\<lparr>srv := (srv l)\<lparr>app := b\<rparr>\<rparr>)"
| client_completes: "client_enabled (cli l) e \<Longrightarrow> (\<forall>t. e \<noteq> ClientRead (Some t)) \<Longrightarrow>
    link_step H p l (l\<lparr>cli := client_complete e (cli l)\<rparr>)"
| client_reads: "client_enabled (cli l) (ClientRead (Some t)) \<Longrightarrow>
    cl_misused (cli l) \<or> prefix (cl_received (cli l) @ [t]) (on_wire p (srv l)) \<Longrightarrow>
    link_step H p l (l\<lparr>cli := client_complete (ClientRead (Some t)) (cli l)\<rparr>)"
| client_sends: "link_step H p l (l\<lparr>cli := client_send t (cli l)\<rparr>)"
| client_takes: "link_step H p l (l\<lparr>cli := snd (client_receive (cli l))\<rparr>)"

text \<open>The start: the server has just made the channel, the client is connecting.\<close>

definition link_init :: "'a ConnectionHandler \<Rightarrow> 'a \<Rightarrow> uintptr \<Rightarrow> 'a Link \<Rightarrow> bool" where
  "link_init H a p l \<longleftrightarrow>
     net_reachable H a (srv l) \<and> heap (srv l) p = Some (mkChannel\<lparr>ch_accepting := True\<rparr>) \<and>
     cli l = mkClient \<and> up_read l = []"

definition duplex_of :: "uintptr \<Rightarrow> 'a Link \<Rightarrow> Duplex" where
  "duplex_of p l =
     \<lparr>down_sent = sent_down p (srv l), down_arrived = cl_received (cli l),
      up_sent = cl_sent (cli l), up_arrived = up_read l\<rparr>"

section \<open>Refinement\<close>

text \<open>An operation of the server appends to what the channel was sent, and nothing empty.\<close>

definition appends :: "uintptr \<Rightarrow> 'a ServerImpl \<Rightarrow> 'a ServerImpl \<Rightarrow> bool" where
  "appends p s s' \<longleftrightarrow> (\<exists>ts. sent_down p s' = sent_down p s @ ts \<and> [] \<notin> set ts) \<and> (heap s p \<noteq> None \<longrightarrow> heap s' p \<noteq> None)"

lemma appends_refl [simp]: "appends p s s"
  by (auto simp: appends_def)

lemma appends_trans: "appends p s s' \<Longrightarrow> appends p s' s'' \<Longrightarrow> appends p s s''"
  by (fastforce simp: appends_def)

lemma appends_frame [simp]:
  "appends p s (s'\<lparr>app := a\<rparr>) = appends p s s'" "appends p s (s'\<lparr>channels := m\<rparr>) = appends p s s'"
  "appends p s (s'\<lparr>incoming := i\<rparr>) = appends p s s'"
  by (simp_all add: appends_def sent_down_def)

lemma appends_at_channel:
  assumes "\<And>ch. \<exists>ts. ch_sent (f ch) = ch_sent ch @ ts \<and> [] \<notin> set ts"
  shows "appends p s (at_channel q f s)"
  using assms by (auto simp: appends_def sent_down_def split: option.split)

text \<open>Only \<open>send\<close> appends anything.\<close>

definition same_sent :: "uintptr \<Rightarrow> 'a ServerImpl \<Rightarrow> 'a ServerImpl \<Rightarrow> bool" where
  "same_sent p s s' \<longleftrightarrow> sent_down p s' = sent_down p s \<and> (heap s p \<noteq> None \<longrightarrow> heap s' p \<noteq> None)"

lemma same_sent_appends: "same_sent p s s' \<Longrightarrow> appends p s s'"
  by (simp add: same_sent_def appends_def)

lemma same_sent_refl [simp]: "same_sent p s s"
  by (simp add: same_sent_def)

lemma same_sent_trans: "same_sent p s s' \<Longrightarrow> same_sent p s' s'' \<Longrightarrow> same_sent p s s''"
  by (simp add: same_sent_def)

lemma same_sent_frame [simp]:
  "same_sent p s (s'\<lparr>app := a\<rparr>) = same_sent p s s'" "same_sent p s (s'\<lparr>channels := m\<rparr>) = same_sent p s s'"
  "same_sent p s (s'\<lparr>incoming := i\<rparr>) = same_sent p s s'"
  by (simp_all add: same_sent_def sent_down_def)

lemma same_sent_at_channel:
  "same_sent p s s' \<Longrightarrow> (\<And>ch. ch_sent (f ch) = ch_sent ch) \<Longrightarrow> same_sent p s (at_channel q f s')"
  by (auto simp: same_sent_def sent_down_def split: option.splits)

lemma same_sent_disconnect: "same_sent p s s' \<Longrightarrow> same_sent p s (server_disconnect H c s')"
  by (auto simp: server_disconnect_def Let_def channel_disconnect_def intro!: same_sent_at_channel
      split: option.split)

lemma same_sent_complete:
  assumes "e \<noteq> Upgrade p" "e \<noteq> Released p"
  shows "same_sent p s (complete H e s)"
  using assms
  by (cases e) (auto simp: Let_def registerChannel_def intro!: same_sent_at_channel same_sent_disconnect
      split: option.split, auto simp: same_sent_def sent_down_def)

lemmas appends_disconnect = same_sent_appends [OF same_sent_disconnect [OF same_sent_refl]]
lemmas appends_complete = same_sent_appends [OF same_sent_complete]

lemma appends_send: "appends p s (server_send ms s)"
proof (induction ms arbitrary: s)
  case (Cons m ms)
  have "appends p s (at_channel q (channel_send (msg_text m)) s)" for q
    by (rule appends_at_channel) (simp add: channel_send_def Let_def)
  then show ?case using Cons appends_trans by (fastforce split: option.split)
qed simp

lemma sends_down:
  "appends p (srv l) s' \<Longrightarrow> duplex_step\<^sup>*\<^sup>* (duplex_of p l) (duplex_of p (l\<lparr>srv := s'\<rparr>))"
proof -
  have "[] \<notin> set ts \<Longrightarrow> duplex_step\<^sup>*\<^sup>* d (d\<lparr>down_sent := down_sent d @ ts\<rparr>)" for ts d
  proof (induction ts arbitrary: d)
    case (Cons t ts)
    from Cons.prems have "duplex_step d (d\<lparr>down_sent := down_sent d @ [t]\<rparr>)" by (intro send_down) auto
    moreover from Cons.prems have "[] \<notin> set ts" by simp
    from Cons.IH [OF this, of "d\<lparr>down_sent := down_sent d @ [t]\<rparr>"] have
      "duplex_step\<^sup>*\<^sup>* (d\<lparr>down_sent := down_sent d @ [t]\<rparr>) (d\<lparr>down_sent := down_sent d @ t # ts\<rparr>)" by simp
    ultimately show ?case by (rule converse_rtranclp_into_rtranclp)
  qed simp
  moreover assume "appends p (srv l) s'"
  then obtain ts where "sent_down p s' = sent_down p (srv l) @ ts" "[] \<notin> set ts" by (auto simp: appends_def)
  moreover from this have
    "duplex_of p (l\<lparr>srv := s'\<rparr>) = (duplex_of p l)\<lparr>down_sent := down_sent (duplex_of p l) @ ts\<rparr>"
    by (simp add: duplex_of_def)
  ultimately show ?thesis by simp
qed

lemma duplex_inv_steps: "duplex_step\<^sup>*\<^sup>* d d' \<Longrightarrow> duplex_inv d \<Longrightarrow> duplex_inv d'"
  by (induction rule: rtranclp_induct) (auto intro: duplex_inv_step)

text \<open>What the server has handed to the socket is the beginning of what the channel was sent.\<close>

lemma on_wire_sent: "net_inv s \<Longrightarrow> prefix (on_wire p s) (sent_down p s)"
proof (cases "heap s p")
  case (Some ch)
  assume "net_inv s"
  from net_invD(3) [OF this Some] have "ch_sent ch = ch_written ch @ ch_writeBuffer ch"
    "ch_inFlight ch = take 1 (ch_writeBuffer ch) \<or> ch_inFlight ch = []" by (auto simp: channel_inv_def)
  with Some show ?thesis by (auto simp: on_wire_def sent_down_def take_is_prefix)
qed (simp add: on_wire_def)

text \<open>A client that was never silenced keeps reading until it is closed.\<close>

definition keeps_reading :: "ClientImpl \<Rightarrow> bool" where
  "keeps_reading c \<longleftrightarrow>
     (cl_received c \<noteq> [] \<and> [] \<notin> set (cl_received c) \<and> \<not> isClosed c \<longrightarrow> cl_reading c)"

lemma keeps_reading_step: "client_step c c' \<Longrightarrow> keeps_reading c \<Longrightarrow> keeps_reading c'"
proof (induction rule: client_step.induct)
  case (client_completion c e)
  then show ?case
    by (cases e) (auto simp: keeps_reading_def client_disconnect_def Let_def split: option.splits)
qed (auto simp: keeps_reading_def client_send_def client_receive_def Let_def)

definition link_inv :: "'a ConnectionHandler \<Rightarrow> 'a \<Rightarrow> uintptr \<Rightarrow> 'a Link \<Rightarrow> bool" where
  "link_inv H a p l \<longleftrightarrow>
     net_reachable H a (srv l) \<and> heap (srv l) p \<noteq> None \<and> client_inv (cli l) \<and>
     keeps_reading (cli l) \<and> writes_inv (cli l) \<and> duplex_inv (duplex_of p l)"

lemma link_inv_init: "link_init H a p l \<Longrightarrow> link_inv H a p l \<and> duplex_init (duplex_of p l)"
  by (auto simp: link_init_def link_inv_def duplex_init_def duplex_of_def sent_down_def mkChannel_def
      keeps_reading_def client_inv_mk writes_inv_mk duplex_inv_def)
     (simp_all add: mkClient_def)

lemma link_server_step:
  assumes "link_inv H a p l" "net_step H (srv l) s'" "appends p (srv l) s'"
  shows "link_inv H a p (l\<lparr>srv := s'\<rparr>) \<and> duplex_step\<^sup>*\<^sup>* (duplex_of p l) (duplex_of p (l\<lparr>srv := s'\<rparr>))"
  using assms sends_down [OF assms(3)] duplex_inv_steps [OF sends_down [OF assms(3)]]
  by (auto simp: link_inv_def appends_def intro: net_reachable.step)

lemma link_client_step:
  assumes "link_inv H a p l" "client_step (cli l) c'"
    and "duplex_step\<^sup>*\<^sup>* (duplex_of p l) (duplex_of p (l\<lparr>cli := c'\<rparr>))"
  shows "link_inv H a p (l\<lparr>cli := c'\<rparr>) \<and> duplex_step\<^sup>*\<^sup>* (duplex_of p l) (duplex_of p (l\<lparr>cli := c'\<rparr>))"
  using assms duplex_inv_steps [OF assms(3)]
  by (auto simp: link_inv_def client_step_inv keeps_reading_step client_step_writes)

lemma link_misused_before: "link_step H p l l' \<Longrightarrow> \<not> cl_misused (cli l') \<Longrightarrow> \<not> cl_misused (cli l)"
  by (induction rule: link_step.induct) (auto simp: Let_def split: if_splits)

lemma link_step_refines:
  assumes "link_inv H a p l" "link_step H p l l'" "\<not> cl_misused (cli l')"
  shows "link_inv H a p l' \<and> duplex_step\<^sup>*\<^sup>* (duplex_of p l) (duplex_of p l')"
  using assms(2)
proof cases
  case (server_completes e)
  then show ?thesis
    using link_server_step [OF assms(1) completion appends_complete] by (auto simp: local_event_def)
next
  case (server_reads t)
  note ok = link_misused_before [OF assms(2,3)]
  let ?l = "l\<lparr>srv := complete H (Read p (Some t)) (srv l)\<rparr>"
  have s: "link_inv H a p ?l \<and> duplex_step\<^sup>*\<^sup>* (duplex_of p l) (duplex_of p ?l)"
    using link_server_step [OF assms(1) completion [OF server_reads(2)] appends_complete] by simp
  have "duplex_step (duplex_of p ?l) ((duplex_of p ?l)\<lparr>up_arrived := up_arrived (duplex_of p ?l) @ [t]\<rparr>)"
  proof (rule arrive_up)
    have "prefix (up_read l @ [t]) (up_wire (cli l))" using server_reads(3) ok by simp
    moreover have "prefix (up_wire (cli l)) (cl_sent (cli l))" using assms(1) up_wire_sent ok by (auto simp: link_inv_def)
    ultimately show "prefix (up_arrived (duplex_of p ?l) @ [t]) (up_sent (duplex_of p ?l))"
      by (simp add: duplex_of_def)
  qed
  moreover have "(duplex_of p ?l)\<lparr>up_arrived := up_arrived (duplex_of p ?l) @ [t]\<rparr> = duplex_of p l'"
    by (simp add: server_reads(1) duplex_of_def)
  ultimately have d: "duplex_step (duplex_of p ?l) (duplex_of p l')" by simp
  then have "link_inv H a p l'"
    using s duplex_inv_step by (auto simp: link_inv_def server_reads(1))
  then show ?thesis using s d by auto
next
  case (server_sends ms)
  then show ?thesis using link_server_step [OF assms(1) sending appends_send] by simp
next
  case server_takes
  then show ?thesis using link_server_step [OF assms(1) receiving] by (simp add: server_receive_def)
next
  case (server_closes c)
  then show ?thesis using link_server_step [OF assms(1) disconnecting appends_disconnect] by simp
next
  case (server_acts b)
  then show ?thesis using link_server_step [OF assms(1) application] by simp
next
  case (client_completes e)
  have "duplex_of p (l\<lparr>cli := client_complete e (cli l)\<rparr>) = duplex_of p l"
    using client_completes(3)
    by (cases e) (auto simp: duplex_of_def Let_def client_disconnect_def split: option.split)
  then show ?thesis
    using link_client_step [OF assms(1) client_completion [OF client_completes(2)]] client_completes(1) by simp
next
  case (client_reads t)
  let ?l = "l\<lparr>cli := client_complete (ClientRead (Some t)) (cli l)\<rparr>"
  have "net_inv (srv l)" using assms(1) net_reachable_inv by (auto simp: link_inv_def)
  moreover have "prefix (cl_received (cli l) @ [t]) (on_wire p (srv l))"
    using client_reads(3) link_misused_before [OF assms(2,3)] by simp
  ultimately  have "prefix (cl_received (cli l) @ [t]) (sent_down p (srv l))" using on_wire_sent prefix_order.trans by blast
  then have "duplex_step (duplex_of p l) ((duplex_of p l)\<lparr>down_arrived := down_arrived (duplex_of p l) @ [t]\<rparr>)"
    by (intro arrive_down) (simp add: duplex_of_def)
  moreover have "duplex_of p ?l = (duplex_of p l)\<lparr>down_arrived := down_arrived (duplex_of p l) @ [t]\<rparr>"
    by (simp add: duplex_of_def Let_def)
  ultimately have "duplex_step\<^sup>*\<^sup>* (duplex_of p l) (duplex_of p ?l)" by auto
  from link_client_step [OF assms(1) client_completion [OF client_reads(2)] this]
  show ?thesis unfolding client_reads(1) .
next
  case (client_sends t)
  have "duplex_step\<^sup>*\<^sup>* (duplex_of p l) (duplex_of p (l\<lparr>cli := client_send t (cli l)\<rparr>))"
  proof (cases "t = []")
    case False
    from send_up [OF this, of "duplex_of p l"] False show ?thesis
      by (intro r_into_rtranclp) (simp add: duplex_of_def client_send_def Let_def)
  qed (simp add: client_send_def)
  then show ?thesis
    using link_client_step [OF assms(1) client_step.client_sending] client_sends by simp
next
  case client_takes
  have "duplex_of p (l\<lparr>cli := snd (client_receive (cli l))\<rparr>) = duplex_of p l"
    by (simp add: duplex_of_def client_receive_def)
  then show ?thesis
    using link_client_step [OF assms(1) client_step.client_receiving] client_takes by simp
qed

interpretation link: refinement_map "link_init H a p" "link_step H p" duplex_init duplex_step
    "link_inv H a p" "\<lambda>l. \<not> cl_misused (cli l)" "duplex_of p"
  for H a p
  by unfold_locales (erule link_inv_init, erule (1) link_misused_before, erule (2) link_step_refines)

section \<open>Properties\<close>

text \<open>
  C13. A connection is a duplex: whatever the server and the client do, in any interleaving, as long as the
  client has not misused its stream and the channel's object is not released, the pair of them steps as two
  queues do that take texts in at one end and give them out, in order, at the other; the queues are the
  histories of \<open>send\<close> and of the completed reads of the two classes. And neither end holds back: what an open
  client was asked to send it has written or is writing, and a registered channel that has not written all it
  was asked to send has a write outstanding.
\<close>

theorem link_refines_duplex:
  assumes "link_init H a p l0" "(link_step H p)\<^sup>*\<^sup>* l0 l" "\<not> cl_misused (cli l)"
  shows "duplex_init (duplex_of p l0) \<and> duplex_step\<^sup>*\<^sup>* (duplex_of p l0) (duplex_of p l) \<and>
    (\<forall>l'. link_step H p l l' \<and> \<not> cl_misused (cli l') \<longrightarrow> duplex_step\<^sup>*\<^sup>* (duplex_of p l) (duplex_of p l')) \<and>
    (isClosed (cli l) \<or> up_wire (cli l) = cl_sent (cli l)) \<and>
    (um_contains (channels (srv l)) (Connection p) \<longrightarrow>
       (\<exists>ch. heap (srv l) p = Some ch \<and> (ch_written ch = sent_down p (srv l) \<or> enabled (srv l) (Wrote p True))))"
proof -
  have l: "link_inv H a p l" "duplex_step\<^sup>*\<^sup>* (duplex_of p l0) (duplex_of p l)"
    using link.reached [OF assms] by simp_all
  have "duplex_step\<^sup>*\<^sup>* (duplex_of p l) (duplex_of p l')" if "link_step H p l l'" "\<not> cl_misused (cli l')" for l'
    using link_step_refines [OF l(1) that] by simp
  moreover have "isClosed (cli l) \<or> up_wire (cli l) = cl_sent (cli l)"
    using l(1) up_wire_sent assms(3) by (auto simp: link_inv_def)
  moreover have "\<exists>ch. heap (srv l) p = Some ch \<and> (ch_written ch = sent_down p (srv l) \<or> enabled (srv l) (Wrote p True))"
    if "um_contains (channels (srv l)) (Connection p)"
  proof -
    obtain ch where ch: "heap (srv l) p = Some ch" using l(1) by (auto simp: link_inv_def)
    have "net_inv (srv l)" using l(1) net_reachable_inv by (auto simp: link_inv_def)
    from net_invD(3) [OF this ch] that ch show ?thesis by (auto simp: channel_inv_def sent_down_def)
  qed
  ultimately show ?thesis using l(2) link.inits [OF assms(1)] by blast
qed

text \<open>A link whose server has sent two texts, of which the client has read the first.\<close>

definition link_made :: "unit Link" where
  "link_made = \<lparr>srv = complete silent_handlers (Upgrade 5) (mkServer ()), cli = mkClient, up_read = []\<rparr>"

definition link_used :: "unit Link" where
  "link_used = \<lparr>srv = two_sent, cli = client_complete (ClientRead (Some ''a'')) connected_client, up_read = []\<rparr>"

lemma link_made_init: "link_init silent_handlers () 5 link_made"
proof -
  have "enabled (mkServer () :: unit ServerImpl) (Upgrade 5)" by (simp add: mkServer_def)
  from net_reachable.step [OF net_reachable.start net_step.completion [OF this]] show ?thesis
    by (simp add: link_init_def link_made_def)
qed

lemma link_used_reached: "(link_step silent_handlers 5)\<^sup>*\<^sup>* link_made link_used"
proof -
  let ?step = "link_step silent_handlers 5"
  let ?s1 = "complete silent_handlers (Accepted 5 True) (srv link_made)"
  let ?c1 = "client_complete (Connected True) mkClient"
  let ?l1 = "link_made\<lparr>srv := ?s1\<rparr>"
  let ?l2 = "link_made\<lparr>srv := two_sent\<rparr>"
  let ?l3 = "?l2\<lparr>cli := ?c1\<rparr>"
  let ?l4 = "?l2\<lparr>cli := connected_client\<rparr>"
  have two: "server_send [\<lparr>msg_connection = Connection 5, msg_text = ''a''\<rparr>,
      \<lparr>msg_connection = Connection 5, msg_text = ''b''\<rparr>] ?s1 = two_sent"
    by (simp add: two_sent_def link_made_def)
  have "?step link_made ?l1"
    by (rule server_completes) (simp_all add: link_made_def mkChannel_def local_event_def)
  moreover have "?step ?l1 ?l2"
    using server_sends [of silent_handlers 5 ?l1 "[\<lparr>msg_connection = Connection 5, msg_text = ''a''\<rparr>,
      \<lparr>msg_connection = Connection 5, msg_text = ''b''\<rparr>]"] two by simp
  moreover have "?step ?l2 ?l3"
    using client_completes [of ?l2 "Connected True" silent_handlers 5] by (simp add: link_made_def mkClient_def)
  moreover have "?step ?l3 ?l4"
    using client_completes [of ?l3 "Handshaken True" silent_handlers 5]
    by (simp add: connected_client_def mkClient_def)
  moreover have "?step ?l4 link_used"
  proof -
    have "on_wire 5 two_sent = [''a'']"
      by (simp add: on_wire_def two_sent_def mkServer_def mkChannel_def registerChannel_def Let_def
          um_insert_def um_erase_def um_contains_def channel_send_def at_channel_def)
    then have "?step ?l4 (?l4\<lparr>cli := client_complete (ClientRead (Some ''a'')) (cli ?l4)\<rparr>)"
      by (intro client_reads) (simp_all add: connected_client_def mkClient_def)
    then show ?thesis by (simp add: link_used_def link_made_def)
  qed
  ultimately show ?thesis by (meson converse_rtranclp_into_rtranclp rtranclp.rtrancl_refl)
qed

lemma link_used_proper: "\<not> cl_misused (cli link_used)"
  by (simp add: link_used_def connected_client_def mkClient_def)

theorem link_refines_duplex_witness:
  "duplex_step\<^sup>*\<^sup>* (duplex_of 5 link_made) (duplex_of 5 link_used) \<and>
   down_arrived (duplex_of 5 link_used) = [''a'']"
  using link_refines_duplex [OF link_made_init link_used_reached link_used_proper]
  by (simp add: duplex_of_def link_used_def connected_client_def mkClient_def)

text \<open>
  In both directions, as long as the client has not misused its stream, nothing is lost, repeated, reordered or made up: what a client has received is
  the beginning of what the server was asked to send it, and what the server has read is the
  beginning of what the client sent. No text is empty, so a client that has received anything keeps
  reading until it is closed, and its applications get the server's texts as one stream.
\<close>

theorem link_delivers_in_order:
  assumes "link_init H a p l0" "(link_step H p)\<^sup>*\<^sup>* l0 l" "\<not> cl_misused (cli l)"
  shows "prefix (cl_received (cli l)) (sent_down p (srv l)) \<and> prefix (up_read l) (cl_sent (cli l)) \<and>
    [] \<notin> set (cl_received (cli l)) \<and>
    (cl_received (cli l) = [] \<or> isClosed (cli l) \<or> cl_reading (cli l)) \<and>
    prefix (cl_taken (cli l)) (concat (sent_down p (srv l)))"
proof -
  have "link_inv H a p l" using link.reached [OF assms] by blast
  then have inv: "client_inv (cli l)" "keeps_reading (cli l)" by (simp_all add: link_inv_def)
  have "duplex_inv (duplex_of p l)"
    using link.transferred [OF assms, of duplex_inv] duplex_inv_init duplex_inv_step by blast
  then have d: "prefix (cl_received (cli l)) (sent_down p (srv l))" "prefix (up_read l) (cl_sent (cli l))"
    "[] \<notin> set (sent_down p (srv l))"
    by (simp_all add: duplex_inv_def duplex_of_def)
  then have n: "[] \<notin> set (cl_received (cli l))" by (auto dest: set_mono_prefix)
  have "concat (cl_received (cli l)) = cl_taken (cli l) @ incomingMessage (cli l)"
    using inv(1) by (simp add: client_inv_def)
  moreover obtain r where "sent_down p (srv l) = cl_received (cli l) @ r" using d(1) by (rule prefixE)
  ultimately have "prefix (cl_taken (cli l)) (concat (sent_down p (srv l)))" by simp
  then show ?thesis using d n inv(2) by (auto simp: keeps_reading_def)
qed

theorem link_delivers_in_order_witness:
  "prefix (cl_received (cli link_used)) (sent_down 5 (srv link_used)) \<and> cl_received (cli link_used) = [''a''] \<and>
   cl_reading (cli link_used)"
  using link_delivers_in_order [OF link_made_init link_used_reached link_used_proper]
  by (simp add: link_used_def connected_client_def mkClient_def)

end
