(* ===== verification/Lobby_Session.thy ===== *)
theory Lobby_Session
  imports Client_Server_Link Server_Behaviour
begin

text \<open>
  A lobby and the game server it joined, as one system: iterations of the two main loops, in any order,
  over a link, until the loops end: by a shutdown, an exception or a fault, by \<open>exit\<close>, or by a lost connection.
  The system refines the link of \<open>Client_Server_Link\<close>, so what holds of a connection holds of
  it: the messages the server processes are the lines entered, and the lobby displays the answers. The
  server's other clients are in the completions its polls deliver, of which nothing is assumed. As there, the
  object of the lobby's channel is not released, and nothing is promised of a stream that was misused.
\<close>

section \<open>The system\<close>

text \<open>
  \<open>host_ended\<close> says that the server's loop is over, \<open>threw\<close> holds the message of the exception that ended the
  lobby's. \<open>typed\<close>, \<open>heard\<close> and \<open>answered\<close> are histories: the lines the user entered for the server, the texts the
  server has read from the lobby, and the answers its iterations have given while the lobby was registered.
\<close>

record System =
  host :: "GameServer ServerImpl"
  host_ended :: bool
  guest :: Lobby
  threw :: "string option"
  typed :: "string list"
  heard :: "string list"
  answered :: "string list"

fun texts_from :: "uintptr \<Rightarrow> net_event list \<Rightarrow> string list" where
  "texts_from p [] = []"
| "texts_from p (e # es) =
     (case e of Read q (Some t) \<Rightarrow> if q = p then t # texts_from p es else texts_from p es
      | _ \<Rightarrow> texts_from p es)"

fun client_texts :: "client_event list \<Rightarrow> string list" where
  "client_texts [] = []"
| "client_texts (e # es) = (case e of ClientRead (Some t) \<Rightarrow> t # client_texts es | _ \<Rightarrow> client_texts es)"

text \<open>What an iteration sends to the connection \<open>p\<close>.\<close>

definition iteration_answer ::
    "(string list \<Rightarrow> string list) \<Rightarrow> nat \<Rightarrow> uintptr \<Rightarrow> net_event list \<Rightarrow> GameServer ServerImpl \<Rightarrow> string list" where
  "iteration_answer ord n p events s =
     (case processMessages ord n (reads events) ((server_update game_handlers events s)\<lparr>incoming := []\<rparr>) of
        Inl e \<Rightarrow> []
      | Inr (mr, s3) \<Rightarrow>
          if um_contains (channels s3) (Connection p) \<and> mr_result mr \<noteq> [] then [mr_result mr] else [])"

text \<open>The condition of the lobby's loop; what an exception leaves on the screen.\<close>

definition lobby_running :: "Lobby \<Rightarrow> string option \<Rightarrow> bool" where
  "lobby_running l exn \<longleftrightarrow> exn = None \<and> \<not> isExitCommandReceived l \<and> \<not> isClosed (lobby_client l)"

definition failure_notice :: "string option \<Rightarrow> string list" where
  "failure_notice exn = (case exn of None \<Rightarrow> [] | Some what \<Rightarrow> [''Exception from Client update:'', what])"

text \<open>
  An iteration of the server that faults is its last: the texts its poll has read have been read, and nothing
  is answered. Either end reads what the other has handed to its stream, as in \<open>link_step\<close>.
\<close>

definition poll_for :: "uintptr \<Rightarrow> net_event list \<Rightarrow> string list \<Rightarrow> ClientImpl \<Rightarrow> bool" where
  "poll_for p events h c \<longleftrightarrow>
     list_all (\<lambda>e. e \<noteq> Upgrade p \<and> e \<noteq> Released p) events \<and>
     (texts_from p events = [] \<or> cl_misused c \<or> prefix (h @ texts_from p events) (up_wire c))"

definition poll_of :: "uintptr \<Rightarrow> client_event list \<Rightarrow> GameServer ServerImpl \<Rightarrow> ClientImpl \<Rightarrow> bool" where
  "poll_of p events s c \<longleftrightarrow>
     client_texts events = [] \<or> cl_misused c \<or> prefix (cl_received c @ client_texts events) (on_wire p s)"

inductive system_step :: "(string list \<Rightarrow> string list) \<Rightarrow> nat \<Rightarrow> uintptr \<Rightarrow> System \<Rightarrow> System \<Rightarrow> bool"
  for ord n p where
  host_iterates:
    "\<not> host_ended y \<Longrightarrow> enabled_all game_handlers events (host y) \<Longrightarrow>
     poll_for p events (heard y) (lobby_client (guest y)) \<Longrightarrow>
     runIteration ord n events err (host y) = Inr (stop, s') \<Longrightarrow>
     system_step ord n p y
       (y\<lparr>host := s', host_ended := stop, heard := heard y @ texts_from p events,
          answered := answered y @ iteration_answer ord n p events (host y)\<rparr>)"
| host_fails:
    "\<not> host_ended y \<Longrightarrow> enabled_all game_handlers events (host y) \<Longrightarrow>
     poll_for p events (heard y) (lobby_client (guest y)) \<Longrightarrow>
     runIteration ord n events err (host y) = Inl e \<Longrightarrow>
     system_step ord n p y
       (y\<lparr>host := (server_update game_handlers events (host y))\<lparr>incoming := []\<rparr>, host_ended := True,
          heard := heard y @ texts_from p events\<rparr>)"
| guest_iterates:
    "lobby_running (guest y) (threw y) \<Longrightarrow> client_enabled_all events (lobby_client (guest y)) \<Longrightarrow>
     poll_of p events (host y) (lobby_client (guest y)) \<Longrightarrow>
     joinIteration (events, exn, entry) (guest y) = (stop, l') \<Longrightarrow>
     system_step ord n p y
       (y\<lparr>guest := l', threw := exn, typed := typed y @ (if stop then [] else entered entry)\<rparr>)"

definition link_of :: "System \<Rightarrow> GameServer Link" where
  "link_of y = \<lparr>srv = host y, cli = lobby_client (guest y), up_read = heard y\<rparr>"

text \<open>The lobby has just been joined, over the connection that will be at \<open>p\<close>.\<close>

definition system_init :: "GameServer \<Rightarrow> uintptr \<Rightarrow> System \<Rightarrow> bool" where
  "system_init g p y \<longleftrightarrow>
     link_init game_handlers g p (link_of y) \<and> server_inv (host y) \<and> incoming (host y) = [] \<and>
     \<not> host_ended y \<and> displayed (guest y) = [] \<and> \<not> isExitCommandReceived (guest y) \<and> threw y = None \<and>
     typed y = [] \<and> answered y = []"

section \<open>The steps of the link\<close>

text \<open>The loop of the server, as steps of the link.\<close>

lemma link_server_update:
  assumes "enabled_all H es (srv l)" "poll_for p es (up_read l) (cli l)"
  shows "(link_step H p)\<^sup>*\<^sup>* l (l\<lparr>srv := server_update H es (srv l), up_read := up_read l @ texts_from p es\<rparr>)"
  using assms unfolding poll_for_def
proof (induction es arbitrary: l)
  case (Cons e es)
  have en: "enabled (srv l) e" using Cons.prems(1) by simp
  show ?case
  proof (cases "\<exists>t. e = Read p (Some t)")
    case True
    then obtain t where e: "e = Read p (Some t)" by blast
    let ?l = "l\<lparr>srv := complete H (Read p (Some t)) (srv l), up_read := up_read l @ [t]\<rparr>"
    have "cl_misused (cli l) \<or> prefix (up_read l @ [t]) (up_wire (cli l))"
      using Cons.prems(2) e by (auto simp: prefix_def)
    with en e have "link_step H p l ?l" by (intro server_reads) simp_all
    moreover have "(link_step H p)\<^sup>*\<^sup>* ?l (?l\<lparr>srv := server_update H es (srv ?l), up_read := up_read ?l @ texts_from p es\<rparr>)"
      by (rule Cons.IH) (use Cons.prems e in simp_all)
    ultimately show ?thesis using e by (simp add: converse_rtranclp_into_rtranclp)
  next
    case False
    let ?l = "l\<lparr>srv := complete H e (srv l)\<rparr>"
    have t: "texts_from p (e # es) = texts_from p es"
      using False by (cases e) (auto split: option.split)
    have "link_step H p l ?l"
      by (rule server_completes [OF en]) (use Cons.prems(2) False in \<open>auto simp: local_event_def\<close>)
    moreover have "(link_step H p)\<^sup>*\<^sup>* ?l (?l\<lparr>srv := server_update H es (srv ?l), up_read := up_read ?l @ texts_from p es\<rparr>)"
      by (rule Cons.IH) (use Cons.prems t in simp_all)
    ultimately show ?thesis using t by (simp add: converse_rtranclp_into_rtranclp)
  qed
qed simp

lemma link_message:
  assumes "processMessage ord n m (s, out, quit) = Inr (s', out', quit')"
  shows "(link_step game_handlers p)\<^sup>*\<^sup>* (l\<lparr>srv := s\<rparr>) (l\<lparr>srv := s'\<rparr>) \<and> same_sent p s s'"
proof -
  have "\<exists>c b. s' = s \<or> s' = server_disconnect game_handlers c s \<or> s' = s\<lparr>app := b\<rparr>"
    using assms by (auto simp: processMessage_def Let_def bindR_iffs split: if_splits list.splits)
  moreover have "(link_step game_handlers p)\<^sup>*\<^sup>* (l\<lparr>srv := s\<rparr>) (l\<lparr>srv := server_disconnect game_handlers c s\<rparr>)" for c
    using server_closes [of game_handlers p "l\<lparr>srv := s\<rparr>" c] by auto
  moreover have "(link_step game_handlers p)\<^sup>*\<^sup>* (l\<lparr>srv := s\<rparr>) (l\<lparr>srv := s\<lparr>app := b\<rparr>\<rparr>)" for b
    using server_acts [of game_handlers p "l\<lparr>srv := s\<rparr>" b] by auto
  ultimately show ?thesis by (auto simp: same_sent_disconnect)
qed

lemma link_messages:
  "processLoop ord n ms (s, out, quit) = Inr (s', out', quit') \<Longrightarrow>
   (link_step game_handlers p)\<^sup>*\<^sup>* (l\<lparr>srv := s\<rparr>) (l\<lparr>srv := s'\<rparr>) \<and> same_sent p s s'"
proof (induction ms arbitrary: s out quit)
  case (Cons m ms)
  then obtain s1 out1 quit1 where m: "processMessage ord n m (s, out, quit) = Inr (s1, out1, quit1)"
    "processLoop ord n ms (s1, out1, quit1) = Inr (s', out', quit')" by (auto simp: bindR_iffs)
  from link_message [OF m(1), of p l] Cons.IH [OF m(2)] show ?case
    using same_sent_trans by (metis rtranclp_trans)
qed simp

lemma same_sent_update:
  "list_all (\<lambda>e. e \<noteq> Upgrade p \<and> e \<noteq> Released p) es \<Longrightarrow> same_sent p s (server_update H es s)"
proof (induction es arbitrary: s)
  case (Cons e es)
  then show ?case using same_sent_trans [OF same_sent_complete [of e p s H]] by simp
qed simp

text \<open>The poll of an iteration, and what it receives.\<close>

lemma host_poll_link:
  assumes "enabled_all game_handlers events s" "poll_for p events h c"
  shows "(link_step game_handlers p)\<^sup>*\<^sup>* \<lparr>srv = s, cli = c, up_read = h\<rparr>
    \<lparr>srv = (server_update game_handlers events s)\<lparr>incoming := []\<rparr>, cli = c, up_read = h @ texts_from p events\<rparr>"
proof -
  let ?l1 = "\<lparr>srv = server_update game_handlers events s, cli = c, up_read = h @ texts_from p events\<rparr>"
  have "(link_step game_handlers p)\<^sup>*\<^sup>* \<lparr>srv = s, cli = c, up_read = h\<rparr> ?l1"
    using link_server_update [of game_handlers events "\<lparr>srv = s, cli = c, up_read = h\<rparr>" p] assms by simp
  moreover have "link_step game_handlers p ?l1 (?l1\<lparr>srv := (srv ?l1)\<lparr>incoming := []\<rparr>\<rparr>)"
    using server_takes [of game_handlers p ?l1] by (simp add: server_receive_def)
  ultimately show ?thesis by simp
qed

text \<open>An iteration of the server: steps of the link, and its answer is what the channel is sent.\<close>

lemma host_link:
  assumes "incoming s = []" "enabled_all game_handlers events s"
    and "poll_for p events h c" "runIteration ord n events err s = Inr (stop, s')"
  shows "(link_step game_handlers p)\<^sup>*\<^sup>* \<lparr>srv = s, cli = c, up_read = h\<rparr>
    \<lparr>srv = s', cli = c, up_read = h @ texts_from p events\<rparr>"
proof -
  let ?step = "link_step game_handlers p"
  let ?s1 = "server_update game_handlers events s"
  let ?l1 = "\<lparr>srv = ?s1, cli = c, up_read = h @ texts_from p events\<rparr>"
  from runIteration_received [OF assms(1,4)] obtain mr s3 where
    r: "processMessages ord n (reads events) (?s1\<lparr>incoming := []\<rparr>) = Inr (mr, s3)"
    "s' = server_send (buildOutgoing (mr_result mr) (app s3)) s3" by blast
  have "?step\<^sup>*\<^sup>* \<lparr>srv = s, cli = c, up_read = h\<rparr> (?l1\<lparr>srv := ?s1\<lparr>incoming := []\<rparr>\<rparr>)"
    using host_poll_link [OF assms(2,3)] by simp
  moreover have "?step\<^sup>*\<^sup>* (?l1\<lparr>srv := ?s1\<lparr>incoming := []\<rparr>\<rparr>) (?l1\<lparr>srv := s3\<rparr>)"
    using r(1) link_messages [of ord n "reads events" "?s1\<lparr>incoming := []\<rparr>" "[]" False s3 _ _ p ?l1]
    by (auto simp: processMessages_def bindR_iffs)
  moreover have "?step (?l1\<lparr>srv := s3\<rparr>) (?l1\<lparr>srv := s'\<rparr>)"
    using server_sends [of game_handlers p "?l1\<lparr>srv := s3\<rparr>"] by (simp add: r(2))
  ultimately show ?thesis by simp
qed

lemma host_answers:
  assumes "server_inv s" "incoming s = []" "enabled_all game_handlers events s" "heap s p \<noteq> None"
    and "poll_for p events h c" "runIteration ord n events err s = Inr (stop, s')"
  shows "sent_down p s' = sent_down p s @ iteration_answer ord n p events s"
proof -
  let ?s = "(server_update game_handlers events s)\<lparr>incoming := []\<rparr>"
  from runIteration_broadcast [OF assms(1-3,6)] obtain mr s3 where
    r: "processMessages ord n (reads events) ?s = Inr (mr, s3)"
    "heap s' p = (if um_contains (channels s3) (Connection p)
                  then map_option (channel_send (mr_result mr)) (heap s3 p) else heap s3 p)" by blast
  have "same_sent p s ?s" using same_sent_update [of p events s game_handlers] assms(5) by (simp add: poll_for_def)
  moreover have "same_sent p ?s s3"
    using r(1) link_messages [of ord n "reads events" ?s "[]" False s3 _ _ p] by (auto simp: processMessages_def bindR_iffs)
  ultimately have "same_sent p s s3" by (rule same_sent_trans)
  then have "sent_down p s3 = sent_down p s" "heap s3 p \<noteq> None" using assms(4) by (auto simp: same_sent_def)
  then show ?thesis
    using r by (auto simp: sent_down_def iteration_answer_def ch_sent_channel_send split: option.splits)
qed

text \<open>The loop of the lobby, as steps of the link.\<close>

lemma link_client_update:
  assumes "client_enabled_all es (cli l)"
    and "client_texts es = [] \<or> cl_misused (cli l) \<or>
      prefix (cl_received (cli l) @ client_texts es) (on_wire p (srv l))"
  shows "(link_step H p)\<^sup>*\<^sup>* l (l\<lparr>cli := client_update es (cli l)\<rparr>)"
  using assms
proof (induction es arbitrary: l)
  case (Cons e es)
  let ?l = "l\<lparr>cli := client_complete e (cli l)\<rparr>"
  have en: "client_enabled (cli l) e" using Cons.prems(1) by simp
  have step: "link_step H p l ?l \<and> cl_received (cli ?l) @ client_texts es = cl_received (cli l) @ client_texts (e # es)"
  proof (cases "\<exists>t. e = ClientRead (Some t)")
    case True
    then obtain t where e: "e = ClientRead (Some t)" by blast
    have "cl_misused (cli l) \<or> prefix (cl_received (cli l) @ [t]) (on_wire p (srv l))"
      using Cons.prems(2) e by (auto simp: prefix_def)
    with en e show ?thesis using client_reads [of l t p H] by (simp add: Let_def)
  next
    case False
    then show ?thesis
      using client_completes [OF en, of H p]
      by (cases e) (auto simp: Let_def client_disconnect_def split: option.splits)
  qed
  have "client_texts (e # es) = [] \<Longrightarrow> client_texts es = []" by (cases e) (auto split: option.splits)
  then have "client_texts es = [] \<or> cl_misused (cli ?l) \<or>
      prefix (cl_received (cli ?l) @ client_texts es) (on_wire p (srv ?l))"
    using Cons.prems(2) step by (auto simp del: client_texts.simps client_complete.simps)
  from Cons.IH [OF _ this] have "(link_step H p)\<^sup>*\<^sup>* ?l (?l\<lparr>cli := client_update es (cli ?l)\<rparr>)"
    using Cons.prems(1) by simp
  with step show ?case by (auto intro: converse_rtranclp_into_rtranclp)
qed simp

lemma joinIteration_client:
  assumes "joinIteration (events, exn, entry) g = (stop, g')"
  shows "let c1 = client_update events (lobby_client g); c2 = snd (client_receive c1)
    in lobby_client g' = c1 \<or> lobby_client g' = c2 \<or> (\<exists>t. lobby_client g' = client_send t c2)"
  using assms
  by (auto simp: joinIteration_def client_receive_def onTextEntry_def Let_def split: option.splits if_splits)

lemma guest_link:
  assumes "client_enabled_all events (lobby_client g)"
    and "poll_of p events s (lobby_client g)"
    and "joinIteration (events, exn, entry) g = (stop, g')"
  shows "(link_step H p)\<^sup>*\<^sup>* \<lparr>srv = s, cli = lobby_client g, up_read = h\<rparr>
    \<lparr>srv = s, cli = lobby_client g', up_read = h\<rparr>"
proof -
  let ?c1 = "client_update events (lobby_client g)"
  let ?c2 = "snd (client_receive ?c1)"
  let ?l = "\<lambda>c. \<lparr>srv = s, cli = c, up_read = h\<rparr>"
  have 1: "(link_step H p)\<^sup>*\<^sup>* (?l (lobby_client g)) (?l ?c1)"
    using link_client_update [of events "?l (lobby_client g)" p H] assms(1,2) by (simp add: poll_of_def)
  have 2: "link_step H p (?l ?c1) (?l ?c2)"
    using client_takes [of H p "?l ?c1"] by simp
  have 3: "link_step H p (?l ?c2) (?l (client_send t ?c2))" for t
    using client_sends [of H p "?l ?c2" t] by simp
  show ?thesis
    using joinIteration_client [OF assms(3)] rtranclp.rtrancl_into_rtrancl [OF 1 2]
      rtranclp.rtrancl_into_rtrancl [OF rtranclp.rtrancl_into_rtrancl [OF 1 2] 3] 1
    by (auto simp: Let_def)
qed

section \<open>The system refines the link\<close>

definition system_inv :: "GameServer \<Rightarrow> uintptr \<Rightarrow> System \<Rightarrow> bool" where
  "system_inv g p y \<longleftrightarrow>
     link_inv game_handlers g p (link_of y) \<and> server_inv (host y) \<and> incoming (host y) = [] \<and>
     (\<exists>ts. displayed (guest y) = ts @ failure_notice (threw y) \<and> concat ts = cl_taken (lobby_client (guest y))) \<and>
     cl_sent (lobby_client (guest y)) = typed y \<and> set (typed y) \<inter> {[], ''exit'', ''quit''} = {} \<and>
     sent_down p (host y) = answered y"

lemma system_init_inv: "system_init g p y \<Longrightarrow> system_inv g p y \<and> link_init game_handlers g p (link_of y)"
  using link.inits [of game_handlers g p "link_of y"]
  by (auto simp: system_init_def system_inv_def link_init_def link_of_def mkClient_def sent_down_def mkChannel_def
      failure_notice_def)

lemma system_misused_before:
  "system_step ord n p y y' \<Longrightarrow> \<not> cl_misused (lobby_client (guest y')) \<Longrightarrow> \<not> cl_misused (lobby_client (guest y))"
proof (induction rule: system_step.induct)
  case (guest_iterates y events exn entry stop l')
  from joinIteration_client [OF guest_iterates(4)] guest_iterates(5) show ?case by (auto simp: Let_def)
qed auto

text \<open>What an iteration of the lobby does to the screen and to the client.\<close>

lemma guest_displays:
  assumes "joinIteration (events, exn, entry) l = (stop, l')"
    and "displayed l = ts" "concat ts = cl_taken (lobby_client l)"
  shows "\<exists>ts'. displayed l' = ts' @ failure_notice exn \<and> concat ts' = cl_taken (lobby_client l')"
  using assms
  by (auto simp: joinIteration_def client_receive_def onTextEntry_def client_send_def failure_notice_def Let_def
      split: option.splits if_splits)

lemma entered_text: "set (entered entry) \<inter> {[], ''exit'', ''quit''} = {}"
  by (auto simp: entered_def split: option.split)

lemma system_step_refines:
  assumes "system_inv g p y" "system_step ord n p y y'" "\<not> cl_misused (lobby_client (guest y'))"
  shows "system_inv g p y' \<and> (link_step game_handlers p)\<^sup>*\<^sup>* (link_of y) (link_of y')"
  using assms(2)
proof cases
  case (host_iterates events err stop s')
  have inv: "server_inv (host y)" "incoming (host y) = []" "heap (host y) p \<noteq> None"
    using assms(1) by (simp_all add: system_inv_def link_inv_def link_of_def)
  have l: "(link_step game_handlers p)\<^sup>*\<^sup>* (link_of y) (link_of y')"
    using host_link [OF inv(2) host_iterates(3-5)] by (simp add: link_of_def host_iterates(1))
  have "sent_down p s' = sent_down p (host y) @ iteration_answer ord n p events (host y)"
    using host_answers [OF inv(1,2) host_iterates(3) inv(3) host_iterates(4,5)] .
  moreover have "server_inv s'" "incoming s' = []"
    using runIteration_inv [OF host_iterates(5) inv(1) host_iterates(3)] runIteration_received [OF inv(2) host_iterates(5)]
    by simp_all
  ultimately show ?thesis
    using assms(1,3) l link.preserved [OF l] by (simp add: system_inv_def host_iterates(1) link_of_def)
next
  case (host_fails events err e)
  let ?s = "(server_update game_handlers events (host y))\<lparr>incoming := []\<rparr>"
  have l: "(link_step game_handlers p)\<^sup>*\<^sup>* (link_of y) (link_of y')"
    using host_poll_link [OF host_fails(3,4)] by (simp add: link_of_def host_fails(1))
  have "server_inv (host y)" using assms(1) by (simp add: system_inv_def)
  then have "server_inv ?s"
    using server_inv_receive [OF server_inv_update [OF _ host_fails(3)]] by (simp add: server_receive_def)
  moreover have "same_sent p (host y) ?s" using same_sent_update [of p events "host y" game_handlers] host_fails(4) by (simp add: poll_for_def)
  ultimately show ?thesis
    using assms(1,3) l link.preserved [OF l] by (simp add: system_inv_def host_fails(1) link_of_def same_sent_def)
next
  case (guest_iterates events exn entry stop l')
  have l: "(link_step game_handlers p)\<^sup>*\<^sup>* (link_of y) (link_of y')"
    using guest_link [OF guest_iterates(3-5)] by (simp add: link_of_def guest_iterates(1))
  have "threw y = None" using guest_iterates(2) by (simp add: lobby_running_def)
  with assms(1) have d: "concat (displayed (guest y)) = cl_taken (lobby_client (guest y))"
    by (auto simp: system_inv_def failure_notice_def)
  have "cl_sent (lobby_client l') = typed y'" "set (typed y') \<inter> {[], ''exit'', ''quit''} = {}"
    using joinIteration_effect(2) [OF guest_iterates(5)] assms(1) entered_text [of entry]
    by (auto simp: system_inv_def guest_iterates(1))
  moreover obtain ts where "displayed l' = ts @ failure_notice exn" "concat ts = cl_taken (lobby_client l')"
    using guest_displays [OF guest_iterates(5) refl d] by blast
  ultimately show ?thesis
    using assms(1,3) l link.preserved [OF l] by (auto simp: system_inv_def guest_iterates(1) link_of_def)
qed

interpretation system: refinement_map "system_init g p" "system_step ord n p"
    "link_init game_handlers g p" "link_step game_handlers p" "system_inv g p"
    "\<lambda>y. \<not> cl_misused (lobby_client (guest y))" link_of
  for g p ord n
  by unfold_locales (erule system_init_inv, erule (1) system_misused_before, erule (2) system_step_refines)

lemma system_inv_shows:
  assumes "system_inv g p y"
  shows "(\<exists>ts. displayed (guest y) = ts @ failure_notice (threw y) \<and> prefix (concat ts) (concat (answered y))) \<and>
    sent_down p (host y) = answered y \<and>
    prefix (heard y) (typed y) \<and> set (typed y) \<inter> {[], ''exit'', ''quit''} = {}"
proof -
  obtain ts where ts: "displayed (guest y) = ts @ failure_notice (threw y)"
    "concat ts = cl_taken (lobby_client (guest y))" using assms by (auto simp: system_inv_def)
  have "client_inv (lobby_client (guest y))" "duplex_inv (duplex_of p (link_of y))"
    using assms by (simp_all add: system_inv_def link_inv_def link_of_def)
  then have d: "prefix (cl_received (lobby_client (guest y))) (answered y)" "prefix (heard y) (typed y)"
    "concat (cl_received (lobby_client (guest y))) =
       cl_taken (lobby_client (guest y)) @ incomingMessage (lobby_client (guest y))"
    using assms by (simp_all add: duplex_inv_def duplex_of_def link_of_def system_inv_def client_inv_def)
  then obtain r where "answered y = cl_received (lobby_client (guest y)) @ r" by (auto elim: prefixE)
  then have "prefix (cl_taken (lobby_client (guest y))) (concat (answered y))" using d(3) by simp
  with ts d(2) assms show ?thesis by (auto simp: system_inv_def)
qed

section \<open>Properties\<close>

text \<open>
  C17. A lobby on its game server, end to end, for any interleaving of the two loops up to their ends, as long as
  the lobby has not misused its stream and the channel's object is not released: the messages the server has
  read are the beginning of the lines the user entered, none of them empty, \<open>exit\<close> or \<open>quit\<close>; and what the lobby
  has displayed is the beginning of the answers the iterations of the server gave to its connection, as one
  text, followed by the notice of the exception if one has ended the lobby's loop, and by nothing otherwise.
\<close>

theorem lobby_shows_answers:
  assumes "system_init g p y0" "(system_step ord n p)\<^sup>*\<^sup>* y0 y" "\<not> cl_misused (lobby_client (guest y))"
  shows "prefix (heard y) (typed y) \<and> set (typed y) \<inter> {[], ''exit'', ''quit''} = {} \<and>
    (\<exists>ts. displayed (guest y) = ts @ failure_notice (threw y) \<and> prefix (concat ts) (concat (answered y)))"
  using system_inv_shows system.reached [OF assms] by blast

text \<open>A lobby that says one word to a server it has just joined.\<close>

definition before_hello :: System where
  "before_hello =
     \<lparr>host = complete game_handlers (Upgrade 5) (mkServer game_server), host_ended = False,
      guest = \<lparr>lobby_client = mkClient, isExitCommandReceived = False, displayed = []\<rparr>, threw = None,
      typed = [], heard = [], answered = []\<rparr>"

lemma before_hello_init: "system_init game_server 5 before_hello"
proof -
  have en: "enabled (mkServer game_server) (Upgrade 5)" by (simp add: mkServer_def)
  have "server_inv (mkServer game_server)" by (rule server_inv_initial) simp_all
  from server_inv_complete [OF this en] net_reachable.step [OF net_reachable.start net_step.completion [OF en]]
  show ?thesis
    by (simp add: system_init_def link_init_def link_of_def before_hello_def) (simp add: mkServer_def)
qed

lemma hello_joined:
  "runIteration id 0 [Accepted 5 True] False (host before_hello) = Inr (False, one_client)"
proof -
  have "server_update game_handlers [Accepted 5 True] (host before_hello) =
      server_update game_handlers [Upgrade 5, Accepted 5 True] (mkServer game_server)"
    by (simp add: before_hello_def)
  then show ?thesis using one_client_polled [of id 0] by (simp only: runIteration_def)
qed

lemma hello_answered:
  "\<exists>s'. runIteration id 0 [Read 5 (Some ''hi'')] False one_client = Inr (False, s') \<and>
     on_wire 5 s' = [''5> hi'' @ nl] \<and> iteration_answer id 0 5 [Read 5 (Some ''hi'')] one_client = [''5> hi'' @ nl]"
proof -
  let ?m = "\<lparr>msg_connection = Connection 5, msg_text = ''hi''\<rparr>"
  let ?s = "(server_update game_handlers [Read 5 (Some ''hi'')] one_client)\<lparr>incoming := []\<rparr>"
  have m: "processMessage id 0 ?m (?s, [], False) = Inr (?s, ''5> hi'' @ nl, False)"
    by (subst processMessage_chat) (simp_all add: one_client_fields)
  then have "runIteration id 0 [Read 5 (Some ''hi'')] False one_client =
      Inr (False, server_send (buildOutgoing (''5> hi'' @ nl) (app one_client)) ?s)"
    by (simp add: runIteration_def server_receive_def processMessages_def one_client_fields)
  moreover have "on_wire 5 (server_send (buildOutgoing (''5> hi'' @ nl) (app one_client)) ?s) = [''5> hi'' @ nl]"
    by (simp add: on_wire_def buildOutgoing_def one_client_fields channel_send_def mkChannel_def)
  moreover have "iteration_answer id 0 5 [Read 5 (Some ''hi'')] one_client = [''5> hi'' @ nl]"
    using m by (simp add: iteration_answer_def processMessages_def one_client_fields um_contains_def)
  ultimately show ?thesis by blast
qed

theorem lobby_shows_answers_witness:
  "\<exists>y. (system_step id 0 5)\<^sup>*\<^sup>* before_hello y \<and> heard y = [''hi''] \<and> typed y = [''hi''] \<and>
     displayed (guest y) = [''5> hi'' @ nl] @ failure_notice (Some ''reset'') \<and>
     (\<exists>ts. displayed (guest y) = ts @ failure_notice (threw y) \<and> prefix (concat ts) (concat (answered y)))"
proof -
  obtain s' where s': "runIteration id 0 [Read 5 (Some ''hi'')] False one_client = Inr (False, s')"
    "on_wire 5 s' = [''5> hi'' @ nl]" using hello_answered by blast
  let ?step = "system_step id 0 5"
  let ?p1 = "([Connected True, Handshaken True], None, Some ''hi'')"
  let ?p2 = "([ClientRead (Some (''5> hi'' @ nl))], None, None)"
  let ?p3 = "([ClientRead None], Some ''reset'', None)"
  let ?l1 = "snd (joinIteration ?p1 (guest before_hello))"
  let ?l2 = "snd (joinIteration ?p2 ?l1)"
  let ?l3 = "snd (joinIteration ?p3 ?l2)"
  let ?y1 = "before_hello\<lparr>host := one_client, host_ended := False, heard := [],
      answered := iteration_answer id 0 5 [Accepted 5 True] (host before_hello)\<rparr>"
  let ?y2 = "?y1\<lparr>guest := ?l1, threw := None, typed := [''hi'']\<rparr>"
  let ?y3 = "?y2\<lparr>host := s', host_ended := False, heard := [''hi''],
      answered := answered ?y2 @ iteration_answer id 0 5 [Read 5 (Some ''hi'')] one_client\<rparr>"
  let ?y4 = "?y3\<lparr>guest := ?l2, threw := None, typed := [''hi'']\<rparr>"
  let ?y5 = "?y4\<lparr>guest := ?l3, threw := Some ''reset'', typed := [''hi'']\<rparr>"
  note states = before_hello_def mkClient_def joinIteration_def client_receive_def onTextEntry_def client_send_def
    write_allowed_def lobby_running_def entered_def poll_of_def
  have "?step before_hello ?y1"
    using host_iterates [where y = before_hello and events = "[Accepted 5 True]" and err = False and stop = False
        and s' = one_client and p = 5 and ord = id and n = 0] hello_joined
    by (simp add: before_hello_def mkChannel_def poll_for_def)
  moreover have "?step ?y1 ?y2"
    using guest_iterates [where y = ?y1 and events = "fst ?p1" and exn = None and entry = "Some ''hi''"
        and stop = False and l' = ?l1 and p = 5 and ord = id and n = 0]
    by (simp add: states)
  moreover have "?step ?y2 ?y3"
    using host_iterates [where y = ?y2 and events = "[Read 5 (Some ''hi'')]" and err = False and stop = False
        and s' = s' and p = 5 and ord = id and n = 0] s'(1)
    by (simp add: states one_client_fields mkChannel_def poll_for_def up_wire_def buffer_text_def)
  moreover have "?step ?y3 ?y4"
    using guest_iterates [where y = ?y3 and events = "fst ?p2" and exn = None and entry = None
        and stop = False and l' = ?l2 and p = 5 and ord = id and n = 0] s'(2)
    by (simp add: states)
  moreover have "?step ?y4 ?y5"
    using guest_iterates [where y = ?y4 and events = "fst ?p3" and exn = "Some ''reset''" and entry = None
        and stop = True and l' = ?l3 and p = 5 and ord = id and n = 0] s'(2)
    by (simp add: states)
  ultimately have run: "?step\<^sup>*\<^sup>* before_hello ?y5"
    by (meson converse_rtranclp_into_rtranclp rtranclp.rtrancl_refl)
  have "displayed (guest ?y5) = [''5> hi'' @ nl] @ failure_notice (Some ''reset'')" "\<not> cl_misused (lobby_client (guest ?y5))"
    by (simp_all add: states failure_notice_def client_disconnect_def)
  with run lobby_shows_answers [OF before_hello_init run] show ?thesis by (intro exI [of _ ?y5]) simp
qed

end
