(* ===== verification/Game_Room.thy ===== *)
theory Game_Room
  imports Lobby_Session
begin

text \<open>
  What a game server promises its players, without its network: a chat room. The room knows who is in it,
  in the order of arrival, under which name, and what each has been told; its operations are joining,
  leaving, renaming, and telling everybody the answers to a round of messages. The main loop of the
  server refines it: each iteration, seen through \<open>room_of\<close>, is a round of the room.
\<close>

section \<open>The room\<close>

record Member =
  m_id :: uintptr
  m_nick :: string
  m_transcript :: "string list"

record Room =
  seats :: "Member list"
  logged :: "string list"

definition room_join :: "uintptr \<Rightarrow> Room \<Rightarrow> Room" where
  "room_join i r = r\<lparr>seats := seats r @ [\<lparr>m_id = i, m_nick = to_string i, m_transcript = []\<rparr>]\<rparr>"

definition room_leave :: "uintptr \<Rightarrow> Room \<Rightarrow> Room" where
  "room_leave i r = r\<lparr>seats := filter (\<lambda>m. m_id m \<noteq> i) (seats r)\<rparr>"

definition room_rename :: "uintptr \<Rightarrow> string \<Rightarrow> Room \<Rightarrow> Room" where
  "room_rename i name r =
     r\<lparr>seats := map (\<lambda>m. if m_id m = i then m\<lparr>m_nick := name\<rparr> else m) (seats r)\<rparr>"

text \<open>Somebody who has left is called by the empty name.\<close>

definition room_nick :: "uintptr \<Rightarrow> Room \<Rightarrow> string" where
  "room_nick i r = (case map_of (map (\<lambda>m. (m_id m, m_nick m)) (seats r)) i of None \<Rightarrow> [] | Some name \<Rightarrow> name)"

definition room_tell :: "string \<Rightarrow> Room \<Rightarrow> Room" where
  "room_tell t r =
     (if t = [] then r else r\<lparr>seats := map (\<lambda>m. m\<lparr>m_transcript := m_transcript m @ [t]\<rparr>) (seats r)\<rparr>)"

text \<open>The completions that matter to the room.\<close>

fun room_event :: "net_event \<Rightarrow> Room \<Rightarrow> Room" where
  "room_event (Accepted p True) = room_join p"
| "room_event (Read p None) = room_leave p"
| "room_event (Wrote p False) = room_leave p"
| "room_event _ = id"

text \<open>
  A game to play is a function from the ids of the members to the text and the log lines of an execution,
  \<open>None\<close> when no valid game is loaded.
\<close>

type_synonym play = "uintptr list \<Rightarrow> fault + string \<times> string list"

definition room_message :: "play option \<Rightarrow> uintptr \<Rightarrow> string \<Rightarrow> Room \<Rightarrow> fault + Room \<times> string \<times> bool" where
  "room_message play i t r =
     (if t = [] then Inl OutOfRange
      else if t = ''quit'' then Inr (room_leave i r, [], False)
      else if t = ''shutdown'' then Inr (r, [], True)
      else if hd t \<noteq> CHR ''/'' then Inr (r, room_nick i r @ ''> '' @ t @ nl, False)
      else
        let command = until CHR '' '' (tl t)
        in if command = ''nickname'' then
             let name = (if CHR '' '' \<in> set t then tl (find_from CHR '' '' t) else t)
             in Inr (room_rename i name r,
                     room_nick i r @ '' has changed their name to: '' @ name @ ''.'' @ nl, False)
           else if command = ''execute'' then
             (case play of
                None \<Rightarrow> Inr (r, tab @ ''Cannot execute game - not yet loaded'' @ nl, False)
              | Some f \<Rightarrow> bindR (f (map m_id (seats r))) (\<lambda>(answer, lines).
                  Inr (r\<lparr>logged := logged r @ lines\<rparr>, answer, False)))
           else Inr (r, room_nick i r @ ''> command not found.'' @ nl, False))"

fun room_messages :: "play option \<Rightarrow> Message list \<Rightarrow> Room \<Rightarrow> fault + Room \<times> string \<times> bool" where
  "room_messages play [] r = Inr (r, [], False)"
| "room_messages play (m # ms) r =
     bindR (room_message play (conn_id (msg_connection m)) (msg_text m) r) (\<lambda>(r1, t1, q1).
     bindR (room_messages play ms r1) (\<lambda>(r2, t2, q2). Inr (r2, t1 @ t2, q1 \<or> q2)))"

definition room_round :: "play option \<Rightarrow> net_event list \<times> bool \<Rightarrow> Room \<Rightarrow> fault + bool \<times> Room" where
  "room_round play = (\<lambda>(events, err) r.
     bindR (room_messages play (reads events) (fold room_event events r)) (\<lambda>(r', t, quit).
       Inr (quit \<or> err, room_tell t r')))"

fun room_run :: "play option \<Rightarrow> (net_event list \<times> bool) list \<Rightarrow> Room \<Rightarrow> fault + bool \<times> Room" where
  "room_run play [] r = Inr (False, r)"
| "room_run play (poll # polls) r =
     bindR (room_round play poll r) (\<lambda>(stop, r'). if stop then Inr (True, r') else room_run play polls r')"

section \<open>The server's room\<close>

definition seat_of :: "GameServer ServerImpl \<Rightarrow> User \<Rightarrow> Member" where
  "seat_of s u =
     \<lparr>m_id = conn_id (userConnection u), m_nick = nickname u,
      m_transcript = sent_down (conn_id (userConnection u)) s\<rparr>"

definition room_of :: "GameServer ServerImpl \<Rightarrow> Room" where
  "room_of s = \<lparr>seats = map (seat_of s) (users (app s)), logged = gs_log (app s)\<rparr>"

text \<open>The game the server has loaded, executed for the given players.\<close>

definition game_of ::
    "(string list \<Rightarrow> string list) \<Rightarrow> nat \<Rightarrow> GameData \<Rightarrow> play option" where
  "game_of ord n gd =
     (if isValid gd then
        Some (\<lambda>ids. bindR (executeGame ord n
                (mkGameServer\<lparr>gs_gameData := gd, users := map (\<lambda>i. mkUser (Connection i)) ids\<rparr>))
              (\<lambda>(answer, g). Inr (answer, gs_log g)))
      else None)"

text \<open>A channel that has not been accepted yet has been sent nothing.\<close>

definition quiet :: "'a ServerImpl \<Rightarrow> bool" where
  "quiet s \<longleftrightarrow> (\<forall>p ch. heap s p = Some ch \<longrightarrow> ch_accepting ch \<longrightarrow> ch_sent ch = [])"

lemma quiet_at_channel:
  "quiet s \<Longrightarrow> (\<And>ch. ch_accepting (f ch) \<Longrightarrow> ch_accepting ch \<and> ch_sent (f ch) = ch_sent ch) \<Longrightarrow>
   quiet (at_channel p f s)"
  by (auto simp: quiet_def split: if_splits)

lemma quiet_frame [simp]:
  "quiet (s\<lparr>app := a\<rparr>) = quiet s" "quiet (s\<lparr>channels := m\<rparr>) = quiet s" "quiet (s\<lparr>incoming := i\<rparr>) = quiet s"
  by (simp_all add: quiet_def)

lemma quiet_disconnect: "quiet s \<Longrightarrow> quiet (server_disconnect H c s)"
  by (auto simp: server_disconnect_def Let_def channel_disconnect_def intro!: quiet_at_channel
      split: option.split)

lemma quiet_complete: "quiet s \<Longrightarrow> quiet (complete H e s)"
proof (cases e)
  case (Upgrade p)
  assume "quiet s"
  with Upgrade show ?thesis by (simp add: quiet_def mkChannel_def)
next
  case (Released p)
  assume "quiet s"
  with Released show ?thesis by (simp add: quiet_def)
qed (auto simp: Let_def registerChannel_def channel_wrote_def intro!: quiet_at_channel quiet_disconnect
      split: option.split if_splits)

text \<open>What leaves the users and every transcript alone leaves the room alone.\<close>

lemma room_of_same:
  assumes "\<And>i. i \<in> conn_id ` userConnection ` set (users (app s)) \<Longrightarrow> sent_down i s' = sent_down i s"
    and "users (app s') = users (app s)" "gs_log (app s') = gs_log (app s)"
  shows "room_of s' = room_of s"
  using assms by (simp add: room_of_def seat_of_def)

text \<open>The users are those of the registered connections; this survives what a failed operation does to its channel.\<close>

definition seated :: "GameServer ServerImpl \<Rightarrow> bool" where
  "seated s \<longleftrightarrow> userConnection ` set (users (app s)) = dom (map_of (channels s))"

lemma seated_inv: "server_inv s \<Longrightarrow> seated s"
  by (auto simp: seated_def server_inv_def users_match_def)

lemma seated_at_channel [simp]: "seated (at_channel p f s) = seated s"
  by (simp add: seated_def)

lemma seat_ids [simp]: "m_id (seat_of s u) = conn_id (userConnection u)" "m_nick (seat_of s u) = nickname u"
  by (simp_all add: seat_of_def)

lemma room_of_fields [simp]:
  "seats (room_of s) = map (seat_of s) (users (app s))" "logged (room_of s) = gs_log (app s)"
  by (simp_all add: room_of_def)

lemma conn_id_image: "i \<in> conn_id ` X \<longleftrightarrow> Connection i \<in> X"
proof
  assume "i \<in> conn_id ` X"
  then obtain c where "c \<in> X" "i = conn_id c" by blast
  then show "Connection i \<in> X" by simp
qed (metis connection.sel imageI)

lemma seated_user:
  "seated s \<Longrightarrow> i \<in> conn_id ` userConnection ` set (users (app s)) \<longleftrightarrow> um_contains (channels s) (Connection i)"
  unfolding seated_def conn_id_image by (simp add: um_contains_iff domIff)

lemma seated_member: "seated s \<Longrightarrow> i \<in> m_id ` set (seats (room_of s)) \<longleftrightarrow> um_contains (channels s) (Connection i)"
  using seated_user [of s i] by (simp add: image_image)

lemma leave_absent: "i \<notin> m_id ` set (seats r) \<Longrightarrow> room_leave i r = r"
  by (cases r) (simp add: room_leave_def filter_id_conv image_iff Ball_def, metis)

lemma room_of_disconnect:
  assumes "seated s"
  shows "room_of (server_disconnect game_handlers c s) = room_leave (conn_id c) (room_of s)"
proof (cases "map_of (channels s) c")
  case None
  then have "conn_id c \<notin> m_id ` set (seats (room_of s))"
    using seated_member [OF assms] by (simp add: um_contains_iff del: room_of_fields)
  with None show ?thesis by (simp add: server_disconnect_def leave_absent)
next
  case (Some p)
  have "sent_down i (server_disconnect game_handlers c s) = sent_down i s" for i
    using same_sent_disconnect [OF same_sent_refl, of i s game_handlers c] by (simp add: same_sent_def)
  then have "seat_of (server_disconnect game_handlers c s) = seat_of s" by (simp add: seat_of_def fun_eq_iff)
  moreover have "users (app (server_disconnect game_handlers c s)) = filter (\<lambda>u. userConnection u \<noteq> c) (users (app s))"
    "gs_log (app (server_disconnect game_handlers c s)) = gs_log (app s)"
    using Some by (simp_all add: server_disconnect_def Let_def game_handlers_def onDisconnect_def
        removeDisconnectedUser_filter)
  ultimately show ?thesis by (simp add: room_of_def room_leave_def filter_map comp_def)
qed

text \<open>A completion, seen from the room. The channel of a failed operation may be gone from the room already.\<close>

lemma room_of_at_channel:
  "(\<And>ch. ch_sent (f ch) = ch_sent ch) \<Longrightarrow> room_of (at_channel p f s) = room_of s"
  by (rule room_of_same) (auto simp: sent_down_def split: option.splits)

lemma room_of_incoming [simp]: "room_of (s\<lparr>incoming := ms\<rparr>) = room_of s"
  by (rule room_of_same) (simp_all add: sent_down_def)

lemma room_of_failed:
  assumes "server_inv s" "heap s p = Some ch" "\<And>ch. ch_sent (f ch) = ch_sent ch"
    and "\<And>ch. ch_disconnected (f ch) = ch_disconnected ch"
  shows "room_of (if \<not> is_disconnected (at_channel p f s) p
                  then server_disconnect game_handlers (Connection p) (at_channel p f s) else at_channel p f s) =
    room_leave p (room_of s)"
proof (cases "is_disconnected (at_channel p f s) p")
  case True
  then have "\<not> um_contains (channels s) (Connection p)"
    using net_invD(3) [OF _ assms(2)] assms(1,2,4)
    by (auto simp: server_inv_def is_disconnected_def channel_inv_def)
  then have "room_leave p (room_of s) = room_of s"
    using seated_member [OF seated_inv [OF assms(1)]] by (simp add: leave_absent)
  with True show ?thesis by (simp add: room_of_at_channel assms(3))
next
  case False
  then show ?thesis
    using seated_inv [OF assms(1)] by (simp add: room_of_disconnect room_of_at_channel assms(3))
qed

lemma absent_channel: "net_inv s \<Longrightarrow> heap s p = None \<Longrightarrow> \<not> um_contains (channels s) (Connection p)"
  by (fastforce simp: net_inv_def um_contains_iff)

lemma room_of_complete:
  assumes "server_inv s" "quiet s" "enabled s e"
  shows "room_of (complete game_handlers e s) = room_event e (room_of s)"
proof -
  have inv: "net_inv s" using assms(1) by (simp add: server_inv_def)
  note member = seated_member [OF seated_inv [OF assms(1)]]
  have fresh: "i \<noteq> p" if "\<not> um_contains (channels s) (Connection p)"
    "i \<in> conn_id ` userConnection ` set (users (app s))" for i p
    using that seated_user [OF seated_inv [OF assms(1)]] by blast
  show ?thesis
  proof (cases e)
    case (Upgrade p)
    then have "\<not> um_contains (channels s) (Connection p)"
      using assms(3) absent_channel [OF inv] by simp
    from fresh [OF this] Upgrade have "room_of (complete game_handlers e s) = room_of s"
      by (intro room_of_same) (auto simp: sent_down_def)
    with Upgrade show ?thesis by simp
  next
    case (Accepted p ok)
    then obtain ch where ch: "heap s p = Some ch" "ch_accepting ch" using assms(3) by (auto split: option.splits)
    then have nc: "\<not> um_contains (channels s) (Connection p)"
      using net_invD(3) [OF inv ch(1)] by (auto simp: channel_inv_def)
    have "ch_sent ch = []" using assms(2) ch by (auto simp: quiet_def)
    then show ?thesis
    proof (cases ok)
      case True
      have "sent_down i (complete game_handlers e s) = sent_down i s" for i
        using same_sent_complete [of e i s game_handlers] Accepted by (simp add: same_sent_def)
      then have "seat_of (complete game_handlers e s) = seat_of s" by (simp add: seat_of_def fun_eq_iff)
      moreover have "users (app (complete game_handlers e s)) = users (app s) @ [mkUser (Connection p)]"
        "gs_log (app (complete game_handlers e s)) = gs_log (app s)"
        using Accepted True by (simp_all add: Let_def registerChannel_def game_handlers_def onConnect_def)
      ultimately show ?thesis
        using Accepted True \<open>ch_sent ch = []\<close> ch(1)
        by (simp add: room_of_def room_join_def mkUser_def) (simp add: seat_of_def sent_down_def)
    next
      case False
      have "seated (at_channel p (\<lambda>ch. ch\<lparr>ch_accepting := False\<rparr>) s)" using seated_inv [OF assms(1)] by simp
      moreover have "room_leave p (room_of s) = room_of s" using member nc by (simp add: leave_absent)
      ultimately show ?thesis using Accepted False
        by (simp add: Let_def room_of_disconnect room_of_at_channel)
    qed
  next
    case (Read p t)
    then obtain ch where "heap s p = Some ch" using assms(3) by (auto split: option.splits)
    from room_of_failed [OF assms(1) this, of "\<lambda>ch. ch\<lparr>ch_reading := False\<rparr>"] Read show ?thesis
      by (cases t) (simp_all add: Let_def room_of_at_channel)
  next
    case (Wrote p ok)
    then obtain ch where "heap s p = Some ch" using assms(3) by (auto split: option.splits)
    from room_of_failed [OF assms(1) this, of "\<lambda>ch. ch\<lparr>ch_inFlight := tl (ch_inFlight ch)\<rparr>"] Wrote show ?thesis
      by (cases ok) (simp_all add: Let_def room_of_at_channel)
  next
    case (Released p)
    then have "\<not> um_contains (channels s) (Connection p)" using assms(3) by (auto split: option.splits)
    from fresh [OF this] Released have "room_of (complete game_handlers e s) = room_of s"
      by (intro room_of_same) (auto simp: sent_down_def)
    with Released show ?thesis by simp
  qed
qed

lemma room_of_update:
  "server_inv s \<Longrightarrow> quiet s \<Longrightarrow> enabled_all game_handlers es s \<Longrightarrow>
   room_of (server_update game_handlers es s) = fold room_event es (room_of s)"
  by (induction es arbitrary: s) (simp_all add: room_of_complete server_inv_complete quiet_complete)

section \<open>Messages\<close>

lemma room_nick_of: "room_nick i (room_of s) = getUserNickname i (users (app s))"
proof -
  have "(case map_of (map (\<lambda>u. (conn_id (userConnection u), nickname u)) us) i of None \<Rightarrow> [] | Some n \<Rightarrow> n) =
      getUserNickname i us" for us
    by (induction us) auto
  then show ?thesis by (simp add: room_nick_def comp_def)
qed

lemma seat_of_app [simp]: "seat_of (s\<lparr>app := g\<rparr>) = seat_of s"
  by (simp add: seat_of_def sent_down_def fun_eq_iff)

lemma room_of_rename:
  assumes "server_inv s"
  shows "room_of (s\<lparr>app := (app s)\<lparr>users := changeUserNickname i name (users (app s))\<rparr>\<rparr>) =
    room_rename i name (room_of s)"
proof -
  have "map (seat_of s) (changeUserNickname i name us) =
      map (\<lambda>m. if m_id m = i then m\<lparr>m_nick := name\<rparr> else m) (map (seat_of s) us)"
    if "distinct (map userConnection us)" for us
    using that
  proof (induction us)
    case (Cons u us)
    have "\<forall>v \<in> set us. userConnection v \<noteq> userConnection u" using Cons.prems
      by (metis distinct.simps(2) imageI list.map(2) list.set_map)
    with Cons show ?case by (cases "conn_id (userConnection u) = i") (auto simp: seat_of_def)
  qed simp
  moreover have "distinct (map userConnection (users (app s)))"
    using assms by (metis server_inv_def users_match_def)
  ultimately show ?thesis by (simp add: room_of_def room_rename_def)
qed

text \<open>An execution depends on the game and on who plays, and only adds to the log.\<close>

lemma executeGame_players:
  assumes "gs_gameData g = gs_gameData h" "gs_log g = gs_log h"
    "map (\<lambda>u. conn_id (userConnection u)) (users g) = map (\<lambda>u. conn_id (userConnection u)) (users h)"
  shows "executeGame ord n g = bindR (executeGame ord n h) (\<lambda>(answer, h'). Inr (answer, g\<lparr>gs_log := gs_log h'\<rparr>))"
  unfolding executeGame_def assms Let_def by (simp add: bindR_def split: sum.split prod.split)

lemma executeGame_game_of:
  assumes f: "game_of ord n (gs_gameData g) = Some f"
  shows "executeGame ord n g =
    bindR (f (map (\<lambda>u. conn_id (userConnection u)) (users g)))
      (\<lambda>(answer, lines). Inr (answer, g\<lparr>gs_log := gs_log g @ lines\<rparr>))"
proof -
  let ?ids = "map (\<lambda>u. conn_id (userConnection u)) (users g)"
  let ?g0 = "g\<lparr>gs_log := []\<rparr>"
  let ?h = "mkGameServer\<lparr>gs_gameData := gs_gameData g, users := map (\<lambda>i. mkUser (Connection i)) ?ids\<rparr>"
  have "executeGame ord n ?g0 = bindR (executeGame ord n ?h) (\<lambda>(answer, h'). Inr (answer, ?g0\<lparr>gs_log := gs_log h'\<rparr>))"
    by (rule executeGame_players) (simp_all add: mkGameServer_def mkUser_def)
  moreover have "executeGame ord n g =
      bindR (executeGame ord n ?g0) (\<lambda>(text, g'). Inr (text, g'\<lparr>gs_log := gs_log g @ gs_log g'\<rparr>))"
    using executeGame_log [where g = ?g0 and ms = "gs_log g" and ord = ord and n = n] by simp
  ultimately show ?thesis
    using f by (auto simp: game_of_def bindR_def split: sum.split if_splits)
qed

section \<open>The main loop refines the room\<close>

lemma room_message_of:
  assumes "server_inv s" "storable (msg_text m)" "game_of ord n (gs_gameData (app s)) = play"
  shows "bindR (processMessage ord n m (s, [], False)) (\<lambda>(s', t, q). Inr (room_of s', t, q)) =
    room_message play (conn_id (msg_connection m)) (msg_text m) (room_of s)"
proof (cases "msg_text m")
  case Nil
  then show ?thesis by (simp add: processMessage_empty room_message_def)
next
  case (Cons c t)
  consider "msg_text m = ''quit''" | "msg_text m \<noteq> ''quit''" "msg_text m = ''shutdown''"
    | "msg_text m \<noteq> ''quit''" "msg_text m \<noteq> ''shutdown''" "c \<noteq> CHR ''/''"
    | "c = CHR ''/''" "until CHR '' '' t = ''nickname''" | "c = CHR ''/''" "until CHR '' '' t \<noteq> ''nickname''"
    by blast
  then show ?thesis
  proof cases
    case 1
    then show ?thesis
      using seated_inv [OF assms(1)] by (simp add: processMessage_quit room_message_def room_of_disconnect)
  next
    case 2
    then show ?thesis by (simp add: processMessage_def room_message_def)
  next
    case 3
    with Cons show ?thesis by (simp add: processMessage_chat room_message_def room_nick_of)
  next
    case 4
    with Cons processMessage_nickname [of m t ord n s "[]" False] assms show ?thesis
      by (simp add: room_message_def room_nick_of room_of_rename Let_def)
  next
    case 5
    note command = processMessage_command [of m t ord n s "[]" False]
    have log: "room_of (s\<lparr>app := (app s)\<lparr>gs_log := l\<rparr>\<rparr>) = (room_of s)\<lparr>logged := l\<rparr>" for l
      by (simp add: room_of_def)
    have ids: "map m_id (seats (room_of s)) = map (\<lambda>u. conn_id (userConnection u)) (users (app s))" by simp
    show ?thesis
    proof (cases play)
      case None
      then have "\<not> isValid (gs_gameData (app s))" using assms(3) by (auto simp: game_of_def split: if_splits)
      with 5 Cons command assms(2) None show ?thesis by (simp add: room_message_def room_nick_of)
    next
      case (Some f)
      then have "isValid (gs_gameData (app s))" using assms(3) by (auto simp: game_of_def split: if_splits)
      moreover note executeGame_game_of [of ord n "app s" f] Some assms(3)
      ultimately show ?thesis using 5 Cons command assms(2)
        by (simp add: room_message_def room_nick_of ids log del: room_of_fields(1))
           (auto simp: bindR_def log split: sum.split)
    qed
  qed
qed

lemma processMessage_game:
  "processMessage ord n m (s, out, quit) = Inr (s', out', quit') \<Longrightarrow> gs_gameData (app s') = gs_gameData (app s)"
  by (auto simp: processMessage_def Let_def bindR_iffs server_disconnect_def game_handlers_def onDisconnect_def
      dest!: executeGame_frame split: if_splits list.splits option.splits)

lemma update_game: "gs_gameData (app (server_update game_handlers es s)) = gs_gameData (app s)"
proof (induction es arbitrary: s)
  case (Cons e es)
  have "gs_gameData (app (complete game_handlers e s)) = gs_gameData (app s)"
    by (cases e) (auto simp: Let_def registerChannel_def server_disconnect_def game_handlers_def onConnect_def
        onDisconnect_def split: option.split)
  with Cons show ?case by simp
qed simp

lemma room_messages_of:
  assumes "server_inv s" "list_all (\<lambda>m. storable (msg_text m)) ms" "game_of ord n (gs_gameData (app s)) = play"
  shows "bindR (processLoop ord n ms (s, out, quit)) (\<lambda>(s', t, q). Inr (room_of s', t, q)) =
    bindR (room_messages play ms (room_of s)) (\<lambda>(r, t, q). Inr (r, out @ t, quit \<or> q))"
  using assms
proof (induction ms arbitrary: s out quit)
  case (Cons m ms)
  have step: "room_message play (conn_id (msg_connection m)) (msg_text m) (room_of s) =
      bindR (processMessage ord n m (s, [], False)) (\<lambda>(s', t, q). Inr (room_of s', t, q))"
    using room_message_of [OF Cons.prems(1) _ Cons.prems(3), of m] Cons.prems(2) by simp
  show ?case
  proof (cases "processMessage ord n m (s, [], False)")
    case (Inl e)
    with step Cons.prems(2) show ?thesis by (simp add: processMessage_append [of ord n m s out])
  next
    case (Inr x)
    then obtain s1 t1 q1 where x: "processMessage ord n m (s, [], False) = Inr (s1, t1, q1)" by (cases x) auto
    have "server_inv s1" "game_of ord n (gs_gameData (app s1)) = play"
      using processMessage_inv [OF x Cons.prems(1)] processMessage_game [OF x] Cons.prems(3) by simp_all
    note rest = Cons.IH [OF this(1) _ this(2), of "out @ t1" "quit \<or> q1"]
    show ?thesis
      using step x rest Cons.prems(2)
      by (simp add: processMessage_append [of ord n m s out])
         (auto simp: bindR_def split: sum.split prod.split)
  qed
qed simp

lemma room_of_send:
  assumes "server_inv s"
  shows "room_of (server_send (buildOutgoing t (app s)) s) = room_tell t (room_of s)"
proof -
  let ?s = "server_send (buildOutgoing t (app s)) s"
  have "sent_down i ?s = sent_down i s @ (if t = [] then [] else [t])"
    if "i \<in> conn_id ` userConnection ` set (users (app s))" for i
  proof -
    have "um_contains (channels s) (Connection i)" using that seated_user [OF seated_inv [OF assms]] by blast
    moreover from this have "heap s i \<noteq> None" using absent_channel assms by (auto simp: server_inv_def)
    ultimately show ?thesis
      by (auto simp: sent_down_def broadcast_all [OF assms] ch_sent_channel_send)
  qed
  then show ?thesis by (cases "t = []") (simp_all add: room_of_def room_tell_def seat_of_def)
qed

lemma room_round_of:
  assumes "server_inv s" "quiet s" "incoming s = []" "enabled_all game_handlers events s"
    and "list_all (\<lambda>m. storable (msg_text m)) (reads events)"
  shows "bindR (runIteration ord n events err s) (\<lambda>(stop, s'). Inr (stop, room_of s')) =
    room_round (game_of ord n (gs_gameData (app s))) (events, err) (room_of s)"
proof -
  let ?s1 = "server_update game_handlers events s"
  let ?s = "?s1\<lparr>incoming := []\<rparr>"
  let ?play = "game_of ord n (gs_gameData (app s))"
  have inv: "server_inv ?s"
    using server_inv_receive [OF server_inv_update [OF assms(1,4)]] by (simp add: server_receive_def)
  have game: "gs_gameData (app ?s) = gs_gameData (app s)"
    using update_game [of events s] by simp
  have room: "room_of ?s = fold room_event events (room_of s)"
    using room_of_update [OF assms(1,2,4)] by simp
  note loop = room_messages_of [OF inv assms(5), of ord n ?play "[]" False, unfolded room, symmetric]
  show ?thesis
  proof (cases "processLoop ord n (reads events) (?s, [], False)")
    case (Inl e)
    with loop game show ?thesis
      by (simp add: runIteration_def server_receive_def incoming_server_update assms(3) processMessages_def
          room_round_def bindR_eq_Inl)
  next
    case (Inr x)
    then obtain s3 t q where x: "processLoop ord n (reads events) (?s, [], False) = Inr (s3, t, q)" by (cases x) auto
    have "server_inv s3" using processLoop_inv [OF x inv] .
    with x loop game show ?thesis
      by (auto simp: runIteration_def server_receive_def incoming_server_update assms(3) processMessages_def
          room_round_def room_of_send bindR_def split: sum.splits)
  qed
qed

lemma net_reachable_quiet: "net_reachable H a s \<Longrightarrow> quiet s"
proof (induction rule: net_reachable.induct)
  case start
  show ?case by (simp add: quiet_def mkServer_def)
next
  case (step s t)
  have send: "quiet (server_send ms s)" if "net_inv s" "quiet s" for ms and s :: "'a ServerImpl"
    using that
  proof (induction ms arbitrary: s)
    case (Cons m ms)
    have "quiet (at_channel p (channel_send (msg_text m)) s)"
      if "map_of (channels s) (msg_connection m) = Some p" for p
    proof -
      have "um_contains (channels s) (Connection p)"
        using that net_invD(2) [OF Cons.prems(1) that] by (simp add: um_contains_iff connection_eta)
      then have "\<not> ch_accepting ch" if "heap s p = Some ch" for ch
        using net_invD(3) [OF Cons.prems(1) that] by (simp add: channel_inv_def)
      moreover have "ch_accepting (channel_send t ch) = ch_accepting ch" for t ch
        by (simp add: channel_send_def Let_def)
      ultimately show ?thesis using Cons.prems(2) by (auto simp: quiet_def split: if_splits)
    qed
    moreover have "net_inv (server_send [m] s)" using net_inv_send [OF Cons.prems(1)] .
    ultimately show ?case using Cons by (auto split: option.splits)
  qed simp
  from step(2) show ?case
    using step(3) by cases (auto simp: quiet_complete quiet_disconnect server_receive_def
        send net_reachable_inv [OF step(1)])
qed

section \<open>Properties\<close>

lemma served_quiet: "served ord n g s stop \<Longrightarrow> quiet s"
  by (rule net_reachable_quiet [OF served_reachable])

lemma runIteration_game:
  "runIteration ord n events err s = Inr (stop, s') \<Longrightarrow> gs_gameData (app s') = gs_gameData (app s)"
proof -
  have loop: "processLoop ord n ms (s, out, quit) = Inr (s', out', quit') \<Longrightarrow> gs_gameData (app s') = gs_gameData (app s)"
    for ms s out quit s' out' quit'
    by (induction ms arbitrary: s out quit) (auto simp: bindR_iffs dest: processMessage_game)
  assume "runIteration ord n events err s = Inr (stop, s')"
  then show ?thesis
    by (auto simp: runIteration_def Let_def processMessages_def bindR_iffs server_receive_def update_game
        dest!: loop)
qed

lemma run_room:
  assumes "served ord n g s False" "clients g = []" "users g = []" "polls_enabled ord n polls s"
    and "list_all (\<lambda>(events, err). list_all (\<lambda>m. storable (msg_text m)) (reads events)) polls"
    and "game_of ord n (gs_gameData (app s)) = play"
  shows "bindR (run ord n polls s) (\<lambda>(stop, s'). Inr (stop, room_of s')) = room_run play polls (room_of s)"
  using assms(1,4,5,6)
proof (induction polls arbitrary: s)
  case (Cons poll polls)
  obtain events err where poll: "poll = (events, err)" by fastforce
  have en: "enabled_all game_handlers events s" using Cons.prems(2) poll by simp
  have s: "server_inv s" "incoming s = []" using served_inv [OF Cons.prems(1) assms(2,3)] by simp_all
  have round: "room_round play (events, err) (room_of s) =
      bindR (runIteration ord n events err s) (\<lambda>(stop, s'). Inr (stop, room_of s'))"
    using room_round_of [OF s(1) served_quiet [OF Cons.prems(1)] s(2) en] Cons.prems(3,4) poll by simp
  show ?case
  proof (cases "runIteration ord n events err s")
    case (Inl e)
    with round poll show ?thesis by simp
  next
    case (Inr x)
    then obtain stop s' where x: "runIteration ord n events err s = Inr (stop, s')" by (cases x) auto
    have "game_of ord n (gs_gameData (app s')) = play" using runIteration_game [OF x] Cons.prems(4) by simp
    with x round poll Cons.prems(2,3) show ?thesis
      using Cons.IH served.serve_poll [OF Cons.prems(1) en x] by (cases stop) simp_all
  qed
qed simp

text \<open>
  C1. The game server is a chat room. Seen through \<open>room_of\<close>, the main loop, over any completions that its
  polls may deliver, is the loop of the room: the same members under the same names in the same order, each
  told the same texts, the same log, the same end and the same faults.
\<close>

theorem server_refines_room:
  assumes "polls_enabled ord n polls (mkServer g)" "clients g = []" "users g = []"
    and "list_all (\<lambda>(events, err). list_all (\<lambda>m. storable (msg_text m)) (reads events)) polls"
  shows "bindR (run ord n polls (mkServer g)) (\<lambda>(stop, s). Inr (stop, room_of s)) =
    room_run (game_of ord n (gs_gameData g)) polls \<lparr>seats = [], logged = gs_log g\<rparr>"
proof -
  have "room_of (mkServer g) = \<lparr>seats = [], logged = gs_log g\<rparr>" by (simp add: room_of_def mkServer_def assms(3))
  then show ?thesis using run_room [OF serve_start assms(2,3,1,4)] by (simp add: mkServer_def)
qed

text \<open>A player at address 5 speaks, and another arrives at address 9 and speaks too.\<close>

definition hi_told :: "GameServer ServerImpl" where
  "hi_told = server_send (buildOutgoing (''5> hi'' @ nl) (app one_client))
     ((server_update game_handlers [Read 5 (Some ''hi'')] one_client)\<lparr>incoming := []\<rparr>)"

lemma hi_polled: "runIteration ord n [Read 5 (Some ''hi'')] False one_client = Inr (False, hi_told)"
proof -
  let ?m = "\<lparr>msg_connection = Connection 5, msg_text = ''hi''\<rparr>"
  let ?s = "(server_update game_handlers [Read 5 (Some ''hi'')] one_client)\<lparr>incoming := []\<rparr>"
  have "processMessage ord n ?m (?s, [], False) = Inr (?s, ''5> hi'' @ nl, False)"
    by (subst processMessage_chat) (simp_all add: one_client_fields)
  then show ?thesis
    by (simp add: hi_told_def runIteration_def server_receive_def processMessages_def one_client_fields)
qed

definition two_talk :: "(net_event list \<times> bool) list" where
  "two_talk = [([Upgrade 5, Accepted 5 True], False), ([Read 5 (Some ''hi'')], False),
     ([Upgrade 9, Accepted 9 True, Read 9 (Some ''/nickname Ann''), Read 9 (Some ''yes'')], False)]"

lemma two_talk_enabled: "polls_enabled ord n two_talk (mkServer game_server)"
proof -
  have "enabled_all game_handlers [Upgrade 9, Accepted 9 True, Read 9 (Some ''/nickname Ann''), Read 9 (Some ''yes'')] hi_told"
    by (simp add: hi_told_def buildOutgoing_def one_client_fields mkChannel_def Let_def registerChannel_def)
  moreover have "enabled_all game_handlers [Read 5 (Some ''hi'')] one_client"
    by (simp add: one_client_fields)
  ultimately show ?thesis
    using one_client_enabled
    by (simp add: two_talk_def one_client_polled hi_polled del: enabled_all.simps split: sum.split bool.split)
qed

lemma two_talk_storable:
  "list_all (\<lambda>(events, err). list_all (\<lambda>m. storable (msg_text m)) (reads events)) two_talk"
  by (simp add: two_talk_def storable_def)

definition two_talk_end :: Room where
  "two_talk_end =
     \<lparr>seats =
        [\<lparr>m_id = 5, m_nick = ''5'',
          m_transcript = [''5> hi'' @ nl, ''9 has changed their name to: Ann.'' @ nl @ ''Ann> yes'' @ nl]\<rparr>,
         \<lparr>m_id = 9, m_nick = ''Ann'',
          m_transcript = [''9 has changed their name to: Ann.'' @ nl @ ''Ann> yes'' @ nl]\<rparr>],
      logged = []\<rparr>"

lemma two_talk_room:
  "room_run play two_talk \<lparr>seats = [], logged = []\<rparr> =
     Inr (False, two_talk_end)"
proof -
  have "to_string 5 = ''5''" "to_string 9 = ''9''" by code_simp+
  then show ?thesis
    by (simp add: two_talk_end_def two_talk_def room_round_def room_join_def room_message_def room_nick_def room_tell_def
        room_rename_def until_def)
qed

lemma two_talk_start: "room_of (mkServer game_server) = \<lparr>seats = [], logged = []\<rparr>" "gs_log game_server = []"
  by (simp_all add: room_of_def mkServer_def) (simp_all add: game_server_def mkGameServer_def)

lemma two_talk_seats:
  assumes "room_of s = two_talk_end"
  shows "\<exists>u v t. users (app s) = [u, v] \<and> conn_id (userConnection u) = 5 \<and> conn_id (userConnection v) = 9 \<and>
    nickname v = ''Ann'' \<and> sent_down 5 s = [''5> hi'' @ nl, t] \<and> sent_down 9 s = [t]"
proof -
  have "map (seat_of s) (users (app s)) = seats two_talk_end" using assms by (metis room_of_fields(1))
  then obtain u v where "users (app s) = [u, v]" "seat_of s u = seats two_talk_end ! 0"
    "seat_of s v = seats two_talk_end ! 1"
    by (auto simp: two_talk_end_def map_eq_Cons_conv)
  then show ?thesis by (auto simp: two_talk_end_def seat_of_def)
qed

theorem server_refines_room_witness:
  "\<exists>s u v t. run id 0 two_talk (mkServer game_server) = Inr (False, s) \<and> users (app s) = [u, v] \<and>
     nickname v = ''Ann'' \<and> sent_down 5 s = [''5> hi'' @ nl, t] \<and> sent_down 9 s = [t]"
proof -
  have "bindR (run id 0 two_talk (mkServer game_server)) (\<lambda>(stop, s). Inr (stop, room_of s)) =
      room_run (game_of id 0 (gs_gameData game_server)) two_talk \<lparr>seats = [], logged = gs_log game_server\<rparr>"
    by (rule server_refines_room [OF two_talk_enabled _ _ two_talk_storable]) simp_all
  then have "bindR (run id 0 two_talk (mkServer game_server)) (\<lambda>(stop, s). Inr (stop, room_of s)) =
      Inr (False, two_talk_end)" by (simp add: two_talk_start two_talk_room)
  then obtain s where "run id 0 two_talk (mkServer game_server) = Inr (False, s)" "room_of s = two_talk_end"
    by (auto simp: bindR_iffs)
  with two_talk_seats [OF this(2)] show ?thesis by blast
qed

section \<open>Who has heard what\<close>

definition hears_in_order :: "Room \<Rightarrow> bool" where
  "hears_in_order r \<longleftrightarrow> sorted_wrt (\<lambda>a b. suffix (m_transcript b) (m_transcript a)) (seats r)"

lemma hears_in_order_event: "hears_in_order r \<Longrightarrow> hears_in_order (room_event e r)"
  by (cases e rule: room_event.cases)
     (simp_all add: hears_in_order_def room_join_def room_leave_def sorted_wrt_append sorted_wrt_filter)

lemma hears_in_order_tell: "hears_in_order r \<Longrightarrow> hears_in_order (room_tell t r)"
  by (simp add: hears_in_order_def room_tell_def sorted_wrt_map)

lemma hears_in_order_users:
  "hears_in_order (room_of s) \<longleftrightarrow>
     sorted_wrt (\<lambda>c d. suffix (sent_down (conn_id d) s) (sent_down (conn_id c) s)) (map userConnection (users (app s)))"
  by (simp add: hears_in_order_def sorted_wrt_map seat_of_def)

lemma hears_in_order_message:
  assumes "processMessage ord n m (s, out, quit) = Inr (s', out', quit')" "seated s" "hears_in_order (room_of s)"
  shows "hears_in_order (room_of s')"
proof -
  have "s' = server_disconnect game_handlers (msg_connection m) s \<or>
      (\<exists>g. s' = s\<lparr>app := g\<rparr> \<and> map userConnection (users g) = map userConnection (users (app s)))"
    using assms(1) by (auto simp: processMessage_def Let_def bindR_iffs dest!: executeGame_frame
        intro: exI [of _ "app s"] split: if_splits list.splits)
  then show ?thesis
  proof (elim disjE exE conjE)
    fix g assume "s' = s\<lparr>app := g\<rparr>" "map userConnection (users g) = map userConnection (users (app s))"
    moreover from this have "sent_down i s' = sent_down i s" for i by (simp add: sent_down_def)
    ultimately show ?thesis using assms(3) by (simp add: hears_in_order_users del: map_eq_conv)
  qed (use assms(2,3) in \<open>simp add: room_of_disconnect hears_in_order_def room_leave_def sorted_wrt_filter\<close>)
qed

lemma hears_in_order_poll:
  assumes "server_inv s" "quiet s" "enabled_all game_handlers events s" "hears_in_order (room_of s)"
  shows "hears_in_order (room_of ((server_update game_handlers events s)\<lparr>incoming := []\<rparr>))"
proof -
  have "hears_in_order (fold room_event es r)" if "hears_in_order r" for es r
    using that by (induction es arbitrary: r) (simp_all add: hears_in_order_event)
  then show ?thesis using assms(4) by (simp add: room_of_update [OF assms(1-3)])
qed

lemma hears_in_order_iteration:
  assumes "server_inv s" "incoming s = []" "quiet s" "enabled_all game_handlers events s"
    and "runIteration ord n events err s = Inr (stop, s')" "hears_in_order (room_of s)"
  shows "hears_in_order (room_of s')"
proof -
  let ?s1 = "(server_update game_handlers events s)\<lparr>incoming := []\<rparr>"
  have loop: "processLoop ord n ms (s, out, quit) = Inr (s', out', quit') \<Longrightarrow> server_inv s \<Longrightarrow>
      hears_in_order (room_of s) \<Longrightarrow> hears_in_order (room_of s')" for ms s out quit s' out' quit'
  proof (induction ms arbitrary: s out quit)
    case (Cons m ms)
    then obtain s1 out1 quit1 where m: "processMessage ord n m (s, out, quit) = Inr (s1, out1, quit1)"
      "processLoop ord n ms (s1, out1, quit1) = Inr (s', out', quit')" by (auto simp: bindR_iffs)
    show ?case
      using Cons.IH [OF m(2) processMessage_inv [OF m(1) Cons.prems(2)]]
        hears_in_order_message [OF m(1) seated_inv [OF Cons.prems(2)] Cons.prems(3)] .
  qed simp
  have inv: "server_inv ?s1"
    using server_inv_receive [OF server_inv_update [OF assms(1,4)]] by (simp add: server_receive_def)
  have "hears_in_order (room_of ?s1)" using hears_in_order_poll [OF assms(1,3,4,6)] .
  moreover obtain mr s3 where r: "processMessages ord n (reads events) ?s1 = Inr (mr, s3)"
    "s' = server_send (buildOutgoing (mr_result mr) (app s3)) s3"
    using runIteration_received [OF assms(2,5)] by blast
  moreover have "server_inv s3" using processMessages_inv [OF r(1) inv] .
  ultimately show ?thesis
    using loop inv by (auto simp: processMessages_def bindR_iffs room_of_send hears_in_order_tell)
qed

lemma hears_in_order_served:
  "served ord n g s stop \<Longrightarrow> clients g = [] \<Longrightarrow> users g = [] \<Longrightarrow> hears_in_order (room_of s)"
proof (induction rule: served.induct)
  case serve_start
  then show ?case by (simp add: hears_in_order_def room_of_def mkServer_def)
next
  case (serve_poll s events err stop s')
  note s = served_inv [OF serve_poll(1,5,6)]
  have inv: "server_inv s" "incoming s = []" using s by simp_all
  show ?case
    using hears_in_order_iteration [OF inv served_quiet [OF serve_poll(1)] serve_poll(2,3) serve_poll.IH [OF serve_poll(5,6)]] .
qed

text \<open>
  C7. Nobody who is connected misses an answer that a later arrival gets, and nobody gets one from before his
  arrival: between two iterations of the main loop, of any two users the one who came first has been sent
  everything the other has, in the same order, after what he was sent before the other came.
\<close>

theorem earlier_users_hear_more:
  assumes "served ord n g s stop" "clients g = []" "users g = []" "i < j" "j < length (users (app s))"
  shows "suffix (sent_down (conn_id (userConnection (users (app s) ! j))) s)
    (sent_down (conn_id (userConnection (users (app s) ! i))) s)"
  using hears_in_order_served [OF assms(1-3)] assms(4,5)
  by (auto simp: hears_in_order_users sorted_wrt_iff_nth_less)

theorem earlier_users_hear_more_witness:
  "\<exists>s t. served id 0 game_server s False \<and> length (users (app s)) = 2 \<and>
     sent_down 9 s = [t] \<and> sent_down 5 s = [''5> hi'' @ nl, t] \<and> suffix (sent_down 9 s) (sent_down 5 s)"
proof -
  have "bindR (run id 0 two_talk (mkServer game_server)) (\<lambda>(stop, s). Inr (stop, room_of s)) =
      Inr (False, two_talk_end)"
    using run_room [OF serve_start _ _ two_talk_enabled two_talk_storable refl]
    by (simp add: two_talk_start two_talk_room)
  then obtain s where s: "run id 0 two_talk (mkServer game_server) = Inr (False, s)" "room_of s = two_talk_end"
    by (auto simp: bindR_iffs)
  note served = run_served [OF s(1) two_talk_enabled serve_start]
  obtain u v t where u: "users (app s) = [u, v]" "conn_id (userConnection u) = 5" "conn_id (userConnection v) = 9"
    "sent_down 5 s = [''5> hi'' @ nl, t]" "sent_down 9 s = [t]"
    using two_talk_seats [OF s(2)] by blast
  have "suffix (sent_down 9 s) (sent_down 5 s)"
    using earlier_users_hear_more [OF served, of 0 1] u by simp
  with served u show ?thesis by auto
qed

end
