(* ===== verification/Lobby_Party.thy ===== *)
theory Lobby_Party
  imports Game_Room
begin

text \<open>
  A game server and any number of lobbies that join and leave it, as one system: iterations of all their
  main loops, in any order, until the loops end. Seen by one lobby it is the system of \<open>Lobby_Session\<close>, and seen by the server
  the room of \<open>Game_Room\<close>; together they relate what different terminals display. The server may have
  clients that are no lobbies, of which nothing is assumed. The object of a lobby's channel is not released while
  the lobby is there, and nothing is promised to a lobby that has misused its stream.
\<close>

section \<open>The system\<close>

text \<open>Lobbies by the address of their channel, with the histories of \<open>Lobby_Session\<close> for each.\<close>

record Party =
  hall :: "GameServer ServerImpl"
  hall_ended :: bool
  lobbies :: "uintptr \<Rightarrow> Lobby option"
  threw_at :: "uintptr \<Rightarrow> string option"
  heard_from :: "uintptr \<Rightarrow> string list"
  answered_to :: "uintptr \<Rightarrow> string list"

text \<open>A lobby is there from the moment the server has made its channel to the end of its program.\<close>

inductive party_step :: "(string list \<Rightarrow> string list) \<Rightarrow> nat \<Rightarrow> Party \<Rightarrow> Party \<Rightarrow> bool"
  for ord n where
  hall_iterates:
    "\<not> hall_ended y \<Longrightarrow> enabled_all game_handlers events (hall y) \<Longrightarrow>
     \<forall>p\<in>dom (lobbies y). poll_for p events (heard_from y p) (lobby_client (the (lobbies y p))) \<Longrightarrow>
     runIteration ord n events err (hall y) = Inr (stop, s') \<Longrightarrow>
     party_step ord n y
       (y\<lparr>hall := s', hall_ended := stop, heard_from := \<lambda>p. heard_from y p @ texts_from p events,
          answered_to := \<lambda>p. answered_to y p @ iteration_answer ord n p events (hall y)\<rparr>)"
| hall_fails:
    "\<not> hall_ended y \<Longrightarrow> enabled_all game_handlers events (hall y) \<Longrightarrow>
     \<forall>p\<in>dom (lobbies y). poll_for p events (heard_from y p) (lobby_client (the (lobbies y p))) \<Longrightarrow>
     runIteration ord n events err (hall y) = Inl e \<Longrightarrow>
     party_step ord n y
       (y\<lparr>hall := (server_update game_handlers events (hall y))\<lparr>incoming := []\<rparr>, hall_ended := True,
          heard_from := \<lambda>p. heard_from y p @ texts_from p events\<rparr>)"
| lobby_iterates:
    "lobbies y p = Some l \<Longrightarrow> lobby_running l (threw_at y p) \<Longrightarrow> client_enabled_all events (lobby_client l) \<Longrightarrow>
     poll_of p events (hall y) (lobby_client l) \<Longrightarrow>
     joinIteration (events, exn, entry) l = (stop, l') \<Longrightarrow>
     party_step ord n y (y\<lparr>lobbies := (lobbies y)(p \<mapsto> l'), threw_at := (threw_at y)(p := exn)\<rparr>)"
| lobby_joins:
    "lobbies y p = None \<Longrightarrow> heap (hall y) p = Some (mkChannel\<lparr>ch_accepting := True\<rparr>) \<Longrightarrow> \<not> hall_ended y \<Longrightarrow>
     party_step ord n y
       (y\<lparr>lobbies := (lobbies y)(p \<mapsto> \<lparr>lobby_client = mkClient, isExitCommandReceived = False, displayed = []\<rparr>),
          threw_at := (threw_at y)(p := None),
          heard_from := (heard_from y)(p := []), answered_to := (answered_to y)(p := [])\<rparr>)"
| lobby_leaves: "party_step ord n y (y\<lparr>lobbies := (lobbies y)(p := None)\<rparr>)"

definition party_start :: "GameServer \<Rightarrow> Party \<Rightarrow> bool" where
  "party_start g y \<longleftrightarrow>
     hall y = mkServer g \<and> \<not> hall_ended y \<and> lobbies y = Map.empty \<and> clients g = [] \<and> users g = []"

text \<open>The system of the server and one lobby; what the lobby's user typed is what the lobby was asked to send.\<close>

definition seen_by :: "uintptr \<Rightarrow> Party \<Rightarrow> System" where
  "seen_by p y =
     \<lparr>host = hall y, host_ended = hall_ended y, guest = the (lobbies y p), threw = threw_at y p,
      typed = cl_sent (lobby_client (the (lobbies y p))), heard = heard_from y p, answered = answered_to y p\<rparr>"

abbreviation proper_lobby :: "uintptr \<Rightarrow> Party \<Rightarrow> bool" where
  "proper_lobby p y \<equiv> \<not> cl_misused (lobby_client (the (lobbies y p)))"

section \<open>Invariant\<close>

definition party_inv :: "GameServer \<Rightarrow> Party \<Rightarrow> bool" where
  "party_inv g y \<longleftrightarrow>
     net_reachable game_handlers g (hall y) \<and> server_inv (hall y) \<and> incoming (hall y) = [] \<and>
     hears_in_order (room_of (hall y)) \<and>
     (\<forall>p\<in>dom (lobbies y). proper_lobby p y \<longrightarrow> system_inv g p (seen_by p y))"

lemma party_inv_start: "party_start g y \<Longrightarrow> party_inv g y"
  by (auto simp: party_start_def party_inv_def hears_in_order_def room_of_def server_inv_initial
      intro: net_reachable.start) (simp_all add: mkServer_def)

text \<open>A step of the party that is one of the system that a lobby sees.\<close>

lemma party_inv_seen:
  assumes "party_inv g y" "p \<in> dom (lobbies y)" "proper_lobby p y'" "system_step ord n p (seen_by p y) (seen_by p y')"
  shows "system_inv g p (seen_by p y')"
proof -
  have "proper_lobby p y" using system_misused_before [OF assms(4)] assms(3) by (simp add: seen_by_def)
  then have "system_inv g p (seen_by p y)" using assms(1,2) by (simp add: party_inv_def)
  from system_step_refines [OF this assms(4)] assms(3) show ?thesis by (simp add: seen_by_def)
qed

lemma party_inv_lobby:
  "party_inv g y \<Longrightarrow> lobbies y p = Some l \<Longrightarrow> \<not> cl_misused (lobby_client l) \<Longrightarrow> system_inv g p (seen_by p y)"
  unfolding party_inv_def by (metis domI option.sel)

text \<open>A step of one lobby changes nothing that the others see.\<close>

lemma party_inv_at:
  assumes "party_inv g y" "hall y' = hall y" "lobbies y' = (lobbies y)(p := l)"
    and "\<And>q. q \<noteq> p \<Longrightarrow> seen_by q y' = seen_by q y"
    and "l \<noteq> None \<Longrightarrow> proper_lobby p y' \<Longrightarrow> system_inv g p (seen_by p y')"
  shows "party_inv g y'"
proof -
  have "system_inv g q (seen_by q y')" if q: "q \<in> dom (lobbies y')" "proper_lobby q y'" for q
  proof (cases "q = p")
    case True
    then show ?thesis using assms(3,5) q by (simp split: if_splits)
  next
    case False
    then have "proper_lobby q y" "q \<in> dom (lobbies y)" using q assms(3) by (simp_all split: if_splits)
    then show ?thesis using assms(1) assms(4) [OF False] by (simp add: party_inv_def)
  qed
  then show ?thesis using assms(1,2) by (simp add: party_inv_def)
qed

lemma party_inv_step:
  assumes "party_step ord n y y'" "party_inv g y"
  shows "party_inv g y'"
  using assms(1)
proof cases
  case (hall_iterates events err stop s')
  note inv = assms(2) [unfolded party_inv_def]
  have "system_inv g p (seen_by p y')" if p: "p \<in> dom (lobbies y)" "proper_lobby p y'" for p
    using party_inv_seen [OF assms(2) p, of ord n] hall_iterates p
      system_step.host_iterates [where y = "seen_by p y" and events = events and err = err and p = p and s' = s'
        and stop = stop and ord = ord and n = n]
    by (simp add: seen_by_def)
  moreover have "net_reachable game_handlers g s'"
    using runIteration_reachable [OF hall_iterates(5) _ hall_iterates(3)] inv by blast
  moreover have "server_inv s'" "incoming s' = []"
    using runIteration_inv [OF hall_iterates(5) _ hall_iterates(3)] runIteration_received [OF _ hall_iterates(5)] inv
    by blast+
  moreover have "hears_in_order (room_of s')"
    using hears_in_order_iteration [OF _ _ _ hall_iterates(3,5)] net_reachable_quiet [of game_handlers g "hall y"] inv by simp
  ultimately show ?thesis by (simp add: party_inv_def hall_iterates(1))
next
  case (hall_fails events err e)
  note inv = assms(2) [unfolded party_inv_def]
  let ?s = "server_update game_handlers events (hall y)"
  have "system_inv g p (seen_by p y')" if p: "p \<in> dom (lobbies y)" "proper_lobby p y'" for p
    using party_inv_seen [OF assms(2) p, of ord n] hall_fails p
      system_step.host_fails [where y = "seen_by p y" and events = events and err = err and p = p and e = e
        and ord = ord and n = n]
    by (simp add: seen_by_def)
  moreover have "net_reachable game_handlers g (snd (server_receive ?s))"
    using net_reachable.step [OF net_reachable_update [OF _ hall_fails(3)] net_step.receiving] inv by blast
  moreover have "server_inv (snd (server_receive ?s))"
    using server_inv_receive [OF server_inv_update [OF _ hall_fails(3)]] inv by blast
  moreover have "hears_in_order (room_of (?s\<lparr>incoming := []\<rparr>))"
    using hears_in_order_poll [OF _ _ hall_fails(3)] net_reachable_quiet [of game_handlers g "hall y"] inv by simp
  ultimately show ?thesis by (simp add: party_inv_def hall_fails(1) server_receive_def)
next
  case (lobby_iterates p l events exn entry stop l')
  have sent: "cl_sent (lobby_client l') = cl_sent (lobby_client l) @ (if stop then [] else entered entry)"
    using joinIteration_effect(2) [OF lobby_iterates(6)] .
  have "system_step ord n p (seen_by p y) (seen_by p y')"
    using system_step.guest_iterates [where y = "seen_by p y" and events = events and exn = exn and entry = entry
        and p = p and stop = stop and l' = l' and ord = ord and n = n] lobby_iterates sent
    by (simp add: seen_by_def)
  then have "system_inv g p (seen_by p y')" if "proper_lobby p y'"
    using party_inv_seen [OF assms(2) _ that] lobby_iterates(2) by blast
  then show ?thesis
    by (intro party_inv_at [OF assms(2), where p = p and l = "Some l'"]) (simp_all add: lobby_iterates(1) seen_by_def)
next
  case (lobby_joins p)
  have "system_init g p (seen_by p y')"
    using assms(2) lobby_joins
    by (simp add: system_init_def link_init_def link_of_def seen_by_def party_inv_def) (simp add: mkClient_def)
  then have "system_inv g p (seen_by p y')" using system_init_inv by blast
  then show ?thesis
    by (intro party_inv_at [OF assms(2), where p = p
          and l = "Some \<lparr>lobby_client = mkClient, isExitCommandReceived = False, displayed = []\<rparr>"])
       (simp_all add: lobby_joins(1) seen_by_def)
next
  case (lobby_leaves p)
  then show ?thesis
    by (intro party_inv_at [OF assms(2), where p = p and l = None]) (simp_all add: seen_by_def)
qed

lemma party_reached: "party_start g y0 \<Longrightarrow> (party_step ord n)\<^sup>*\<^sup>* y0 y \<Longrightarrow> party_inv g y"
  by (rotate_tac, induction rule: rtranclp_induct) (auto intro: party_inv_start party_inv_step)

section \<open>Simple iterations\<close>

lemma server_send_empty: "list_all (\<lambda>m. msg_text m = []) ms \<Longrightarrow> server_send ms s = s"
proof (induction ms arbitrary: s)
  case (Cons m ms)
  have "at_channel p (channel_send []) s = s" for p
    by (simp add: at_channel_def channel_send_def map_option_case fun_upd_idem_iff split: option.split)
  with Cons show ?case by (simp split: option.split)
qed simp

text \<open>A poll that reads nothing, and a poll that reads one line of chat.\<close>

lemma silent_poll:
  assumes "reads es = []" "incoming s = []"
  shows "runIteration ord n es False s = Inr (False, server_update game_handlers es s)"
    "iteration_answer ord n p es s = []"
proof -
  have inc: "incoming (server_update game_handlers es s) = []" using assms by (simp add: incoming_server_update)
  then have same: "(server_update game_handlers es s)\<lparr>incoming := []\<rparr> = server_update game_handlers es s" by simp
  have send: "server_send (buildOutgoing [] g) s' = s'" for g s'
    by (rule server_send_empty) (simp add: buildOutgoing_def list_all_iff)
  show "runIteration ord n es False s = Inr (False, server_update game_handlers es s)"
    by (simp add: runIteration_def server_receive_def processMessages_def Let_def inc same send)
  show "iteration_answer ord n p es s = []" using assms(1) by (simp add: iteration_answer_def processMessages_def)
qed

lemma chat_poll:
  assumes "reads es = [\<lparr>msg_connection = c, msg_text = t\<rparr>]" "incoming s = []"
    and "t \<noteq> []" "hd t \<noteq> CHR ''/''" "t \<noteq> ''quit''" "t \<noteq> ''shutdown''"
    and s1: "s1 = (server_update game_handlers es s)\<lparr>incoming := []\<rparr>"
    and line: "line = getUserNickname (conn_id c) (users (app s1)) @ ''> '' @ t @ nl"
  shows "runIteration ord n es False s = Inr (False, server_send (buildOutgoing line (app s1)) s1)"
    "iteration_answer ord n p es s = (if um_contains (channels s1) (Connection p) then [line] else [])"
proof -
  have inc: "incoming (server_update game_handlers es s) = reads es" using assms(2) by (simp add: incoming_server_update)
  have m: "processMessage ord n \<lparr>msg_connection = c, msg_text = t\<rparr> (s1, [], False) = Inr (s1, line, False)"
    using assms(3-6) by (subst processMessage_chat) (simp_all add: line)
  then have r: "processMessages ord n (reads es) s1 = Inr (\<lparr>mr_result = line, shouldShutdown = False\<rparr>, s1)"
    by (simp add: processMessages_def assms(1))
  then show "runIteration ord n es False s = Inr (False, server_send (buildOutgoing line (app s1)) s1)"
    using inc by (simp add: runIteration_def server_receive_def Let_def flip: s1)
  have "line \<noteq> []" by (simp add: line)
  then show "iteration_answer ord n p es s = (if um_contains (channels s1) (Connection p) then [line] else [])"
    using r by (simp add: iteration_answer_def flip: s1)
qed

section \<open>Properties\<close>

text \<open>
  C15. What the terminals show fits together: in every interleaving of the loops up to their ends, of two lobbies
  that are users of the server and have not misused their streams, the later has been answered the end of what
  the earlier has been answered; each displays the beginning of its answers, as one text, and after it only
  the notice of the exception that has ended its loop, if one has; and so whatever answers the later one has
  displayed are in one piece in what the earlier one displays or has yet to display. The objects of the lobbies'
  channels are taken to live as long as the lobbies.
\<close>

theorem lobbies_agree:
  assumes "party_start g y0" "(party_step ord n)\<^sup>*\<^sup>* y0 y" "lobbies y p = Some a" "lobbies y q = Some b"
    and "i < j" "map (conn_id \<circ> userConnection) (users (app (hall y))) = us" "j < length us" "us ! i = p" "us ! j = q"
    and "\<not> cl_misused (lobby_client a)" "\<not> cl_misused (lobby_client b)"
  shows "suffix (answered_to y q) (answered_to y p) \<and>
    (\<exists>as bs. displayed a = as @ failure_notice (threw_at y p) \<and> prefix (concat as) (concat (answered_to y p)) \<and>
       displayed b = bs @ failure_notice (threw_at y q) \<and> prefix (concat bs) (concat (answered_to y q)) \<and>
       sublist (concat bs) (concat (answered_to y p)))"
proof -
  note reached = party_reached [OF assms(1,2)]
  note inv = reached [unfolded party_inv_def]
  have s: "system_inv g p (seen_by p y)" "system_inv g q (seen_by q y)"
    using party_inv_lobby [OF reached] assms(3,4,10,11) by simp_all
  obtain as bs where shown:
    "displayed a = as @ failure_notice (threw_at y p)" "prefix (concat as) (concat (answered_to y p))"
    "displayed b = bs @ failure_notice (threw_at y q)" "prefix (concat bs) (concat (answered_to y q))"
    using system_inv_shows [OF s(1)] system_inv_shows [OF s(2)] assms(3,4) by (auto simp: seen_by_def)
  have sent: "sent_down p (hall y) = answered_to y p" "sent_down q (hall y) = answered_to y q"
    using system_inv_shows [OF s(1)] system_inv_shows [OF s(2)] by (simp_all add: seen_by_def)
  have "suffix (sent_down q (hall y)) (sent_down p (hall y))"
    using inv assms(5-9) by (auto simp: hears_in_order_users sorted_wrt_iff_nth_less)
  then have suffix: "suffix (answered_to y q) (answered_to y p)" using sent by simp
  then obtain zs where "answered_to y p = zs @ answered_to y q" by (auto simp: suffix_def)
  moreover obtain t where "concat (answered_to y q) = concat bs @ t" using shown(4) by (auto elim: prefixE)
  ultimately have "concat (answered_to y p) = concat zs @ concat bs @ t" by simp
  then have "sublist (concat bs) (concat (answered_to y p))" unfolding sublist_def by blast
  with suffix shown show ?thesis by blast
qed

text \<open>
  A lobby at address 5 says \<open>hi\<close>; another comes at address 9 and says \<open>yes\<close>; the second has displayed the
  answer to its own word, the first has not been shown anything yet.
\<close>

definition fresh_lobby :: Lobby where
  "fresh_lobby = \<lparr>lobby_client = mkClient, isExitCommandReceived = False, displayed = []\<rparr>"

definition speaks :: "string \<Rightarrow> Lobby" where
  "speaks t = snd (joinIteration ([Connected True, Handshaken True], None, Some t) fresh_lobby)"

definition poll_to :: "net_event list \<Rightarrow> GameServer ServerImpl \<Rightarrow> Party \<Rightarrow> Party" where
  "poll_to es s' y = y\<lparr>hall := s', hall_ended := False, heard_from := \<lambda>p. heard_from y p @ texts_from p es,
     answered_to := \<lambda>p. answered_to y p @ iteration_answer id 0 p es (hall y)\<rparr>"

definition join_at :: "uintptr \<Rightarrow> Party \<Rightarrow> Party" where
  "join_at p y = y\<lparr>lobbies := (lobbies y)(p \<mapsto> fresh_lobby), threw_at := (threw_at y)(p := None), heard_from := (heard_from y)(p := []),
     answered_to := (answered_to y)(p := [])\<rparr>"

definition lobby_to :: "uintptr \<Rightarrow> Lobby \<Rightarrow> Party \<Rightarrow> Party" where
  "lobby_to p l y = y\<lparr>lobbies := (lobbies y)(p \<mapsto> l), threw_at := (threw_at y)(p := None)\<rparr>"

lemmas party_to = poll_to_def join_at_def lobby_to_def

definition nine_there :: "GameServer ServerImpl" where
  "nine_there = complete game_handlers (Upgrade 9) hi_told"

definition yes_heard :: "GameServer ServerImpl" where
  "yes_heard = (server_update game_handlers [Accepted 9 True, Read 9 (Some ''yes'')] nine_there)\<lparr>incoming := []\<rparr>"

definition yes_told :: "GameServer ServerImpl" where
  "yes_told = server_send (buildOutgoing (''9> yes'' @ nl) (app yes_heard)) yes_heard"

lemma speaks_fields:
  "t \<noteq> [] \<Longrightarrow> t \<noteq> ''exit'' \<Longrightarrow> t \<noteq> ''quit'' \<Longrightarrow>
     cl_sent (lobby_client (speaks t)) = [t] \<and> cl_reading (lobby_client (speaks t)) \<and>
     cl_received (lobby_client (speaks t)) = [] \<and> incomingMessage (lobby_client (speaks t)) = [] \<and>
     displayed (speaks t) = [] \<and> lobby_running (speaks t) None \<and> \<not> cl_misused (lobby_client (speaks t)) \<and>
     up_wire (lobby_client (speaks t)) = [t]"
  by (simp add: lobby_running_def write_allowed_def up_wire_def buffer_text_def speaks_def fresh_lobby_def mkClient_def joinIteration_def client_receive_def onTextEntry_def
      client_send_def)

lemma hi_told_fields:
  "channels hi_told = [(Connection 5, 5)]" "incoming hi_told = []" "clients (app hi_told) = [Connection 5]"
  "users (app hi_told) = [\<lparr>nickname = ''5'', userConnection = Connection 5\<rparr>]"
  "heap hi_told = [5 \<mapsto> channel_send (''5> hi'' @ nl) (mkChannel\<lparr>ch_reading := True\<rparr>)]"
  by (simp_all add: hi_told_def one_client_fields buildOutgoing_def at_channel_def fun_eq_iff)

lemma nine_there_fields:
  "channels nine_there = [(Connection 5, 5)]" "incoming nine_there = []" "clients (app nine_there) = [Connection 5]"
  "users (app nine_there) = [\<lparr>nickname = ''5'', userConnection = Connection 5\<rparr>]"
  "heap nine_there 9 = Some (mkChannel\<lparr>ch_accepting := True\<rparr>)"
  "heap nine_there 5 = Some (channel_send (''5> hi'' @ nl) (mkChannel\<lparr>ch_reading := True\<rparr>))"
  by (simp_all add: nine_there_def hi_told_fields)

lemma yes_heard_fields:
  "channels yes_heard = [(Connection 5, 5), (Connection 9, 9)]" "incoming yes_heard = []"
  "users (app yes_heard) =
     [\<lparr>nickname = ''5'', userConnection = Connection 5\<rparr>, \<lparr>nickname = ''9'', userConnection = Connection 9\<rparr>]"
  "clients (app yes_heard) = [Connection 5, Connection 9]"
  "heap yes_heard 9 = Some (mkChannel\<lparr>ch_reading := True\<rparr>)"
proof -
  have "to_string 9 = ''9''" by code_simp
  moreover have "Connection 9 \<notin> (\<lambda>a. Connection 5) ` X" for X by auto
  ultimately show "channels yes_heard = [(Connection 5, 5), (Connection 9, 9)]" "incoming yes_heard = []"
    "users (app yes_heard) =
       [\<lparr>nickname = ''5'', userConnection = Connection 5\<rparr>, \<lparr>nickname = ''9'', userConnection = Connection 9\<rparr>]"
    "clients (app yes_heard) = [Connection 5, Connection 9]"
    "heap yes_heard 9 = Some (mkChannel\<lparr>ch_reading := True\<rparr>)"
    by (simp_all add: yes_heard_def nine_there_fields Let_def registerChannel_def mkChannel_def um_insert_def um_erase_def
        um_contains_def game_handlers_def onConnect_def mkUser_def)
qed

lemma poll_step:
  assumes "\<not> hall_ended y" "enabled_all game_handlers es (hall y)" "runIteration id 0 es False (hall y) = Inr (False, s')"
    and "\<And>p l. lobbies y p = Some l \<Longrightarrow> poll_for p es (heard_from y p) (lobby_client l)"
  shows "party_step id 0 y (poll_to es s' y)"
  unfolding poll_to_def by (rule hall_iterates [OF assms(1,2) _ assms(3)]) (use assms(4) in auto)

lemma join_step:
  "lobbies y p = None \<Longrightarrow> heap (hall y) p = Some (mkChannel\<lparr>ch_accepting := True\<rparr>) \<Longrightarrow> \<not> hall_ended y \<Longrightarrow>
   party_step id 0 y (join_at p y)"
  unfolding join_at_def fresh_lobby_def by (rule lobby_joins)

lemma lobby_step:
  assumes "lobbies y p = Some l" "lobby_running l (threw_at y p)" "client_enabled_all es (lobby_client l)"
    and "poll_of p es (hall y) (lobby_client l)"
  shows "party_step id 0 y (lobby_to p (snd (joinIteration (es, None, entry) l)) y)"
proof -
  obtain stop where "joinIteration (es, None, entry) l = (stop, snd (joinIteration (es, None, entry) l))"
    by (metis prod.collapse)
  from lobby_iterates [OF assms this] show ?thesis by (simp add: lobby_to_def)
qed

lemma speak_step:
  assumes "lobbies y p = Some fresh_lobby" "threw_at y p = None"
  shows "party_step id 0 y (lobby_to p (speaks t) y)"
  unfolding speaks_def
  by (rule lobby_step) (use assms in \<open>simp_all add: fresh_lobby_def mkClient_def lobby_running_def poll_of_def\<close>)

text \<open>The states of the server in order, each with the poll that leads to the next.\<close>

definition five_there :: "GameServer ServerImpl" where
  "five_there = complete game_handlers (Upgrade 5) (mkServer game_server)"

lemma five_there_fields: "incoming five_there = []" "heap five_there = [5 \<mapsto> mkChannel\<lparr>ch_accepting := True\<rparr>]"
  by (simp_all add: five_there_def mkServer_def)

lemma party_polls:
  "runIteration id 0 [Upgrade 5] False (mkServer game_server) = Inr (False, five_there)"
  "runIteration id 0 [Accepted 5 True] False five_there = Inr (False, one_client)"
  "runIteration id 0 [Upgrade 9] False hi_told = Inr (False, nine_there)"
  "runIteration id 0 [Accepted 9 True, Read 9 (Some ''yes'')] False nine_there = Inr (False, yes_told)"
  "iteration_answer id 0 5 [Accepted 5 True] five_there = []"
  "iteration_answer id 0 5 [Read 5 (Some ''hi'')] one_client = [''5> hi'' @ nl]"
  "iteration_answer id 0 5 [Upgrade 9] hi_told = []"
  "iteration_answer id 0 5 [Accepted 9 True, Read 9 (Some ''yes'')] nine_there = [''9> yes'' @ nl]"
  "iteration_answer id 0 9 [Accepted 9 True, Read 9 (Some ''yes'')] nine_there = [''9> yes'' @ nl]"
proof -
  have idle: "incoming (mkServer game_server) = []" "incoming five_there = []"
    by (simp_all add: mkServer_def five_there_fields)
  show "runIteration id 0 [Upgrade 5] False (mkServer game_server) = Inr (False, five_there)"
    using silent_poll(1) [OF _ idle(1), of "[Upgrade 5]"] by (simp add: five_there_def)
  show "runIteration id 0 [Accepted 5 True] False five_there = Inr (False, one_client)"
    using hello_joined by (simp add: before_hello_def five_there_def)
  show "runIteration id 0 [Upgrade 9] False hi_told = Inr (False, nine_there)"
    using silent_poll(1) [OF _ hi_told_fields(2), of "[Upgrade 9]"] by (simp add: nine_there_def)
  show "iteration_answer id 0 5 [Accepted 5 True] five_there = []"
    by (rule silent_poll(2)) (use idle(2) in simp_all)
  show "iteration_answer id 0 5 [Read 5 (Some ''hi'')] one_client = [''5> hi'' @ nl]" using hello_answered by blast
  show "iteration_answer id 0 5 [Upgrade 9] hi_told = []" by (rule silent_poll(2)) (use hi_told_fields(2) in simp_all)
  have line: "''9> yes'' @ nl = getUserNickname (conn_id (Connection 9)) (users (app yes_heard)) @ ''> '' @ ''yes'' @ nl"
    by (simp add: yes_heard_fields)
  have "reads [Accepted 9 True, Read 9 (Some ''yes'')] = [\<lparr>msg_connection = Connection 9, msg_text = ''yes''\<rparr>]" by simp
  note poll = chat_poll [OF this nine_there_fields(2) _ _ _ _ yes_heard_def line, of id 0]
  show "runIteration id 0 [Accepted 9 True, Read 9 (Some ''yes'')] False nine_there = Inr (False, yes_told)"
    using poll(1) by (simp add: yes_told_def)
  show "iteration_answer id 0 5 [Accepted 9 True, Read 9 (Some ''yes'')] nine_there = [''9> yes'' @ nl]"
    "iteration_answer id 0 9 [Accepted 9 True, Read 9 (Some ''yes'')] nine_there = [''9> yes'' @ nl]"
    using poll(2) by (simp_all add: yes_heard_fields um_contains_def)
qed

lemma yes_told_fields:
  "on_wire 9 yes_told = [''9> yes'' @ nl]" "map (conn_id \<circ> userConnection) (users (app yes_told)) = [5, 9]"
  by (simp_all add: yes_told_def on_wire_def buildOutgoing_def yes_heard_fields channel_send_def mkChannel_def)

definition empty_hall :: Party where
  "empty_hall =
     \<lparr>hall = mkServer game_server, hall_ended = False, lobbies = Map.empty, threw_at = \<lambda>p. None, heard_from = \<lambda>p. [], answered_to = \<lambda>p. []\<rparr>"

definition hi_said :: Party where
  "hi_said = poll_to [Read 5 (Some ''hi'')] hi_told (poll_to [Accepted 5 True] one_client
     (lobby_to 5 (speaks ''hi'') (join_at 5 (poll_to [Upgrade 5] five_there empty_hall))))"

lemma hi_said_fields:
  "hall hi_said = hi_told" "lobbies hi_said = [5 \<mapsto> speaks ''hi'']" "heard_from hi_said 5 = [''hi'']"
  "answered_to hi_said 5 = [''5> hi'' @ nl]" "\<not> hall_ended hi_said" "threw_at hi_said 5 = None"
  by (simp_all add: hi_said_def party_to empty_hall_def party_polls(5,6))

lemma hi_said_reached: "(party_step id 0)\<^sup>*\<^sup>* empty_hall hi_said"
proof -
  note hi = speaks_fields [of "''hi''", simplified]
  let ?y1 = "poll_to [Upgrade 5] five_there empty_hall"
  let ?y2 = "join_at 5 ?y1"
  let ?y3 = "lobby_to 5 (speaks ''hi'') ?y2"
  let ?y4 = "poll_to [Accepted 5 True] one_client ?y3"
  have "party_step id 0 empty_hall ?y1"
    by (rule poll_step) (use party_polls(1) in \<open>simp_all add: empty_hall_def mkServer_def\<close>)
  moreover have "party_step id 0 ?y1 ?y2" by (rule join_step) (simp_all add: party_to empty_hall_def five_there_fields)
  moreover have "party_step id 0 ?y2 ?y3" by (rule speak_step) (simp_all add: party_to)
  moreover have "party_step id 0 ?y3 ?y4"
    by (rule poll_step) (use party_polls(2) in \<open>auto simp: poll_for_def party_to empty_hall_def five_there_fields mkChannel_def split: if_splits\<close>)
  moreover have "party_step id 0 ?y4 hi_said"
    unfolding hi_said_def
    by (rule poll_step) (use hi_polled in \<open>auto simp: poll_for_def party_to empty_hall_def hi one_client_fields mkChannel_def split: if_splits\<close>)
  ultimately show ?thesis by (meson converse_rtranclp_into_rtranclp rtranclp.rtrancl_refl)
qed

definition yes_shown :: Party where
  "yes_shown =
     lobby_to 9 (snd (joinIteration ([ClientRead (Some (''9> yes'' @ nl))], None, None) (speaks ''yes'')))
       (poll_to [Accepted 9 True, Read 9 (Some ''yes'')] yes_told
         (lobby_to 9 (speaks ''yes'') (join_at 9 (poll_to [Upgrade 9] nine_there hi_said))))"

lemma yes_shown_fields:
  "\<exists>b. lobbies yes_shown 5 = Some (speaks ''hi'') \<and> lobbies yes_shown 9 = Some b \<and> displayed b = [''9> yes'' @ nl] \<and>
     \<not> cl_misused (lobby_client b)"
  "map (conn_id \<circ> userConnection) (users (app (hall yes_shown))) = [5, 9]"
  "answered_to yes_shown 5 = [''5> hi'' @ nl, ''9> yes'' @ nl]" "answered_to yes_shown 9 = [''9> yes'' @ nl]"
  using speaks_fields [of "''yes''"] yes_told_fields(2)
  by (simp_all add: yes_shown_def party_to hi_said_fields party_polls(7-9) joinIteration_def client_receive_def)

lemma yes_shown_reached: "(party_step id 0)\<^sup>*\<^sup>* empty_hall yes_shown"
proof -
  note yes = speaks_fields [of "''yes''", simplified]
  note hi = speaks_fields [of "''hi''", simplified]
  let ?y1 = "poll_to [Upgrade 9] nine_there hi_said"
  let ?y2 = "join_at 9 ?y1"
  let ?y3 = "lobby_to 9 (speaks ''yes'') ?y2"
  let ?y4 = "poll_to [Accepted 9 True, Read 9 (Some ''yes'')] yes_told ?y3"
  have "party_step id 0 hi_said ?y1"
    by (rule poll_step) (use party_polls(3) in \<open>auto simp: poll_for_def hi_said_fields hi_told_fields hi split: if_splits\<close>)
  moreover have "party_step id 0 ?y1 ?y2"
    by (rule join_step) (simp_all add: party_to hi_said_fields nine_there_fields)
  moreover have "party_step id 0 ?y2 ?y3" by (rule speak_step) (simp_all add: party_to)
  moreover have "party_step id 0 ?y3 ?y4"
  proof (rule poll_step)
    show "enabled_all game_handlers [Accepted 9 True, Read 9 (Some ''yes'')] (hall ?y3)"
      by (simp add: party_to nine_there_fields registerChannel_def mkChannel_def Let_def)
  qed (use party_polls(4) in \<open>auto simp: poll_for_def party_to hi_said_fields hi yes split: if_splits\<close>)
  moreover have "party_step id 0 ?y4 yes_shown"
  proof -
    show ?thesis
      unfolding yes_shown_def
      by (rule lobby_step) (use yes yes_told_fields(1) in \<open>simp_all add: party_to poll_of_def\<close>)
  qed
  ultimately have "(party_step id 0)\<^sup>*\<^sup>* hi_said yes_shown"
    by (meson converse_rtranclp_into_rtranclp rtranclp.rtrancl_refl)
  with hi_said_reached show ?thesis by simp
qed

theorem lobbies_agree_witness:
  "\<exists>y a b. (party_step id 0)\<^sup>*\<^sup>* empty_hall y \<and> lobbies y 5 = Some a \<and> lobbies y 9 = Some b \<and>
     displayed b = [''9> yes'' @ nl] \<and> answered_to y 5 = [''5> hi'' @ nl, ''9> yes'' @ nl] \<and>
     suffix (answered_to y 9) (answered_to y 5)"
proof -
  obtain b where b: "lobbies yes_shown 5 = Some (speaks ''hi'')" "lobbies yes_shown 9 = Some b"
    "displayed b = [''9> yes'' @ nl]" "\<not> cl_misused (lobby_client b)" using yes_shown_fields(1) by blast
  have "party_start game_server empty_hall" by (simp add: party_start_def empty_hall_def)
  from lobbies_agree [OF this yes_shown_reached b(1,2), of 0 1 "[5, 9]"] yes_shown_fields(2) b(4) speaks_fields [of "''hi''"]
  have "suffix (answered_to yes_shown 9) (answered_to yes_shown 5)" by simp
  with yes_shown_reached b yes_shown_fields(3) show ?thesis by blast
qed

end
