(* ===== verification/Link_Delivery.thy ===== *)
theory Link_Delivery
  imports Client_Server_Link
begin

text \<open>
  That texts arrive. \<open>Client_Server_Link\<close> says that nothing arrives that was not sent, in its order; here,
  that everything sent can arrive: as long as the channel is registered, and the client is open, reads and has
  not misused its stream, completions of operations that are outstanding are all it takes, so neither end ever
  waits for something that nobody has started.
\<close>

section \<open>Completions that deliver\<close>

text \<open>The operating system finishes a write of either end, or hands what was written to one of the two reads.\<close>

inductive delivery_step :: "'a ConnectionHandler \<Rightarrow> uintptr \<Rightarrow> 'a Link \<Rightarrow> 'a Link \<Rightarrow> bool"
  for H :: "'a ConnectionHandler" and p :: uintptr where
  write_done: "enabled (srv l) (Wrote p True) \<Longrightarrow>
    delivery_step H p l (l\<lparr>srv := complete H (Wrote p True) (srv l)\<rparr>)"
| up_write_done: "client_enabled (cli l) (ClientWrote k True) \<Longrightarrow>
    delivery_step H p l (l\<lparr>cli := client_complete (ClientWrote k True) (cli l)\<rparr>)"
| text_up: "enabled (srv l) (Read p (Some t)) \<Longrightarrow> prefix (up_read l @ [t]) (up_wire (cli l)) \<Longrightarrow>
    delivery_step H p l (l\<lparr>srv := complete H (Read p (Some t)) (srv l), up_read := up_read l @ [t]\<rparr>)"
| text_down: "client_enabled (cli l) (ClientRead (Some t)) \<Longrightarrow>
    prefix (cl_received (cli l) @ [t]) (on_wire p (srv l)) \<Longrightarrow>
    delivery_step H p l (l\<lparr>cli := client_complete (ClientRead (Some t)) (cli l)\<rparr>)"

lemma delivery_is_link_step: "delivery_step H p l l' \<Longrightarrow> link_step H p l l'"
proof (induction rule: delivery_step.induct)
  case (write_done l)
  then show ?case by (intro server_completes) (simp_all add: local_event_def)
next
  case (up_write_done l k)
  then show ?case by (intro client_completes) simp_all
qed (blast intro: server_reads client_reads)+

lemma delivery_link_steps: "(delivery_step H p)\<^sup>*\<^sup>* l l' \<Longrightarrow> (link_step H p)\<^sup>*\<^sup>* l l'"
  by (induction rule: rtranclp_induct) (auto intro: rtranclp.rtrancl_into_rtrancl delivery_is_link_step)

section \<open>Each direction\<close>

text \<open>The writes of a connected channel complete one after the other.\<close>

definition flushing :: "Channel \<Rightarrow> bool" where
  "flushing ch \<longleftrightarrow>
     ch_inFlight ch = take 1 (ch_writeBuffer ch) \<and> ch_sent ch = ch_written ch @ ch_writeBuffer ch \<and> ch_reading ch"

definition flushed :: "Channel \<Rightarrow> Channel" where
  "flushed ch = ch\<lparr>ch_writeBuffer := [], ch_inFlight := [], ch_written := ch_sent ch\<rparr>"

lemma flushing_wrote:
  "flushing ch \<Longrightarrow> ch_writeBuffer ch \<noteq> [] \<Longrightarrow> flushing (channel_wrote ch) \<and> flushed (channel_wrote ch) = flushed ch"
  by (cases "ch_writeBuffer ch"; cases "tl (ch_writeBuffer ch)")
     (auto simp: flushing_def flushed_def channel_wrote_def Let_def)

lemma flush_delivered:
  assumes "heap (srv l) p = Some ch" "flushing ch"
  shows "(delivery_step H p)\<^sup>*\<^sup>* l (l\<lparr>srv := (srv l)\<lparr>heap := (heap (srv l))(p \<mapsto> flushed ch)\<rparr>\<rparr>)"
  using assms
proof (induction "length (ch_writeBuffer ch)" arbitrary: l ch)
  case 0
  then have "flushed ch = ch" by (simp add: flushed_def flushing_def)
  with 0 show ?case by (simp add: fun_upd_idem)
next
  case (Suc n)
  let ?l = "l\<lparr>srv := complete H (Wrote p True) (srv l)\<rparr>"
  have ne: "ch_writeBuffer ch \<noteq> []" using Suc(2) by auto
  then have "ch_inFlight ch \<noteq> []" using Suc(4) by (simp add: flushing_def)
  then have "delivery_step H p l ?l" using Suc(3) by (intro write_done) simp
  moreover have h: "heap (srv ?l) p = Some (channel_wrote ch)" using Suc(3) by simp
  have "n = length (ch_writeBuffer (channel_wrote ch))"
    using Suc(2) by (cases "ch_writeBuffer ch") (auto simp: channel_wrote_def Let_def)
  from Suc(1) [OF this h] flushing_wrote [OF Suc(4) ne]
  have "(delivery_step H p)\<^sup>*\<^sup>* ?l (?l\<lparr>srv := (srv ?l)\<lparr>heap := (heap (srv ?l))(p \<mapsto> flushed ch)\<rparr>\<rparr>)" by simp
  moreover have "(srv ?l)\<lparr>heap := (heap (srv ?l))(p \<mapsto> flushed ch)\<rparr> = (srv l)\<lparr>heap := (heap (srv l))(p \<mapsto> flushed ch)\<rparr>"
    using Suc(3) by (simp add: at_channel_def)
  ultimately show ?case by (simp add: converse_rtranclp_into_rtranclp)
qed

text \<open>What is on the wire is read.\<close>

definition client_has_read :: "string list \<Rightarrow> ClientImpl \<Rightarrow> ClientImpl" where
  "client_has_read ts c = c\<lparr>incomingMessage := incomingMessage c @ concat ts, cl_received := cl_received c @ ts\<rparr>"

lemma texts_down:
  assumes "cl_reading (cli l)" "cl_received (cli l) @ ts = on_wire p (srv l)" "[] \<notin> set ts"
  shows "(delivery_step H p)\<^sup>*\<^sup>* l (l\<lparr>cli := client_has_read ts (cli l)\<rparr>)"
  using assms
proof (induction ts arbitrary: l)
  case (Cons t ts)
  let ?l = "l\<lparr>cli := client_has_read [t] (cli l)\<rparr>"
  have "client_complete (ClientRead (Some t)) (cli l) = client_has_read [t] (cli l)"
    using Cons.prems by (auto simp: client_has_read_def Let_def)
  moreover have "prefix (cl_received (cli l) @ [t]) (on_wire p (srv l))"
    using Cons.prems(2) by (metis append.assoc append_Cons append_Nil prefixI)
  ultimately have "delivery_step H p l ?l" using text_down [of l t p H] Cons.prems(1) by simp
  moreover have "(delivery_step H p)\<^sup>*\<^sup>* ?l (?l\<lparr>cli := client_has_read ts (cli ?l)\<rparr>)"
    by (rule Cons.IH) (use Cons.prems in \<open>simp_all add: client_has_read_def\<close>)
  moreover have "client_has_read ts (client_has_read [t] (cli l)) = client_has_read (t # ts) (cli l)"
    by (simp add: client_has_read_def)
  ultimately show ?case by (simp add: converse_rtranclp_into_rtranclp)
next
  case Nil
  then show ?case by (simp add: client_has_read_def flip: Nil.prems(2))
qed

text \<open>The client's write completes, if one is outstanding.\<close>

definition client_wrote :: "ClientImpl \<Rightarrow> ClientImpl" where
  "client_wrote c = c\<lparr>writeBuffer := [], cl_inFlight := [], cl_written := cl_sent c\<rparr>"

lemma up_wire_client_wrote [simp]: "up_wire (client_wrote c) = cl_sent c"
  by (simp add: up_wire_def client_wrote_def)

lemma write_delivered:
  assumes "writes_inv (cli l)" "\<not> cl_misused (cli l)" "\<not> isClosed (cli l)"
  shows "(delivery_step H p)\<^sup>*\<^sup>* l (l\<lparr>cli := client_wrote (cli l)\<rparr>)"
proof (cases "writeBuffer (cli l)")
  case Nil
  then have "client_wrote (cli l) = cli l" using assms by (simp add: writes_inv_def client_wrote_def)
  then show ?thesis by simp
next
  case (Cons b bs)
  obtain k t where b: "b = (k, t)" by fastforce
  have "cl_written (cli l) @ [t] = cl_sent (cli l)" "cl_inFlight (cli l) = [k]" "writeBuffer (cli l) = [(k, t)]"
    using assms Cons b by (auto simp: writes_inv_def)
  then have "client_complete (ClientWrote k True) (cli l) = client_wrote (cli l)"
    "client_enabled (cli l) (ClientWrote k True)"
    by (simp_all add: client_wrote_def buffer_text_def)
  then show ?thesis using up_write_done [of l k H p] by auto
qed

definition server_has_read :: "uintptr \<Rightarrow> string list \<Rightarrow> 'a ServerImpl \<Rightarrow> 'a ServerImpl" where
  "server_has_read p ts s =
     s\<lparr>incoming := incoming s @ map (\<lambda>t. \<lparr>msg_connection = Connection p, msg_text = t\<rparr>) ts\<rparr>"

lemma texts_up:
  assumes "heap (srv l) p = Some ch" "ch_reading ch" "up_read l @ ts = up_wire (cli l)"
  shows "(delivery_step H p)\<^sup>*\<^sup>* l (l\<lparr>srv := server_has_read p ts (srv l), up_read := up_read l @ ts\<rparr>)"
  using assms
proof (induction ts arbitrary: l)
  case (Cons t ts)
  let ?l = "l\<lparr>srv := server_has_read p [t] (srv l), up_read := up_read l @ [t]\<rparr>"
  have "complete H (Read p (Some t)) (srv l) = server_has_read p [t] (srv l)"
    using Cons.prems(1,2) by (simp add: server_has_read_def at_channel_def fun_upd_idem)
  moreover have "prefix (up_read l @ [t]) (up_wire (cli l))"
    using Cons.prems(3) by (metis append.assoc append_Cons append_Nil prefixI)
  ultimately have "delivery_step H p l ?l" using text_up [of l p t H] Cons.prems(1,2) by simp
  moreover have "(delivery_step H p)\<^sup>*\<^sup>* ?l (?l\<lparr>srv := server_has_read p ts (srv ?l), up_read := up_read ?l @ ts\<rparr>)"
    by (rule Cons.IH) (use Cons.prems in \<open>simp_all add: server_has_read_def\<close>)
  moreover have "server_has_read p ts (server_has_read p [t] (srv l)) = server_has_read p (t # ts) (srv l)"
    by (simp add: server_has_read_def)
  ultimately show ?case by (simp add: converse_rtranclp_into_rtranclp)
next
  case Nil
  then show ?case by (simp add: server_has_read_def flip: Nil.prems(3))
qed

section \<open>Properties\<close>

text \<open>
  C14. Nothing sent is stuck: from any state that a connection reaches, as long as its channel is registered and
  its client is open, reads and has not misused its stream, completions of outstanding operations lead to a state in
  which the client has received everything the channel was ever sent, the server has read everything the client
  ever sent, no write of the client is outstanding, the texts that were missing are in the server's queue of
  messages, after those that were there, and the client hands out the others; and nothing else is sent on the way.
\<close>

theorem everything_can_arrive:
  assumes "link_init H a p l0" "(link_step H p)\<^sup>*\<^sup>* l0 l"
    and "um_contains (channels (srv l)) (Connection p)" "cl_reading (cli l)" "\<not> isClosed (cli l)" "\<not> cl_misused (cli l)"
  shows "\<exists>l'. (delivery_step H p)\<^sup>*\<^sup>* l l' \<and> (link_step H p)\<^sup>*\<^sup>* l0 l' \<and>
    cl_received (cli l') = sent_down p (srv l) \<and> up_read l' = cl_sent (cli l) \<and>
    cl_written (cli l') = cl_sent (cli l) \<and> cl_inFlight (cli l') = [] \<and>
    cl_taken (cli l') @ incomingMessage (cli l') = concat (sent_down p (srv l)) \<and>
    incoming (srv l') = incoming (srv l) @
      map (\<lambda>t. \<lparr>msg_connection = Connection p, msg_text = t\<rparr>) (drop (length (up_read l)) (cl_sent (cli l))) \<and>
    sent_down p (srv l') = sent_down p (srv l) \<and> cl_sent (cli l') = cl_sent (cli l)"
proof -
  have inv: "link_inv H a p l" using link.reached [OF assms(1,2,6)] by simp
  then have net: "net_inv (srv l)" and d: "duplex_inv (duplex_of p l)" and c: "client_inv (cli l)" "writes_inv (cli l)"
    using net_reachable_inv by (auto simp: link_inv_def)
  obtain ch where ch: "heap (srv l) p = Some ch" using inv by (auto simp: link_inv_def)
  have "channel_inv True ch" using net_invD(3) [OF net ch] assms(3) by simp
  then have flushing: "flushing ch" by (auto simp: channel_inv_def flushing_def)
  let ?l1 = "l\<lparr>srv := (srv l)\<lparr>heap := (heap (srv l))(p \<mapsto> flushed ch)\<rparr>\<rparr>"
  note s1 = flush_delivered [OF ch flushing, of H]
  have wire: "on_wire p (srv ?l1) = sent_down p (srv l)" "sent_down p (srv ?l1) = sent_down p (srv l)"
    by (simp_all add: on_wire_def sent_down_def flushed_def ch)
  obtain ts where ts: "sent_down p (srv l) = cl_received (cli l) @ ts"
    using d by (auto simp: duplex_inv_def duplex_of_def prefix_def)
  have "[] \<notin> set ts" using d ts by (auto simp: duplex_inv_def duplex_of_def)
  note s2 = texts_down [of ?l1 ts p H, simplified, OF assms(4) _ this]
  let ?l2 = "?l1\<lparr>cli := client_has_read ts (cli l)\<rparr>"
  have "(delivery_step H p)\<^sup>*\<^sup>* ?l2 (?l2\<lparr>cli := client_wrote (cli ?l2)\<rparr>)"
    by (rule write_delivered) (use c(2) assms(5,6) in \<open>simp_all add: client_has_read_def writes_inv_def\<close>)
  then obtain c3 where c3: "c3 = client_wrote (client_has_read ts (cli l))" "(delivery_step H p)\<^sup>*\<^sup>* ?l2 (?l1\<lparr>cli := c3\<rparr>)"
    by simp
  let ?l3 = "?l1\<lparr>cli := c3\<rparr>"
  have up: "up_wire (cli ?l3) = cl_sent (cli l)" by (simp add: c3(1) client_has_read_def)
  obtain us where us: "cl_sent (cli l) = up_read l @ us"
    using d by (auto simp: duplex_inv_def duplex_of_def prefix_def)
  let ?l4 = "?l3\<lparr>srv := server_has_read p us (srv ?l3), up_read := up_read l @ us\<rparr>"
  have s3: "(delivery_step H p)\<^sup>*\<^sup>* ?l3 ?l4"
    using texts_up [of ?l3 p "flushed ch" us H] us flushing up by (simp add: flushed_def flushing_def)
  have "(delivery_step H p)\<^sup>*\<^sup>* l ?l2" using s1 s2 wire ts by auto
  then have steps: "(delivery_step H p)\<^sup>*\<^sup>* l ?l4" using c3(2) s3 by auto
  have "cl_received (cli ?l4) = sent_down p (srv l)" "up_read ?l4 = cl_sent (cli l)"
    "cl_written (cli ?l4) = cl_sent (cli l)" "cl_inFlight (cli ?l4) = []"
    "cl_taken (cli ?l4) @ incomingMessage (cli ?l4) = concat (sent_down p (srv l))"
    "incoming (srv ?l4) = incoming (srv l) @ map (\<lambda>t. \<lparr>msg_connection = Connection p, msg_text = t\<rparr>) us"
    "sent_down p (srv ?l4) = sent_down p (srv l)" "cl_sent (cli ?l4) = cl_sent (cli l)"
    "us = drop (length (up_read l)) (cl_sent (cli l))"
    using ts us c wire(2)
    by (simp_all add: c3(1) client_has_read_def client_wrote_def server_has_read_def client_inv_def sent_down_def)
  with steps rtranclp_trans [OF assms(2) delivery_link_steps [OF steps]] show ?thesis
    by (intro exI [of _ ?l4]) simp
qed

text \<open>The server has sent two texts, of which the client has read one, and the client has sent another.\<close>

definition link_both :: "unit Link" where
  "link_both = link_used\<lparr>cli := client_send ''hi'' (cli link_used)\<rparr>"

lemma link_both_reached: "(link_step silent_handlers 5)\<^sup>*\<^sup>* link_made link_both"
  unfolding link_both_def by (rule rtranclp.rtrancl_into_rtrancl [OF link_used_reached client_sends])

theorem everything_can_arrive_witness:
  "\<exists>l'. (delivery_step silent_handlers 5)\<^sup>*\<^sup>* link_both l' \<and> cl_received (cli link_both) = [''a''] \<and>
     cl_received (cli l') = [''a'', ''b''] \<and> cl_taken (cli l') @ incomingMessage (cli l') = ''ab'' \<and>
     up_read link_both = [] \<and> incoming (srv l') = [\<lparr>msg_connection = Connection 5, msg_text = ''hi''\<rparr>]"
proof -
  have c: "cli link_both = client_send ''hi'' (client_complete (ClientRead (Some ''a'')) connected_client)"
    "srv link_both = two_sent" "up_read link_both = []"
    by (simp_all add: link_both_def link_used_def)
  have "um_contains (channels (srv link_both)) (Connection 5)" "cl_reading (cli link_both)" "\<not> isClosed (cli link_both)"
    "\<not> cl_misused (cli link_both)" "cl_received (cli link_both) = [''a'']" "cl_sent (cli link_both) = [''hi'']"
    by (simp_all add: c two_sent_channel um_contains_def connected_client_def mkClient_def client_send_def write_allowed_def)
  moreover have "sent_down 5 two_sent = [''a'', ''b'']" using two_sent_channel(2) by (auto simp: sent_down_def)
  moreover have "incoming two_sent = []"
    by (simp only: two_sent_def incoming_server_send incoming_server_update) (simp add: mkServer_def)
  ultimately show ?thesis
    using everything_can_arrive [OF link_made_init link_both_reached] c(2,3) by fastforce
qed

end
