(* ===== verification/Lobby_Progress.thy ===== *)
theory Lobby_Progress
  imports Lobby_Party Link_Delivery
begin

text \<open>
  Progress of \<open>GameServer::run\<close> (\<open>src/src/GameServer/GameServer.cpp\<close>) and of the loops of
  \<open>executeJoinLobby\<close> (\<open>src/src/main.cpp\<close>) in its lobbies: as long as the loops have not ended, one iteration of
  each can bring what every registered lobby displays up to all the answers it was given. Once the server's loop has
  ended this is no longer so: what \<open>send\<close> has queued behind an outstanding write is never written.
\<close>

section \<open>Catching up\<close>

text \<open>One poll of the server can finish all writes of a channel, one poll of a lobby read all that is written.\<close>

lemma flush_poll:
  assumes "heap s p = Some ch" "flushing ch"
  shows "enabled_all H (replicate (length (ch_writeBuffer ch)) (Wrote p True)) s \<and>
    server_update H (replicate (length (ch_writeBuffer ch)) (Wrote p True)) s = s\<lparr>heap := (heap s)(p \<mapsto> flushed ch)\<rparr>"
  using assms
proof (induction "length (ch_writeBuffer ch)" arbitrary: s ch)
  case 0
  then have "flushed ch = ch" by (simp add: flushed_def flushing_def)
  with 0 show ?case by (simp add: fun_upd_idem)
next
  case (Suc n)
  have ne: "ch_writeBuffer ch \<noteq> []" using Suc(2) by auto
  then have en: "enabled s (Wrote p True)" using Suc(3,4) by (simp add: flushing_def)
  let ?s = "complete H (Wrote p True) s"
  have h: "heap ?s p = Some (channel_wrote ch)" using Suc(3) by simp
  have n: "n = length (ch_writeBuffer (channel_wrote ch))"
    using Suc(2) by (cases "ch_writeBuffer ch") (auto simp: channel_wrote_def Let_def)
  have "?s\<lparr>heap := (heap ?s)(p \<mapsto> flushed ch)\<rparr> = s\<lparr>heap := (heap s)(p \<mapsto> flushed ch)\<rparr>"
    using Suc(3) by (simp add: at_channel_def)
  then show ?case
    using Suc(1) [OF n h] flushing_wrote [OF Suc(4) ne] en n by (simp flip: Suc(2))
qed

lemma read_poll:
  "cl_reading c \<Longrightarrow> [] \<notin> set ts \<Longrightarrow>
   client_enabled_all (map (ClientRead \<circ> Some) ts) c \<and> client_update (map (ClientRead \<circ> Some) ts) c = client_has_read ts c \<and>
   client_texts (map (ClientRead \<circ> Some) ts) = ts"
proof (induction ts arbitrary: c)
  case (Cons t ts)
  have "client_complete (ClientRead (Some t)) c = client_has_read [t] c"
    using Cons.prems by (auto simp: client_has_read_def Let_def)
  moreover have "cl_reading (client_has_read [t] c)" using Cons.prems by (simp add: client_has_read_def)
  moreover have "client_has_read ts (client_has_read [t] c) = client_has_read (t # ts) c"
    by (simp add: client_has_read_def)
  ultimately show ?case using Cons.IH [of "client_has_read [t] c"] Cons.prems by simp
qed (simp add: client_has_read_def)

lemma reads_wrote: "reads (replicate k (Wrote p True)) = []" "texts_from q (replicate k (Wrote p True)) = []"
  by (induction k) simp_all

lemma read_iteration:
  assumes "joinIteration (map (ClientRead \<circ> Some) ts, None, None) l = (stop, l')" "cl_reading (lobby_client l)" "[] \<notin> set ts"
  shows "concat (displayed l') = concat (displayed l) @ incomingMessage (lobby_client l) @ concat ts"
  using assms(1) read_poll [OF assms(2,3)]
  by (auto simp: joinIteration_def client_receive_def client_has_read_def Let_def split: if_splits)

text \<open>A lobby that can be told something: its loop runs, its client reads, and it is registered.\<close>

definition listening :: "Party \<Rightarrow> uintptr \<Rightarrow> Lobby \<Rightarrow> bool" where
  "listening y p l \<longleftrightarrow>
     lobbies y p = Some l \<and> lobby_running l (threw_at y p) \<and> cl_reading (lobby_client l) \<and>
     \<not> cl_misused (lobby_client l) \<and> um_contains (channels (hall y)) (Connection p)"

text \<open>The server's iteration.\<close>

lemma hall_flushes:
  assumes "party_inv g y" "\<not> hall_ended y" "listening y p l"
  shows "\<exists>s. party_step ord n y (y\<lparr>hall := s\<rparr>) \<and> channels s = channels (hall y) \<and> on_wire p s = sent_down p (hall y)"
proof -
  note inv = assms(1) [unfolded party_inv_def]
  note l = assms(3) [unfolded listening_def]
  have net: "net_inv (hall y)" using inv by (simp add: server_inv_def)
  obtain ch where ch: "heap (hall y) p = Some ch" using net_invD(2) [OF net] l unfolding um_contains_iff by fastforce
  have fl: "flushing ch" using net_invD(3) [OF net ch] l by (auto simp: channel_inv_def flushing_def)
  let ?es = "replicate (length (ch_writeBuffer ch)) (Wrote p True)"
  note poll = flush_poll [OF ch fl, of game_handlers]
  let ?s = "server_update game_handlers ?es (hall y)"
  have idle: "incoming (hall y) = []" using inv by blast
  have for_all: "poll_for q ?es h c" for q h c by (simp add: poll_for_def list_all_iff reads_wrote(2))
  let ?y1 = "y\<lparr>hall := ?s, hall_ended := False, heard_from := \<lambda>q. heard_from y q @ texts_from q ?es,
    answered_to := \<lambda>q. answered_to y q @ iteration_answer ord n q ?es (hall y)\<rparr>"
  have "party_step ord n y ?y1"
    by (rule hall_iterates [OF assms(2) _ _ silent_poll(1) [OF reads_wrote(1) idle]]) (use poll for_all in auto)
  moreover have "?y1 = y\<lparr>hall := ?s\<rparr>" using assms(2) by (simp add: reads_wrote silent_poll(2) idle)
  ultimately have "party_step ord n y (y\<lparr>hall := ?s\<rparr>)" by simp
  moreover have "on_wire p ?s = sent_down p (hall y)" using poll by (simp add: on_wire_def sent_down_def flushed_def ch)
  moreover have "channels ?s = channels (hall y)" using poll by simp
  ultimately show ?thesis by blast
qed

text \<open>The lobby's.\<close>

lemma lobby_reads:
  assumes "party_inv g y" "listening y p l" "on_wire p (hall y) = sent_down p (hall y)"
  shows "\<exists>l'. party_step ord n y (y\<lparr>lobbies := (lobbies y)(p \<mapsto> l')\<rparr>) \<and> concat (displayed l') = concat (answered_to y p)"
proof -
  note l = assms(2) [unfolded listening_def]
  have threw: "threw_at y p = None" using l by (simp add: lobby_running_def)
  have sys: "system_inv g p (seen_by p y)" using party_inv_lobby [OF assms(1)] l by blast
  then have c: "client_inv (lobby_client l)" and d: "duplex_inv (duplex_of p (link_of (seen_by p y)))"
    and shown: "concat (displayed l) = cl_taken (lobby_client l)" and sent: "sent_down p (hall y) = answered_to y p"
    using l threw by (auto simp: system_inv_def link_inv_def link_of_def seen_by_def failure_notice_def)
  obtain ts where ts: "sent_down p (hall y) = cl_received (lobby_client l) @ ts" "[] \<notin> set ts"
    using d l by (auto simp: duplex_inv_def duplex_of_def link_of_def seen_by_def prefix_def)
  note read = read_poll [OF _ ts(2), of "lobby_client l"]
  obtain stop l' where l': "joinIteration (map (ClientRead \<circ> Some) ts, None, None) l = (stop, l')" by fastforce
  have "party_step ord n y (y\<lparr>lobbies := (lobbies y)(p \<mapsto> l'), threw_at := (threw_at y)(p := None)\<rparr>)"
    by (rule lobby_iterates [OF _ _ _ _ l']) (use l read assms(3) ts(1) in \<open>simp_all add: poll_of_def\<close>)
  moreover have "(threw_at y)(p := None) = threw_at y" using threw by auto
  ultimately have "party_step ord n y (y\<lparr>lobbies := (lobbies y)(p \<mapsto> l')\<rparr>)" by simp
  moreover have "concat (displayed l') = concat (answered_to y p)"
    using read_iteration [OF l' _ ts(2)] l shown c sent ts(1) by (simp add: client_inv_def flip: sent)
  ultimately show ?thesis by blast
qed

lemma lobby_catches_up:
  assumes "party_inv g y" "\<not> hall_ended y" "listening y p l"
  shows "\<exists>y' l'. (party_step ord n)\<^sup>*\<^sup>* y y' \<and> party_inv g y' \<and> \<not> hall_ended y' \<and>
    channels (hall y') = channels (hall y) \<and> threw_at y' = threw_at y \<and> answered_to y' = answered_to y \<and>
    lobbies y' = (lobbies y)(p \<mapsto> l') \<and> concat (displayed l') = concat (answered_to y p)"
proof -
  obtain s where s: "party_step ord n y (y\<lparr>hall := s\<rparr>)" "channels s = channels (hall y)"
    "on_wire p s = sent_down p (hall y)" using hall_flushes [OF assms] by blast
  have inv: "party_inv g (y\<lparr>hall := s\<rparr>)" using party_inv_step [OF s(1) assms(1)] .
  have "sent_down p s = answered_to y p" "sent_down p (hall y) = answered_to y p"
    using party_inv_lobby [OF inv, of p l] party_inv_lobby [OF assms(1), of p l] assms(3)
    by (simp_all add: listening_def system_inv_def seen_by_def)
  then obtain l' where l': "party_step ord n (y\<lparr>hall := s\<rparr>) (y\<lparr>hall := s, lobbies := (lobbies y)(p \<mapsto> l')\<rparr>)"
    "concat (displayed l') = concat (answered_to y p)"
    using lobby_reads [OF inv, of p l ord n] assms(3) s(2,3) by (auto simp: listening_def)
  have "party_inv g (y\<lparr>hall := s, lobbies := (lobbies y)(p \<mapsto> l')\<rparr>)" using party_inv_step [OF l'(1) inv] .
  with s l' assms(2) show ?thesis
    by (intro exI [of _ "y\<lparr>hall := s, lobbies := (lobbies y)(p \<mapsto> l')\<rparr>"] exI [of _ l'])
       (auto intro: converse_rtranclp_into_rtranclp)
qed

text \<open>
  C16. No lobby is left behind: in every state the system reaches in which the server's loop has not ended, the
  loops can go on, without anybody being answered anything new, so that each of any number of lobbies has displayed
  everything it was ever answered, provided that its own loop has not ended either, that it is still registered and
  reading, and that it has not misused its stream.
\<close>

theorem lobbies_can_catch_up:
  assumes "party_start g y0" "(party_step ord n)\<^sup>*\<^sup>* y0 y" "\<not> hall_ended y"
    and "\<forall>p\<in>set ps. \<exists>l. lobbies y p = Some l \<and> lobby_running l (threw_at y p) \<and> cl_reading (lobby_client l) \<and>
      \<not> cl_misused (lobby_client l) \<and> um_contains (channels (hall y)) (Connection p)"
  shows "\<exists>y'. (party_step ord n)\<^sup>*\<^sup>* y y' \<and> \<not> hall_ended y' \<and> answered_to y' = answered_to y \<and>
    (\<forall>p\<in>set ps. \<exists>l. lobbies y' p = Some l \<and> concat (displayed l) = concat (answered_to y p))"
proof -
  have "\<exists>y'. (party_step ord n)\<^sup>*\<^sup>* y y' \<and> \<not> hall_ended y' \<and> answered_to y' = answered_to y \<and>
      (\<forall>p. p \<notin> set ps \<longrightarrow> lobbies y' p = lobbies y p) \<and>
      (\<forall>p\<in>set ps. \<exists>l. lobbies y' p = Some l \<and> concat (displayed l) = concat (answered_to y p))"
    if "party_inv g y" "\<not> hall_ended y" "\<forall>p\<in>set ps. \<exists>l. listening y p l" using that
  proof (induction ps arbitrary: y)
    case Nil
    show ?case by (rule exI [of _ y]) (simp add: Nil)
  next
    case (Cons p ps)
    obtain l where l: "listening y p l" using Cons.prems(3) by auto
    show ?case
    proof (cases "p \<in> set ps")
      case True
      with Cons.IH [OF Cons.prems(1,2)] Cons.prems(3) show ?thesis by (simp add: insert_absorb)
    next
      case False
      obtain y1 l1 where y1: "(party_step ord n)\<^sup>*\<^sup>* y y1" "party_inv g y1" "\<not> hall_ended y1"
        "channels (hall y1) = channels (hall y)" "threw_at y1 = threw_at y"
        "answered_to y1 = answered_to y" "lobbies y1 = (lobbies y)(p \<mapsto> l1)" "concat (displayed l1) = concat (answered_to y p)"
        using lobby_catches_up [OF Cons.prems(1,2) l] by blast
      have "listening y1 q k" if "listening y q k" "q \<in> set ps" for q k
        using that False y1(4,5,7) by (auto simp: listening_def)
      then have "\<forall>q\<in>set ps. \<exists>l. listening y1 q l" using Cons.prems(3) by fastforce
      from Cons.IH [OF y1(2,3) this] obtain y' where y': "(party_step ord n)\<^sup>*\<^sup>* y1 y'" "\<not> hall_ended y'"
        "answered_to y' = answered_to y1" "\<forall>q. q \<notin> set ps \<longrightarrow> lobbies y' q = lobbies y1 q"
        "\<forall>q\<in>set ps. \<exists>l. lobbies y' q = Some l \<and> concat (displayed l) = concat (answered_to y1 q)" by blast
      have "(party_step ord n)\<^sup>*\<^sup>* y y'" using y1(1) y'(1) by (rule rtranclp_trans)
      with y' y1 False show ?thesis by (intro exI [of _ y']) auto
    qed
  qed
  with party_reached [OF assms(1,2)] assms(3,4) show ?thesis unfolding listening_def by blast
qed

theorem lobbies_can_catch_up_witness:
  "\<exists>y a b. (party_step id 0)\<^sup>*\<^sup>* yes_shown y \<and> lobbies y 5 = Some a \<and> lobbies y 9 = Some b \<and>
     displayed (the (lobbies yes_shown 5)) = [] \<and>
     concat (displayed a) = ''5> hi'' @ nl @ ''9> yes'' @ nl \<and> concat (displayed b) = ''9> yes'' @ nl"
proof -
  have start: "party_start game_server empty_hall" by (simp add: party_start_def empty_hall_def)
  have hall: "channels (hall yes_shown) = [(Connection 5, 5), (Connection 9, 9)]" "\<not> hall_ended yes_shown"
    by (simp_all add: yes_shown_def party_to yes_told_def yes_heard_fields)
  then have "\<forall>p\<in>set [9, 5]. \<exists>l. lobbies yes_shown p = Some l \<and> lobby_running l (threw_at yes_shown p) \<and>
      cl_reading (lobby_client l) \<and> \<not> cl_misused (lobby_client l) \<and>
      um_contains (channels (hall yes_shown)) (Connection p)"
    using speaks_fields [of "''yes''"] speaks_fields [of "''hi''"]
    by (simp add: yes_shown_def party_to hi_said_fields um_contains_def joinIteration_def client_receive_def
        lobby_running_def)
  from lobbies_can_catch_up [OF start yes_shown_reached hall(2) this] obtain y' where y':
    "(party_step id 0)\<^sup>*\<^sup>* yes_shown y'"
    "\<forall>p\<in>set [9, 5]. \<exists>l. lobbies y' p = Some l \<and> concat (displayed l) = concat (answered_to yes_shown p)" by blast
  moreover have "displayed (the (lobbies yes_shown 5)) = []"
    using yes_shown_fields(1) speaks_fields [of "''hi''"] by auto
  ultimately show ?thesis using yes_shown_fields(3,4) by auto
qed

end
