(* ===== verification/Web_Server.thy ===== *)
theory Web_Server
  imports Http_Session
begin

text \<open>
  The web server as a whole: the acceptor, the HTTP sessions and the channels of
  \<open>lib/networking/src/Server.cpp\<close> as one system. A session whose client asks for a web socket allocates a
  channel and moves its socket into it; from then on the connection is the channel's. The
  system is the composition of \<open>Http_Session\<close> and \<open>Net_Server\<close> along that step, so what is proved of the
  two holds of it.
\<close>

section \<open>The system\<close>

record 'a WebServer =
  wb_acceptor :: Acceptor
  wb_impl :: "'a ServerImpl"

text \<open>The constructor of \<open>ServerImpl\<close> starts to listen.\<close>

definition mkWebServer :: "'a \<Rightarrow> 'a WebServer" where
  "mkWebServer a =
     \<lparr>wb_acceptor = listenForConnections \<lparr>ac_sessions = [], ac_accepting = 0\<rparr>, wb_impl = mkServer a\<rparr>"

text \<open>
  The completions of the system: of an accept, of the \<open>k\<close>-th session's operations, where \<open>p\<close> is the address
  of the channel if one is made, and of a channel's operations.
\<close>

datatype web_event =
    WebAccepted bool
  | WebSession nat http_event uintptr
  | WebChannel net_event

definition asks_upgrade :: "http_event \<Rightarrow> bool" where
  "asks_upgrade e = (case e of HttpRead (Some r) \<Rightarrow> rq_upgrade r | _ \<Rightarrow> False)"

fun web_complete ::
    "'a ConnectionHandler \<Rightarrow> (HttpResponse \<Rightarrow> bool) \<Rightarrow> string \<Rightarrow> web_event \<Rightarrow> 'a WebServer \<Rightarrow> 'a WebServer" where
  "web_complete H needEof page (WebAccepted ok) w = w\<lparr>wb_acceptor := afterAccept ok (wb_acceptor w)\<rparr>"
| "web_complete H needEof page (WebSession k e p) w =
     (let sessions = ac_sessions (wb_acceptor w);
          w1 = w\<lparr>wb_acceptor := (wb_acceptor w)
                   \<lparr>ac_sessions := sessions[k := http_complete needEof page e (sessions ! k)]\<rparr>\<rparr>
      in if asks_upgrade e then w1\<lparr>wb_impl := complete H (Upgrade p) (wb_impl w1)\<rparr> else w1)"
| "web_complete H needEof page (WebChannel e) w = w\<lparr>wb_impl := complete H e (wb_impl w)\<rparr>"

fun web_enabled :: "'a WebServer \<Rightarrow> web_event \<Rightarrow> bool" where
  "web_enabled w (WebAccepted ok) = (0 < ac_accepting (wb_acceptor w))"
| "web_enabled w (WebSession k e p) =
     (k < length (ac_sessions (wb_acceptor w)) \<and> http_enabled (ac_sessions (wb_acceptor w) ! k) e \<and>
      (asks_upgrade e \<longrightarrow> enabled (wb_impl w) (Upgrade p)))"
| "web_enabled w (WebChannel e) = ((\<forall>p. e \<noteq> Upgrade p) \<and> enabled (wb_impl w) e)"

text \<open>\<open>P\<close> is what is assumed of the requests. Between completions the application uses the server.\<close>

inductive web_step ::
    "'a ConnectionHandler \<Rightarrow> (HttpRequest \<Rightarrow> bool) \<Rightarrow> (HttpResponse \<Rightarrow> bool) \<Rightarrow> string \<Rightarrow>
     'a WebServer \<Rightarrow> 'a WebServer \<Rightarrow> bool"
  for H P needEof page where
  web_completion:
    "web_enabled w e \<Longrightarrow> (\<And>k r p. e = WebSession k (HttpRead (Some r)) p \<Longrightarrow> P r) \<Longrightarrow>
     web_step H P needEof page w (web_complete H needEof page e w)"
| web_sending: "web_step H P needEof page w (w\<lparr>wb_impl := server_send ms (wb_impl w)\<rparr>)"
| web_receiving: "web_step H P needEof page w (w\<lparr>wb_impl := snd (server_receive (wb_impl w))\<rparr>)"
| web_disconnecting: "web_step H P needEof page w (w\<lparr>wb_impl := server_disconnect H c (wb_impl w)\<rparr>)"
| web_application: "web_step H P needEof page w (w\<lparr>wb_impl := (wb_impl w)\<lparr>app := b\<rparr>\<rparr>)"

abbreviation web_reachable ::
    "'a ConnectionHandler \<Rightarrow> (HttpRequest \<Rightarrow> bool) \<Rightarrow> (HttpResponse \<Rightarrow> bool) \<Rightarrow> string \<Rightarrow> 'a \<Rightarrow> 'a WebServer \<Rightarrow> bool" where
  "web_reachable H P needEof page a w \<equiv> (web_step H P needEof page)\<^sup>*\<^sup>* (mkWebServer a) w"

section \<open>The parts of a reachable state\<close>

lemma web_projects_net:
  assumes "web_step H P needEof page w w'"
  shows "wb_impl w' = wb_impl w \<or> net_step H (wb_impl w) (wb_impl w')"
  using assms
proof cases
  case (web_completion e)
  show ?thesis
  proof (cases e)
    case (WebSession k x p)
    then show ?thesis
      using web_completion completion [of "wb_impl w" "Upgrade p" H] by (simp add: Let_def)
  qed (use web_completion completion [of "wb_impl w" _ H] in auto)
qed (auto intro: net_step.intros)

lemma web_net_reachable: "web_reachable H P needEof page a w \<Longrightarrow> net_reachable H a (wb_impl w)"
proof (induction rule: rtranclp_induct)
  case base
  show ?case by (simp add: mkWebServer_def net_reachable.start)
next
  case (step w w')
  show ?case using web_projects_net [OF step(2)] step(3) net_reachable.step by fastforce
qed

lemma web_sessions_reachable:
  "web_reachable H P needEof page a w \<Longrightarrow>
   list_all (http_reachable P needEof page) (ac_sessions (wb_acceptor w)) \<and> ac_accepting (wb_acceptor w) = 1"
proof (induction rule: rtranclp_induct)
  case base
  show ?case by (simp add: mkWebServer_def listenForConnections_def)
next
  case (step w w')
  from step(2) show ?case
  proof cases
    case (web_completion e)
    show ?thesis
    proof (cases e)
      case (WebAccepted ok)
      with web_completion step(3) show ?thesis
        by (auto simp: afterAccept_def listenForConnections_def Let_def intro: http_begin)
    next
      case (WebSession k x p)
      let ?ss = "ac_sessions (wb_acceptor w)"
      have "http_reachable P needEof page (http_complete needEof page x (?ss ! k))"
        by (rule http_step) (use web_completion WebSession step(3) in \<open>auto simp: list_all_length\<close>)
      then have "list_all (http_reachable P needEof page) (?ss[k := http_complete needEof page x (?ss ! k)])"
        using step(3) set_update_subset_insert by (fastforce simp: list_all_iff)
      with web_completion WebSession step(3) show ?thesis by (simp add: Let_def)
    next
      case (WebChannel x)
      with web_completion step(3) show ?thesis by simp
    qed
  qed (use step(3) in simp_all)
qed

section \<open>Sessions and channels\<close>

lemma dom_heap_at_channel [simp]: "dom (heap (at_channel p f s)) = dom (heap s)"
  by (auto split: if_splits)

lemma dom_heap_disconnect [simp]: "dom (heap (server_disconnect H c s)) = dom (heap s)"
  by (simp add: server_disconnect_def Let_def del: heap_at_channel split: option.split)

lemma dom_heap_send [simp]: "dom (heap (server_send ms s)) = dom (heap s)"
  by (induction ms arbitrary: s) (simp_all del: heap_at_channel split: option.split)

lemma dom_heap_complete:
  "\<forall>p. e \<noteq> Upgrade p \<Longrightarrow> dom (heap (complete H e s)) \<subseteq> dom (heap s)"
  by (cases e) (auto simp: Let_def registerChannel_def domIff split: option.splits if_splits)

definition upgraded_sessions :: "'a WebServer \<Rightarrow> nat" where
  "upgraded_sessions w = length (filter hs_upgraded (ac_sessions (wb_acceptor w)))"

lemma filter_update_same:
  "k < length xs \<Longrightarrow> P y = P (xs ! k) \<Longrightarrow> length (filter P (xs[k := y])) = length (filter P xs)"
  by (induction xs arbitrary: k) (auto split: nat.split)

lemma filter_update_more:
  "k < length xs \<Longrightarrow> P y \<Longrightarrow> \<not> P (xs ! k) \<Longrightarrow> length (filter P (xs[k := y])) = Suc (length (filter P xs))"
proof (induction xs arbitrary: k)
  case (Cons x xs)
  then show ?case by (cases k) auto
qed simp

lemma hs_upgraded_complete:
  "hs_upgraded (http_complete needEof page e s) \<longleftrightarrow> hs_upgraded s \<or> asks_upgrade e"
  by (cases e) (auto simp: asks_upgrade_def Let_def http_start_def split: option.split)

definition channels_from_sessions :: "'a WebServer \<Rightarrow> bool" where
  "channels_from_sessions w \<longleftrightarrow>
     finite (dom (heap (wb_impl w))) \<and> card (dom (heap (wb_impl w))) \<le> upgraded_sessions w"

lemma channels_from_sessions_mono:
  "channels_from_sessions w \<Longrightarrow> dom (heap (wb_impl w')) \<subseteq> dom (heap (wb_impl w)) \<Longrightarrow>
   upgraded_sessions w \<le> upgraded_sessions w' \<Longrightarrow> channels_from_sessions w'"
  unfolding channels_from_sessions_def
  by (meson card_mono finite_subset le_trans)

lemma web_channels_from_sessions:
  "web_reachable H polite_request needEof page a w \<Longrightarrow> channels_from_sessions w"
proof (induction rule: rtranclp_induct)
  case base
  show ?case by (simp add: channels_from_sessions_def mkWebServer_def mkServer_def)
next
  case (step w w')
  have serial: "list_all http_serial (ac_sessions (wb_acceptor w))"
    using web_sessions_reachable [OF step(1)] http_reachable_serial by (auto simp: list_all_iff)
  from step(2) show ?case
  proof cases
    case (web_completion e)
    show ?thesis
    proof (cases e)
      case (WebAccepted ok)
      show ?thesis
        by (rule channels_from_sessions_mono [OF step(3)])
           (simp_all add: web_completion WebAccepted upgraded_sessions_def afterAccept_def listenForConnections_def Let_def)
    next
      case (WebSession k x p)
      let ?ss = "ac_sessions (wb_acceptor w)"
      have k: "k < length ?ss" "http_enabled (?ss ! k) x" using web_completion(2) WebSession by simp_all
      have x: "hs_upgraded (http_complete needEof page x (?ss ! k)) = (hs_upgraded (?ss ! k) \<or> asks_upgrade x)"
        by (rule hs_upgraded_complete)
      show ?thesis
      proof (cases "asks_upgrade x")
        case True
        have "http_serial (?ss ! k)" using serial k(1) by (simp add: list_all_length)
        moreover have "0 < hs_reading (?ss ! k)" using k(2) True by (cases x) (auto simp: asks_upgrade_def)
        ultimately have "\<not> hs_upgraded (?ss ! k)" by (auto simp: http_serial_def)
        then have "upgraded_sessions w' = Suc (upgraded_sessions w)"
          using filter_update_more [OF k(1), of hs_upgraded] x True
          by (simp add: web_completion(1) WebSession upgraded_sessions_def Let_def)
        moreover have "dom (heap (wb_impl w')) = insert p (dom (heap (wb_impl w)))"
          by (simp add: web_completion(1) WebSession True Let_def)
        ultimately show ?thesis
          using step(3) card_insert_le_m1 by (auto simp: channels_from_sessions_def card_insert_if)
      next
        case False
        then have "upgraded_sessions w' = upgraded_sessions w"
          using filter_update_same [OF k(1), of hs_upgraded] x
          by (simp add: web_completion(1) WebSession upgraded_sessions_def Let_def)
        then show ?thesis
          by (intro channels_from_sessions_mono [OF step(3)])
             (simp_all add: web_completion(1) WebSession False Let_def)
      qed
    next
      case (WebChannel x)
      then have "\<forall>p. x \<noteq> Upgrade p" using web_completion(2) by simp
      then show ?thesis
        by (intro channels_from_sessions_mono [OF step(3)])
           (simp_all add: web_completion(1) WebChannel upgraded_sessions_def dom_heap_complete)
    qed
  qed (rule channels_from_sessions_mono [OF step(3)],
       simp_all add: upgraded_sessions_def server_receive_def del: heap_at_channel)+
qed

lemma web_heap_finite: "web_reachable H P needEof page a w \<Longrightarrow> finite (dom (heap (wb_impl w)))"
proof (induction rule: rtranclp_induct)
  case base
  show ?case by (simp add: mkWebServer_def mkServer_def)
next
  case (step w w')
  have "finite (dom (heap (complete H e s)))" if "finite (dom (heap s))" for e and s :: "'a ServerImpl"
  proof (cases "\<exists>p. e = Upgrade p")
    case False
    then show ?thesis using dom_heap_complete [of e H s] that finite_subset by blast
  qed (use that in auto)
  with step show ?case
    by (elim web_step.cases)
       (auto simp: Let_def server_receive_def simp del: heap_at_channel complete.simps elim!: web_complete.elims)
qed

section \<open>Properties\<close>

text \<open>The fewer requests are assumed away, the more is reachable.\<close>

lemma web_reachable_mono:
  assumes "web_reachable H P needEof page a w" "\<And>r. P r \<Longrightarrow> Q r"
  shows "web_reachable H Q needEof page a w"
proof -
  have "web_step H P needEof page v v' \<Longrightarrow> web_step H Q needEof page v v'" for v v'
  proof (induction rule: web_step.induct)
    case (web_completion w e)
    show ?case by (rule web_step.web_completion [OF web_completion(1)]) (use web_completion(2) assms(2) in blast)
  qed (rule web_step.intros)+
  then show ?thesis using assms(1) by (metis (mono_tags, lifting) mono_rtranclp)
qed

text \<open>
  C8. Whatever the requests, in every state of the web server exactly one accept is outstanding, so it never
  stops listening and never listens twice; it has finitely many channels; and they are in a reachable state of the
  network server, in which its invariant holds. And as long as every request has been polite, which means proper
  or a request for a web socket, a session whose socket was moved to a channel has no operation left that could
  complete, and there are never more channels than sessions that asked for one. The second half does not hold of
  other requests (\<open>impolite_session_reads_on\<close>).
\<close>

theorem web_server_invariant:
  assumes "web_reachable H P needEof page a w"
  shows "ac_accepting (wb_acceptor w) = 1 \<and> finite (dom (heap (wb_impl w))) \<and>
    net_reachable H a (wb_impl w) \<and> net_inv (wb_impl w) \<and>
    ((\<forall>r. P r \<longrightarrow> polite_request r) \<longrightarrow>
       (\<forall>s \<in> set (ac_sessions (wb_acceptor w)). hs_upgraded s \<longrightarrow> (\<forall>e. \<not> http_enabled s e)) \<and>
       card (dom (heap (wb_impl w))) \<le> length (filter hs_upgraded (ac_sessions (wb_acceptor w))))"
proof -
  have polite: "(\<forall>s \<in> set (ac_sessions (wb_acceptor w)). hs_upgraded s \<longrightarrow> (\<forall>e. \<not> http_enabled s e)) \<and>
      card (dom (heap (wb_impl w))) \<le> length (filter hs_upgraded (ac_sessions (wb_acceptor w)))"
    if "\<forall>r. P r \<longrightarrow> polite_request r"
  proof -
    have w: "web_reachable H polite_request needEof page a w" by (rule web_reachable_mono [OF assms]) (use that in blast)
    have "\<forall>s \<in> set (ac_sessions (wb_acceptor w)). http_serial s"
      using web_sessions_reachable [OF w] http_reachable_serial by (auto simp: list_all_iff)
    moreover have "\<not> http_enabled s e" if "http_serial s" "hs_upgraded s" for s e
      using that by (cases e) (auto simp: http_serial_def)
    moreover have "channels_from_sessions w" using web_channels_from_sessions [OF w] .
    ultimately show ?thesis by (simp add: channels_from_sessions_def upgraded_sessions_def)
  qed
  note net = web_net_reachable [OF assms]
  have "ac_accepting (wb_acceptor w) = 1" using web_sessions_reachable [OF assms] by blast
  then show ?thesis using web_heap_finite [OF assms] net net_reachable_inv [OF net] polite by (intro conjI impI) blast+
qed

lemma web_reachable_completion:
  assumes "web_reachable H P needEof page a w" "web_enabled w e"
    and "\<And>k r p. e = WebSession k (HttpRead (Some r)) p \<Longrightarrow> P r"
  shows "web_reachable H P needEof page a (web_complete H needEof page e w)"
proof -
  have "web_step H P needEof page w (web_complete H needEof page e w)" using assms(2,3) by (rule web_completion)
  with assms(1) show ?thesis by (rule rtranclp.rtrancl_into_rtrancl)
qed

text \<open>A browser fetches the page and asks, on a second connection, for a web socket.\<close>

definition page_and_socket :: "unit WebServer" where
  "page_and_socket =
     \<lparr>wb_acceptor =
        \<lparr>ac_sessions =
           [mkHTTPSession\<lparr>hs_request := Some get_index, hs_writing := [okResponse ''page'' get_index]\<rparr>,
            mkHTTPSession\<lparr>hs_request := Some (get_index\<lparr>rq_upgrade := True\<rparr>), hs_upgraded := True\<rparr>],
         ac_accepting = 1\<rparr>,
      wb_impl = complete silent_handlers (Accepted 5 True) (complete silent_handlers (Upgrade 5) (mkServer ()))\<rparr>"

lemma page_and_socket_reachable:
  "web_reachable silent_handlers polite_request needEof ''page'' () page_and_socket"
proof -
  let ?c = "web_complete silent_handlers needEof ''page''"
  let ?r = "web_reachable silent_handlers polite_request needEof ''page'' ()"
  let ?s = "http_start mkHTTPSession"
  let ?t0 = "mkHTTPSession\<lparr>hs_request := Some get_index, hs_writing := [okResponse ''page'' get_index]\<rparr>"
  let ?t1 = "mkHTTPSession\<lparr>hs_request := Some (get_index\<lparr>rq_upgrade := True\<rparr>), hs_upgraded := True\<rparr>"
  let ?w = "\<lambda>ss n. \<lparr>wb_acceptor = \<lparr>ac_sessions = ss, ac_accepting = 1\<rparr>, wb_impl = n\<rparr>"
  let ?n = "mkServer ()"
  have p: "proper_request get_index" "polite_request get_index" "polite_request (get_index\<lparr>rq_upgrade := True\<rparr>)"
    by (simp_all add: polite_request_def proper_request_def get_index_def shouldServeIndex_def)
  have u: "\<not> rq_upgrade get_index" by (simp add: get_index_def)
  have "?r (?w [] ?n)" by (simp add: mkWebServer_def listenForConnections_def)
  then have "?r (?c (WebAccepted True) (?w [] ?n))" by (rule web_reachable_completion) simp_all
  then have "?r (?w [?s] ?n)" by (simp add: afterAccept_def listenForConnections_def)
  then have "?r (?c (WebAccepted True) (?w [?s] ?n))" by (rule web_reachable_completion) simp_all
  then have "?r (?w [?s, ?s] ?n)" by (simp add: afterAccept_def listenForConnections_def)
  then have "?r (?c (WebSession 0 (HttpRead (Some get_index)) 0) (?w [?s, ?s] ?n))"
    by (rule web_reachable_completion)
       (auto simp: p asks_upgrade_def http_start_def, simp add: get_index_def)
  then have "?r (?w [?t0, ?s] ?n)"
    using u by (simp add: handleRequest_proper [OF p(1)] asks_upgrade_def http_start_def mkHTTPSession_def)
  then have "?r (?c (WebSession 1 (HttpRead (Some (get_index\<lparr>rq_upgrade := True\<rparr>))) 5) (?w [?t0, ?s] ?n))"
    by (rule web_reachable_completion)
       (simp_all add: p, simp add: http_start_def mkServer_def)
  then have "?r (?w [?t0, ?t1] (complete silent_handlers (Upgrade 5) ?n))"
    by (simp add: asks_upgrade_def) (simp add: http_start_def mkHTTPSession_def)
  then have "?r (?c (WebChannel (Accepted 5 True)) (?w [?t0, ?t1] (complete silent_handlers (Upgrade 5) ?n)))"
    by (rule web_reachable_completion) (simp_all add: mkChannel_def)
  then show ?thesis by (simp only: page_and_socket_def web_complete.simps WebServer.simps)
qed

theorem web_server_invariant_witness:
  "dom (heap (wb_impl page_and_socket)) = {5} \<and> um_contains (channels (wb_impl page_and_socket)) (Connection 5) \<and>
   ac_accepting (wb_acceptor page_and_socket) = 1 \<and>
   card (dom (heap (wb_impl page_and_socket))) \<le> length (filter hs_upgraded (ac_sessions (wb_acceptor page_and_socket)))"
proof -
  have "dom (heap (wb_impl page_and_socket)) = {5}" "um_contains (channels (wb_impl page_and_socket)) (Connection 5)"
    by (simp_all add: page_and_socket_def mkServer_def Let_def registerChannel_def um_insert_def
        um_erase_def um_contains_def at_channel_def)
  with web_server_invariant [OF page_and_socket_reachable [of "\<lambda>_. False"]] show ?thesis by simp
qed

text \<open>
  Without the condition it fails: a session that is kept alive and asked for something the server does not have
  gets two responses, and reads twice once they are written; when one of the reads brings a request for a web
  socket, its socket goes to a channel with the other read still outstanding.
\<close>

lemma impolite_session_reads_on:
  fixes r u :: HttpRequest
  assumes "\<not> proper_request r" "\<not> rq_upgrade r" "rq_method r = VerbGet" "\<not> needEof (badRequest r ''Illegal request-target'')"
    and "\<not> needEof (okResponse page r)" "rq_upgrade u"
  shows "\<exists>w s. web_reachable H (\<lambda>_. True) needEof page a w \<and> s \<in> set (ac_sessions (wb_acceptor w)) \<and>
    hs_upgraded s \<and> http_enabled s (HttpRead None)"
proof -
  let ?c = "web_complete H needEof page"
  let ?r = "web_reachable H (\<lambda>_. True) needEof page a"
  let ?w = "\<lambda>s n. \<lparr>wb_acceptor = \<lparr>ac_sessions = [s], ac_accepting = 1\<rparr>, wb_impl = n\<rparr>"
  let ?s = "http_start mkHTTPSession"
  let ?b = "badRequest r ''Illegal request-target''" and ?o = "okResponse page r"
  have "\<not> shouldServeIndex (rq_target r)" using assms(1,3) by (simp add: proper_request_def)
  then have responses: "handleRequest page r = [?b, ?o]" using assms(3) by (simp add: handleRequest_def)
  have "?r (mkWebServer a)" by simp
  then have "?r (?c (WebAccepted True) (mkWebServer a))"
    by (rule web_reachable_completion) (simp_all add: mkWebServer_def listenForConnections_def)
  then have "?r (?w ?s (mkServer a))" by (simp add: mkWebServer_def afterAccept_def listenForConnections_def)
  then have "?r (?c (WebSession 0 (HttpRead (Some r)) 0) (?w ?s (mkServer a)))"
    by (rule web_reachable_completion) (simp_all add: asks_upgrade_def assms(2) http_start_def)
  then have "?r (?w (mkHTTPSession\<lparr>hs_request := Some r, hs_writing := [?b, ?o]\<rparr>) (mkServer a))"
    by (simp add: asks_upgrade_def assms(2) responses) (simp add: http_start_def mkHTTPSession_def)
  then have "?r (?c (WebSession 0 (HttpWrote 0 True) 0) (?w (mkHTTPSession\<lparr>hs_request := Some r, hs_writing := [?b, ?o]\<rparr>) (mkServer a)))"
    by (rule web_reachable_completion) (simp_all add: asks_upgrade_def)
  then have "?r (?w (mkHTTPSession\<lparr>hs_request := Some r, hs_reading := 1, hs_writing := [?o]\<rparr>) (mkServer a))"
    using assms(4) by (simp add: asks_upgrade_def http_start_def mkHTTPSession_def)
  then have "?r (?c (WebSession 0 (HttpWrote 0 True) 0) (?w (mkHTTPSession\<lparr>hs_request := Some r, hs_reading := 1, hs_writing := [?o]\<rparr>) (mkServer a)))"
    by (rule web_reachable_completion) (simp_all add: asks_upgrade_def)
  then have "?r (?w (mkHTTPSession\<lparr>hs_request := Some r, hs_reading := 2\<rparr>) (mkServer a))"
    using assms(5) by (simp add: asks_upgrade_def http_start_def mkHTTPSession_def numeral_2_eq_2)
  then have "?r (?c (WebSession 0 (HttpRead (Some u)) 5) (?w (mkHTTPSession\<lparr>hs_request := Some r, hs_reading := 2\<rparr>) (mkServer a)))"
    by (rule web_reachable_completion) (simp_all add: mkServer_def)
  then show ?thesis
    by (intro exI [of _ "?c (WebSession 0 (HttpRead (Some u)) 5) (?w (mkHTTPSession\<lparr>hs_request := Some r, hs_reading := 2\<rparr>) (mkServer a))"]
        exI [of _ "mkHTTPSession\<lparr>hs_request := Some u, hs_reading := 1, hs_upgraded := True\<rparr>"])
       (simp add: asks_upgrade_def assms(6) mkHTTPSession_def)
qed

end
