(* ===== verification/Rule_Documents.thy ===== *)
theory Rule_Documents
  imports Json_Parser
begin

text \<open>
  Writing a game down as a document: the inverse of the parsers. Every rule the parser can deliver is
  printed as the JSON value that stands for it, and a printed game is read back as the game, its names
  rewritten by the elements in scope. The JSON library is the concrete one.
\<close>

section \<open>Documents\<close>

definition add_doc :: "string \<Rightarrow> jval \<Rightarrow> jval" where
  "add_doc t v = JObj [(''rule'', JStr ''add''), (''to'', JStr t), (''value'', v)]"

definition msg_doc :: "string \<Rightarrow> jval" where
  "msg_doc m = JObj [(''rule'', JStr ''global-message''), (''value'', JStr m)]"

definition foreach_doc :: "string \<Rightarrow> string \<Rightarrow> jval list \<Rightarrow> jval" where
  "foreach_doc l e rs =
     JObj [(''rule'', JStr ''foreach''), (''list'', JStr l), (''element'', JStr e), (''rules'', JArr rs)]"

definition input_doc :: "string \<Rightarrow> string \<Rightarrow> string \<Rightarrow> jval" where
  "input_doc t p r =
     JObj [(''rule'', JStr ''input-text''), (''to'', JStr t), (''prompt'', JStr p), (''result'', JStr r)]"

text \<open>The parser knows no loop.\<close>

fun rule_doc :: "rule \<Rightarrow> jval" where
  "rule_doc (AddRule t k) = add_doc t (JInt (sint k))"
| "rule_doc (GlobalMessageRule m) = msg_doc m"
| "rule_doc (LoopRule c rs) = JNull"
| "rule_doc (InputTextRule u p v) = input_doc u p v"
| "rule_doc (ForEachRule l e rs) = foreach_doc l e (map rule_doc rs)"

definition variables_doc :: "(string \<times> int) list \<Rightarrow> jval" where
  "variables_doc vs = JObj (map (\<lambda>(k, v). (k, JInt v)) vs)"

definition spec_doc :: "(string \<times> int) list \<Rightarrow> (string \<times> int) list \<Rightarrow> jval list \<Rightarrow> jval" where
  "spec_doc variables perPlayer rs = JObj
     [(''configuration'', JObj [(''name'', JStr ''MVP game''),
        (''player count'', JObj [(''min'', JInt 0), (''max'', JInt 0)]),
        (''audience'', JBool False), (''setup'', JObj [])]),
      (''constants'', JObj []),
      (''variables'', variables_doc variables),
      (''per-player'', variables_doc perPlayer),
      (''per-audience'', JObj []),
      (''rules'', JArr rs)]"

definition game_doc_of :: "GameData \<Rightarrow> jval" where
  "game_doc_of gd = spec_doc (map (\<lambda>(k, v). (k, sint v)) (gd_variableMap gd))
     (map (\<lambda>(k, v). (k, sint v)) (gd_perPlayerVariableMap gd)) (map rule_doc (gd_topLevelRules gd))"

section \<open>Reading them\<close>

text \<open>The names of a rule, as the parser rewrites them under the aliases it holds.\<close>

definition with_element :: "VariableAliasMap \<Rightarrow> VariableKey \<Rightarrow> VariableAliasMap" where
  "with_element al e = um_insert al e (''players.$'' @ e)"

fun scoped_rule :: "VariableAliasMap \<Rightarrow> rule \<Rightarrow> rule" where
  "scoped_rule al (AddRule t k) = AddRule (processScopedVariables al t) k"
| "scoped_rule al (GlobalMessageRule m) = GlobalMessageRule m"
| "scoped_rule al (LoopRule c rs) = LoopRule c rs"
| "scoped_rule al (InputTextRule u p v) =
     InputTextRule (processScopedVariables al u) p (processScopedVariables al v)"
| "scoped_rule al (ForEachRule l e rs) = ForEachRule l e (map (scoped_rule (with_element al e)) rs)"

text \<open>What can be written: no loops, and no element inside the scope of one of the same name.\<close>

fun writable :: "VariableAliasMap \<Rightarrow> rule \<Rightarrow> bool" where
  "writable al (AddRule t k) \<longleftrightarrow> True"
| "writable al (GlobalMessageRule m) \<longleftrightarrow> True"
| "writable al (LoopRule c rs) \<longleftrightarrow> False"
| "writable al (InputTextRule u p v) \<longleftrightarrow> True"
| "writable al (ForEachRule l e rs) \<longleftrightarrow>
     l = ''players'' \<and> map_of al e = None \<and> list_all (writable (with_element al e)) rs"

fun nesting :: "rule \<Rightarrow> nat" where
  "nesting (ForEachRule l e rs) = Suc (fold max (map nesting rs) 0)"
| "nesting r = 0"

lemma nesting_le: "r \<in> set rs \<Longrightarrow> nesting r \<le> fold max (map nesting rs) k"
proof (induction rs arbitrary: k)
  case (Cons x xs)
  have "m \<le> fold max (map nesting ys) m" for m :: nat and ys
  proof (induction ys arbitrary: m)
    case (Cons y ys)
    show ?case using Cons [of "max (nesting y) m"] by simp
  qed simp
  then have "nesting x \<le> fold max (map nesting xs) (max (nesting x) k)" by (meson max.cobounded1 order_trans)
  with Cons show ?case by auto
qed simp

lemma leaf_docs:
  "parseRule (jval_lib fs) n al (add_doc t (JInt k)) =
     Inr (Some (AddRule (processScopedVariables al t) (word_of_int k)), al)"
  "parseRule (jval_lib fs) n al (add_doc t (JStr x)) = Inr (None, al)"
  "parseRule (jval_lib fs) n al (msg_doc m) = Inr (Some (GlobalMessageRule m), al)"
  "parseRule (jval_lib fs) n al (input_doc u p v) =
     Inr (Some (InputTextRule (processScopedVariables al u) p (processScopedVariables al v)), al)"
  "jval_contains (add_doc t y) ''rule''" "jval_contains (msg_doc m) ''rule''"
  "jval_contains (input_doc u p v) ''rule''" "jval_contains (foreach_doc l e rs) ''rule''"
  by (simp_all add: add_doc_def msg_doc_def input_doc_def foreach_doc_def parseRule.simps parseAddRule_def
      parseGlobalMessageRule_def parseInputTextRule_def)

lemma um_erase_insert: "map_of al e = None \<Longrightarrow> um_erase (um_insert al e a) e = al"
  by (simp add: um_insert_def um_contains_def um_erase_def filter_id_conv) (force simp: map_of_eq_None_iff)

lemma rule_docs_read:
  assumes "\<And>r. r \<in> set rs \<Longrightarrow> parseRule (jval_lib fs) n al (rule_doc r) = Inr (Some (scoped_rule al r), al)"
    and "\<And>r. r \<in> set rs \<Longrightarrow> jval_contains (rule_doc r) ''rule''"
  shows "parseRuleList (jval_lib fs) n al os (map rule_doc rs) = Inr (os @ map (scoped_rule al) rs, al)"
  using assms by (induction rs arbitrary: os) simp_all

lemma rule_doc_kind: "writable al r \<Longrightarrow> jval_contains (rule_doc r) ''rule''"
  by (cases r) (simp_all add: leaf_docs)

lemma rule_doc_read:
  "writable al r \<Longrightarrow> nesting r \<le> n \<Longrightarrow>
   parseRule (jval_lib fs) n al (rule_doc r) = Inr (Some (scoped_rule al r), al)"
proof (induction r arbitrary: al n)
  case (ForEachRule l e rs)
  obtain m where m: "n = Suc m" using ForEachRule.prems(2) by (cases n) auto
  let ?al = "with_element al e"
  have ok: "l = ''players''" "map_of al e = None" "list_all (writable ?al) rs" using ForEachRule.prems(1) by simp_all
  have "parseRuleList (jval_lib fs) m ?al [] (map rule_doc rs) = Inr ([] @ map (scoped_rule ?al) rs, ?al)"
  proof (rule rule_docs_read)
    fix r assume r: "r \<in> set rs"
    then have w: "writable ?al r" using ok(3) by (simp add: list_all_iff)
    have "nesting r \<le> m" using nesting_le [OF r, of 0] ForEachRule.prems(2) m by simp
    with ForEachRule.IH [OF r w] show "parseRule (jval_lib fs) m ?al (rule_doc r) = Inr (Some (scoped_rule ?al r), ?al)" .
    show "jval_contains (rule_doc r) ''rule''" using rule_doc_kind [OF w] .
  qed
  then show ?case
    using ok m by (simp add: foreach_doc_def parseRule.simps parseForEachRule.simps Let_def with_element_def
        um_erase_insert)
qed (simp_all add: leaf_docs)

lemma rules_doc_read:
  assumes "list_all (writable al) rs" "list_all (\<lambda>r. nesting r \<le> n) rs"
  shows "parseRules (jval_lib fs) (Suc n) al (JArr (map rule_doc rs)) = Inr (map (scoped_rule al) rs, al)"
proof -
  have "parseRuleList (jval_lib fs) n al [] (map rule_doc rs) = Inr ([] @ map (scoped_rule al) rs, al)"
    by (rule rule_docs_read) (use assms rule_doc_read rule_doc_kind in \<open>auto simp: list_all_iff\<close>)
  then show ?thesis by simp
qed

lemma variables_doc_read:
  assumes "distinct (map fst vs)"
  shows "parseVariables (jval_lib fs) (variables_doc (map (\<lambda>(k, v). (k, sint v)) vs)) = Inr vs"
proof -
  have "parseVariableItems (jval_lib fs) m (map (\<lambda>(k, v). (k, JInt v)) (map (\<lambda>(k, v). (k, sint v)) vs)) = Inr (m @ vs)"
    if "distinct (map fst (m @ vs))" for m
    using that
  proof (induction vs arbitrary: m)
    case (Cons kv vs)
    have "um_insert m (fst kv) (snd kv) = m @ [kv]" using Cons.prems
      by (auto simp: um_insert_def um_contains_def map_of_eq_None_iff)
    then show ?case using Cons.IH [of "m @ [kv]"] Cons.prems by (cases kv) simp
  qed simp
  from this [of "[]"] assms show ?thesis by (simp add: parseVariables_def variables_doc_def)
qed

text \<open>Every document of the form is accepted, whatever its rules.\<close>

lemma spec_doc_parsed:
  assumes "fs path = Some (spec_doc vs ps rs)"
    and "parseVariables (jval_lib fs) (variables_doc vs) = Inr vm"
    and "parseVariables (jval_lib fs) (variables_doc ps) = Inr pm"
    and "parseRules (jval_lib fs) n [] (JArr rs) = Inr (rules, al)"
  shows "parseJsonFile_gameSpec (jval_lib fs) n path =
    Inr (if vm = [] \<or> rules = [] then invalidGameData
         else \<lparr>isValid = True, gd_variableMap = vm, gd_perPlayerVariableMap = pm, gd_topLevelRules = rules\<rparr>)"
proof -
  have n: "\<not> jval_is_null (spec_doc vs ps rs)" by (simp add: spec_doc_def)
  have "validateJsonContent_rootLevelElements (jval_lib fs) (spec_doc vs ps rs) GS_ROOT_ELEMS"
    by (simp add: validate_root_iff GS_ROOT_ELEMS_def spec_doc_def variables_doc_def)
  then have "parseJson (jval_lib fs) path True GAME_SPEC = spec_doc vs ps rs"
    using assms(1) n
    by (simp add: parseJson_def safeParse_def validateJsonObject_def validateJsonContent_gameSpec_def Let_def)
  moreover have "jval_at (spec_doc vs ps rs) ''rules'' = JArr rs"
    "jval_at (spec_doc vs ps rs) ''variables'' = variables_doc vs"
    "jval_at (spec_doc vs ps rs) ''per-player'' = variables_doc ps"
    by (simp_all add: spec_doc_def)
  ultimately show ?thesis using assms(2-4) n by (simp add: parseJsonFile_gameSpec_def)
qed

section \<open>Properties\<close>

text \<open>
  C22. The document parser inverts the printer: a game written down, its variables named once, its elements
  not shadowed and its rules nested no deeper than the fuel allows, is read back as the same game, with the
  names of its rules rewritten by the elements in scope, and nothing else changed.
\<close>

theorem game_document_roundtrip:
  assumes "isValid gd" "gd_variableMap gd \<noteq> []" "gd_topLevelRules gd \<noteq> []"
    and "distinct (map fst (gd_variableMap gd))" "distinct (map fst (gd_perPlayerVariableMap gd))"
    and "list_all (writable []) (gd_topLevelRules gd)" "list_all (\<lambda>r. nesting r \<le> n) (gd_topLevelRules gd)"
    and "fs path = Some (game_doc_of gd)"
  shows "parseJsonFile_gameSpec (jval_lib fs) (Suc n) path =
    Inr (gd\<lparr>gd_topLevelRules := map (scoped_rule []) (gd_topLevelRules gd)\<rparr>)"
proof -
  have vs: "parseVariables (jval_lib fs) (variables_doc (map (\<lambda>(k, v). (k, sint v)) (gd_variableMap gd))) =
      Inr (gd_variableMap gd)"
    and ps: "parseVariables (jval_lib fs) (variables_doc (map (\<lambda>(k, v). (k, sint v)) (gd_perPlayerVariableMap gd))) =
      Inr (gd_perPlayerVariableMap gd)"
    using variables_doc_read [OF assms(4)] variables_doc_read [OF assms(5)] by simp_all
  have "parseRules (jval_lib fs) (Suc n) [] (JArr (map rule_doc (gd_topLevelRules gd))) =
      Inr (map (scoped_rule []) (gd_topLevelRules gd), [])"
    using assms(6,7) by (rule rules_doc_read)
  from spec_doc_parsed [OF assms(8) [unfolded game_doc_of_def] vs ps this] assms(1-3) show ?thesis by simp
qed

definition written_game :: GameData where
  "written_game =
     \<lparr>isValid = True, gd_variableMap = [(''debug_target'', - 3)], gd_perPlayerVariableMap = [(''score'', 5)],
      gd_topLevelRules =
        [AddRule ''debug_target'' 1, ForEachRule ''players'' ''p'' [GlobalMessageRule ''hi'', AddRule ''p.score'' 2]]\<rparr>"

theorem game_document_roundtrip_witness:
  "parseJsonFile_gameSpec (jval_lib [''g'' \<mapsto> game_doc_of written_game]) 2 ''g'' =
     Inr (written_game\<lparr>gd_topLevelRules :=
       [AddRule ''debug_target'' 1,
        ForEachRule ''players'' ''p'' [GlobalMessageRule ''hi'', AddRule ''players.$p.score'' 2]]\<rparr>)"
proof -
  have "processScopedVariables [] ''debug_target'' = ''debug_target''"
    "processScopedVariables (with_element [] ''p'') ''p.score'' = ''players.$p.score''"
    by code_simp+
  then have "map (scoped_rule []) (gd_topLevelRules written_game) =
      [AddRule ''debug_target'' 1, ForEachRule ''players'' ''p'' [GlobalMessageRule ''hi'', AddRule ''players.$p.score'' 2]]"
    by (simp add: written_game_def)
  moreover have "parseJsonFile_gameSpec (jval_lib [''g'' \<mapsto> game_doc_of written_game]) (Suc 1) ''g'' =
      Inr (written_game\<lparr>gd_topLevelRules := map (scoped_rule []) (gd_topLevelRules written_game)\<rparr>)"
    by (rule game_document_roundtrip) (simp_all add: written_game_def)
  ultimately show ?thesis by (simp add: numeral_2_eq_2)
qed

end
