(* ===== verification/Unit_Tests.thy ===== *)
theory Unit_Tests
  imports Shipped_Game Rule_Documents
begin

text \<open>
  The repository's unit tests (\<open>src/test\<close>) on the model: the documents under \<open>test/json\<close> they read, and
  what they expect of the parser, of the rules and of the game state. One test stops short of executing
  the game it reads, the one with an input rule: executing it is undefined as soon as somebody plays.
\<close>

section \<open>The documents\<close>

definition addGlblMsg_basic :: jval where
  "addGlblMsg_basic = spec_doc [(''debug_target'', 0)] [(''input'', 0)]
     [add_doc ''debug_target'' (JInt 1), msg_doc ''DEBUG VALUE: {debug_target}!'']"

definition addGlblMsg_advanced :: jval where
  "addGlblMsg_advanced = spec_doc
     [(''differently_named_variable'', -100), (''another_variable'', 42), (''largeVariable'', 123456)] []
     ([msg_doc ''first variable: {differently_named_variable}!'', msg_doc ''second variable: {another_variable}!'',
       msg_doc ''3rd variable: {largeVariable}!''] @
      replicate 5 (add_doc ''differently_named_variable'' (JInt 1)) @
      [msg_doc ''first variable: {differently_named_variable}!''] @
      replicate 5 (add_doc ''differently_named_variable'' (JInt 1)) @
      [msg_doc ''DEBUG VALUE: {debug_target}!'', add_doc ''another_variable'' (JInt 58),
       add_doc ''largeVariable'' (JInt 123456)])"

definition addGlblMsg_invalid :: jval where
  "addGlblMsg_invalid = spec_doc [(''debug_target'', 0)] []
     [add_doc ''debug_target'' (JStr ''1''), msg_doc ''DEBUG VALUE: {debug_target}!'']"

definition inputOutput_basic :: jval where
  "inputOutput_basic = spec_doc [(''debug_target'', 0)] [(''input'', 0)]
     [msg_doc ''About to collect input'',
      foreach_doc ''players'' ''player''
        [input_doc ''player'' ''Please enter a number.'' ''player.input'',
         msg_doc ''This was the input: {player.input}''],
      msg_doc ''Finished collecting input'', msg_doc ''About to produce output'',
      msg_doc ''Finished producing output'']"

definition forEach_differentElemName :: jval where
  "forEach_differentElemName = spec_doc [(''debug_target'', 0)] [(''Money'', 100)]
     [msg_doc ''About to collect input'', add_doc ''debug_target'' (JInt 1),
      foreach_doc ''players'' ''gamer''
        [msg_doc ''This is gamer's ID: {gamer}'', add_doc ''debug_target'' (JInt 1),
         add_doc ''gamer.Money'' (JInt 1)],
      msg_doc ''Finished collecting input'', add_doc ''debug_target'' (JInt 1),
      msg_doc ''About to produce output'', msg_doc ''Finished producing output'']"

text \<open>The text that one test hands to the parser as a server configuration.\<close>

definition zen_game :: jval where
  "zen_game = JObj
     [(''configuration'', JObj [(''name'', JStr ''Zen Game''),
        (''player count'', JObj [(''min'', JInt 0), (''max'', JInt 0)]),
        (''audience'', JBool False), (''setup'', JObj [])]),
      (''constants'', JObj []), (''variables'', JObj []), (''per-player'', JObj []),
      (''per-audience'', JObj []), (''rules'', JArr [])]"

definition gameStateVariables_basic :: jval where
  "gameStateVariables_basic = spec_doc [(''debug_target'', -40)] [(''input'', 13)]
     [msg_doc ''DEBUG VALUE: {debug_target}!'']"

section \<open>What they parse to\<close>

definition test_files :: "string \<rightharpoonup> jval" where
  "test_files =
     [''../social-gaming/test/json/gameSpec_addGlblMsg_basic.json'' \<mapsto> addGlblMsg_basic,
      ''../social-gaming/test/json/gameSpec_addGlblMsg_advanced.json'' \<mapsto> addGlblMsg_advanced,
      ''../social-gaming/test/json/gameSpec_addGlblMsg_invalid.json'' \<mapsto> addGlblMsg_invalid,
      ''../social-gaming/test/json/gameSpec_inputOutput_basic.json'' \<mapsto> inputOutput_basic,
      ''../social-gaming/test/json/gameSpec_gameStateVariables_basic.json'' \<mapsto> gameStateVariables_basic,
      ''../social-gaming/test/json/gameSpec_forEach_basic.json'' \<mapsto> game_doc,
      ''../social-gaming/test/json/gameSpec_forEach_differentElemName.json'' \<mapsto> forEach_differentElemName,
      ''../social-gaming/test/json/testServerConfig.json'' \<mapsto> config_doc]"

abbreviation test_parse :: "string \<Rightarrow> fault + GameData" where
  "test_parse file \<equiv> parseJsonFile_gameSpec (jval_lib test_files) 2 (''../social-gaming/test/json/'' @ file)"

lemma test_variables:
  "um_insert [] k (v :: int32) = [(k, v)]"
  "um_insert [(k, v)] k' (v' :: int32) = (if k = k' then [(k, v)] else [(k, v), (k', v')])"
  by (simp_all add: um_insert_def um_contains_def)

lemma plain_name: "processScopedVariables [] s = s"
  by (rule processScoped_no_alias) simp

definition input_rules :: "rule list" where
  "input_rules =
     [GlobalMessageRule ''About to collect input'',
      ForEachRule ''players'' ''player''
        [InputTextRule ''players.$player'' ''Please enter a number.'' (scoped_name ''player'' ''input''),
         GlobalMessageRule ''This was the input: {player.input}''],
      GlobalMessageRule ''Finished collecting input'', GlobalMessageRule ''About to produce output'',
      GlobalMessageRule ''Finished producing output'']"

definition input_game :: GameData where
  "input_game =
     \<lparr>isValid = True, gd_variableMap = [(''debug_target'', 0)], gd_perPlayerVariableMap = [(''input'', 0)],
      gd_topLevelRules = input_rules\<rparr>"

lemma input_names:
  "processScopedVariables [(''player'', ''players.$player'')] ''player'' = ''players.$player''"
  by code_simp

lemma test_foreach:
  assumes "parseRuleList (jval_lib fs) n [(e, ''players.$'' @ e)] [] rs = Inr (rules, al)"
  shows "parseRule (jval_lib fs) (Suc n) [] (foreach_doc ''players'' e rs) =
     Inr (Some (ForEachRule ''players'' e rules), um_erase al e)"
  using assms
  by (simp add: foreach_doc_def parseRule.simps parseForEachRule.simps Let_def um_insert_def um_contains_def)

lemma two_fuel: "parseRules (jval_lib fs) 2 al (JArr rs) = parseRuleList (jval_lib fs) 1 al [] rs"
  by (simp add: numeral_2_eq_2)

lemmas test_parsing = leaf_docs test_variables plain_name two_fuel parseVariables_def variables_doc_def

lemma input_game_parsed: "test_parse ''gameSpec_inputOutput_basic.json'' = Inr input_game"
proof -
  have "parseRuleList (jval_lib test_files) 0 [(''player'', ''players.$player'')] []
      [input_doc ''player'' ''Please enter a number.'' ''player.input'', msg_doc ''This was the input: {player.input}''] =
    Inr ([InputTextRule ''players.$player'' ''Please enter a number.'' (scoped_name ''player'' ''input''),
          GlobalMessageRule ''This was the input: {player.input}''], [(''player'', ''players.$player'')])"
    by (simp add: test_parsing input_names shipped_names(3))
  note loop = test_foreach [where e = "''player''", simplified, OF this]
  have "test_parse ''gameSpec_inputOutput_basic.json'' =
      Inr (if [(''debug_target'', 0 :: int32)] = [] \<or> input_rules = [] then invalidGameData
        else \<lparr>isValid = True, gd_variableMap = [(''debug_target'', 0)], gd_perPlayerVariableMap = [(''input'', 0)],
              gd_topLevelRules = input_rules\<rparr>)"
    by (rule spec_doc_parsed [where al = "[]"])
       (simp add: test_files_def inputOutput_basic_def, simp_all add: test_parsing loop input_rules_def um_erase_def)
  then show ?thesis by (simp add: input_rules_def input_game_def)
qed

definition gamer_game :: GameData where
  "gamer_game =
     \<lparr>isValid = True, gd_variableMap = [(''debug_target'', 0)], gd_perPlayerVariableMap = [(''Money'', 100)],
      gd_topLevelRules = counting_rules ''gamer'' ''Money'' ''This is gamer's ID: {gamer}''\<rparr>"

lemma gamer_names:
  "processScopedVariables [(''gamer'', ''players.$gamer'')] ''debug_target'' = ''debug_target''"
  "processScopedVariables [(''gamer'', ''players.$gamer'')] ''gamer.Money'' = scoped_name ''gamer'' ''Money''"
  by code_simp+

lemma gamer_game_read: "test_parse ''gameSpec_forEach_differentElemName.json'' = Inr gamer_game"
proof -
  have "parseRuleList (jval_lib test_files) 0 [(''gamer'', ''players.$gamer'')] []
      [msg_doc ''This is gamer's ID: {gamer}'', add_doc ''debug_target'' (JInt 1), add_doc ''gamer.Money'' (JInt 1)] =
    Inr (counting_round ''gamer'' ''Money'' ''This is gamer's ID: {gamer}'', [(''gamer'', ''players.$gamer'')])"
    by (simp add: test_parsing gamer_names counting_round_def)
  note loop = test_foreach [where e = "''gamer''", simplified, OF this]
  have "test_parse ''gameSpec_forEach_differentElemName.json'' =
      Inr (if [(''debug_target'', 0 :: int32)] = [] \<or> gd_topLevelRules gamer_game = [] then invalidGameData
        else \<lparr>isValid = True, gd_variableMap = [(''debug_target'', 0)], gd_perPlayerVariableMap = [(''Money'', 100)],
              gd_topLevelRules = gd_topLevelRules gamer_game\<rparr>)"
    by (rule spec_doc_parsed [where al = "[]"])
       (simp add: test_files_def forEach_differentElemName_def,
        simp_all add: test_parsing loop gamer_game_def counting_rules_def um_erase_def)
  then show ?thesis by (simp add: gamer_game_def counting_rules_def)
qed

lemma shipped_game_read: "test_parse ''gameSpec_forEach_basic.json'' = Inr shipped_game"
proof -
  obtain rs where rs: "game_rules_doc = JArr rs" by (simp add: game_rules_doc_def)
  have "test_parse ''gameSpec_forEach_basic.json'' =
      Inr (if [(''debug_target'', 0 :: int32)] = [] \<or> shipped_rules = [] then invalidGameData
        else \<lparr>isValid = True, gd_variableMap = [(''debug_target'', 0)], gd_perPlayerVariableMap = [(''input'', 0)],
              gd_topLevelRules = shipped_rules\<rparr>)"
    by (rule spec_doc_parsed [where al = "[]" and vs = "[(''debug_target'', 0)]" and ps = "[(''input'', 0)]" and rs = rs])
       (simp add: test_files_def game_doc_def spec_doc_def variables_doc_def rs,
        simp_all add: parseVariables_def variables_doc_def test_variables,
        simp add: shipped_rules_parsed [of _ 0, simplified rs, folded numeral_2_eq_2] del: parseRules.simps)
  then show ?thesis by (simp add: shipped_game_def shipped_rules_def)
qed

definition add_game :: GameData where
  "add_game =
     \<lparr>isValid = True, gd_variableMap = [(''debug_target'', 0)], gd_perPlayerVariableMap = [(''input'', 0)],
      gd_topLevelRules = [AddRule ''debug_target'' 1, GlobalMessageRule ''DEBUG VALUE: {debug_target}!'']\<rparr>"

lemma add_game_read: "test_parse ''gameSpec_addGlblMsg_basic.json'' = Inr add_game"
proof -
  have "test_parse ''gameSpec_addGlblMsg_basic.json'' =
      Inr (if [(''debug_target'', 0 :: int32)] = [] \<or> gd_topLevelRules add_game = [] then invalidGameData
        else \<lparr>isValid = True, gd_variableMap = [(''debug_target'', 0)], gd_perPlayerVariableMap = [(''input'', 0)],
              gd_topLevelRules = gd_topLevelRules add_game\<rparr>)"
    by (rule spec_doc_parsed [where al = "[]"])
       (simp add: test_files_def addGlblMsg_basic_def, simp_all add: test_parsing add_game_def)
  then show ?thesis by (simp add: add_game_def)
qed

lemma invalid_game_read: "test_parse ''gameSpec_addGlblMsg_invalid.json'' = Inr invalidGameData"
proof -
  have "test_parse ''gameSpec_addGlblMsg_invalid.json'' =
      Inr (if [(''debug_target'', 0 :: int32)] = [] \<or> ([] :: rule list) = [] then invalidGameData
        else \<lparr>isValid = True, gd_variableMap = [(''debug_target'', 0)], gd_perPlayerVariableMap = [], gd_topLevelRules = []\<rparr>)"
    by (rule spec_doc_parsed [where al = "[]"])
       (simp add: test_files_def addGlblMsg_invalid_def, simp_all add: test_parsing)
  then show ?thesis by simp
qed

definition advanced_rules :: "rule list" where
  "advanced_rules =
     [GlobalMessageRule ''first variable: {differently_named_variable}!'',
      GlobalMessageRule ''second variable: {another_variable}!'', GlobalMessageRule ''3rd variable: {largeVariable}!''] @
     replicate 5 (AddRule ''differently_named_variable'' 1) @
     [GlobalMessageRule ''first variable: {differently_named_variable}!''] @
     replicate 5 (AddRule ''differently_named_variable'' 1) @
     [GlobalMessageRule ''DEBUG VALUE: {debug_target}!'', AddRule ''another_variable'' 58,
      AddRule ''largeVariable'' 123456]"

definition advanced_game :: GameData where
  "advanced_game =
     \<lparr>isValid = True,
      gd_variableMap = [(''differently_named_variable'', -100), (''another_variable'', 42), (''largeVariable'', 123456)],
      gd_perPlayerVariableMap = [], gd_topLevelRules = advanced_rules\<rparr>"

lemma advanced_game_read: "test_parse ''gameSpec_addGlblMsg_advanced.json'' = Inr advanced_game"
proof -
  have "test_parse ''gameSpec_addGlblMsg_advanced.json'' =
      Inr (if gd_variableMap advanced_game = [] \<or> advanced_rules = [] then invalidGameData
        else \<lparr>isValid = True, gd_variableMap = gd_variableMap advanced_game, gd_perPlayerVariableMap = [],
              gd_topLevelRules = advanced_rules\<rparr>)"
    by (rule spec_doc_parsed [where al = "[]"])
       (simp add: test_files_def addGlblMsg_advanced_def,
        simp_all add: test_parsing advanced_game_def advanced_rules_def numeral_eq_Suc um_insert_def um_contains_def)
  then show ?thesis by (simp add: advanced_game_def advanced_rules_def)
qed

section \<open>The tests\<close>

text \<open>What a test does with a game: execute it for the given players and look at a variable.\<close>

definition test_state :: "GameData \<Rightarrow> PlayerID list \<Rightarrow> ExecState" where
  "test_state gd ids =
     \<lparr>game = mkGameState (gd_variableMap gd) ids (gd_perPlayerVariableMap gd), messages = []\<rparr>"

definition after_test :: "(string list \<Rightarrow> string list) \<Rightarrow> GameData \<Rightarrow> PlayerID list \<Rightarrow> string \<Rightarrow> int \<Rightarrow> bool" where
  "after_test ord gd ids x v \<longleftrightarrow>
     (\<exists>st. executeRules ord 0 (gd_topLevelRules gd) (test_state gd ids) = Inr (RuleSuccess, st) \<and>
           getValue (game st) x = Inr (get_ok (word_of_int v)))"

lemmas test_running = after_test_def test_state_def mkGameState_def executeAddRule_def getValue_def setValue_def
  getVariable_def setVariable_def executeGlobalMessageRule_def add_int_def um_contains_def um_insert_def um_erase_def

lemma basicAddTest: "after_test ord add_game [] ''debug_target'' 1"
  by (simp add: test_running add_game_def)

lemma manyAddGlobalMsgRules:
  "after_test ord advanced_game [] ''differently_named_variable'' (- 90)"
  "after_test ord advanced_game [] ''another_variable'' 100"
  "after_test ord advanced_game [] ''largeVariable'' 246912"
  by (simp_all add: test_running advanced_game_def advanced_rules_def numeral_eq_Suc)

definition variables_game :: GameData where
  "variables_game =
     \<lparr>isValid = True, gd_variableMap = [(''debug_target'', -40)], gd_perPlayerVariableMap = [(''input'', 13)],
      gd_topLevelRules = [GlobalMessageRule ''DEBUG VALUE: {debug_target}!'']\<rparr>"

lemma variables_game_read: "test_parse ''gameSpec_gameStateVariables_basic.json'' = Inr variables_game"
proof -
  have "test_parse ''gameSpec_gameStateVariables_basic.json'' =
      Inr (if gd_variableMap variables_game = [] \<or> gd_topLevelRules variables_game = [] then invalidGameData
        else \<lparr>isValid = True, gd_variableMap = gd_variableMap variables_game,
              gd_perPlayerVariableMap = gd_perPlayerVariableMap variables_game,
              gd_topLevelRules = gd_topLevelRules variables_game\<rparr>)"
    by (rule spec_doc_parsed [where al = "[]"])
       (simp add: test_files_def gameStateVariables_basic_def, simp_all add: test_parsing variables_game_def)
  then show ?thesis by (simp add: variables_game_def)
qed

text \<open>The state of the game state tests, for the players of a test.\<close>

definition variables_state :: "PlayerID list \<Rightarrow> GameState" where
  "variables_state ids = game (test_state variables_game ids)"

definition player_input :: "PlayerID \<Rightarrow> string \<Rightarrow> string" where
  "player_input p v = ''players.'' @ to_string p @ CHR ''.'' # v"

lemma test_store:
  "store (variables_state ids) (PlayerVar p v) = (if p \<in> set ids \<and> v = ''input'' then Some 13 else None)"
  by (simp add: variables_state_def test_state_def store_mkGameState variables_game_def del: store.simps)

lemma test_name:
  "CHR ''$'' \<notin> set v \<Longrightarrow>
   getValue (variables_state ids) (player_input p v) =
     Inr (if p \<in> set ids \<and> v = ''input'' then get_ok 13 else get_failed)"
  unfolding getValue_resolve player_input_def
  by (subst resolve_direct) (simp_all add: test_store del: store.simps)

lemma test_set:
  assumes "store gs (PlayerVar p ''input'') \<noteq> None"
  shows "\<exists>gs'. setValue gs (player_input p ''input'') w = Inr (SetSuccess, gs') \<and>
    store gs' = (store gs)(PlayerVar p ''input'' \<mapsto> w)"
proof -
  obtain r gs' where p: "put_location gs (PlayerVar p ''input'') w = (r, gs')" by fastforce
  have "r = SetSuccess" using put_location_fails [of gs "PlayerVar p ''input''" w] assms p by (cases r) auto
  moreover have "store gs' = (store gs)(PlayerVar p ''input'' \<mapsto> w)"
    using store_put_location [of gs "PlayerVar p ''input''" w gs'] p calculation by simp
  moreover have "setValue gs (player_input p ''input'') w = Inr (r, gs')"
    unfolding player_input_def by (subst setValue_resolve, subst resolve_direct) (simp, simp only: bindR_simps p)
  ultimately show ?thesis by simp
qed

lemma test_get:
  "getValue gs (player_input p ''input'') = Inr (result_of (store gs (PlayerVar p ''input'')))"
  unfolding player_input_def by (subst getValue_resolve, subst resolve_direct) simp_all

lemma test_set_fails:
  assumes "CHR ''$'' \<notin> set v" "p \<notin> set ids \<or> v \<noteq> ''input''"
  shows "setValue (variables_state ids) (player_input p v) w = Inr (SetFailure, variables_state ids)"
proof -
  have "store (variables_state ids) (PlayerVar p v) = None" using assms(2) by (auto simp: test_store simp del: store.simps)
  then have "put_location (variables_state ids) (PlayerVar p v) w = (SetFailure, variables_state ids)"
    using put_location_fails [of "variables_state ids" "PlayerVar p v" w] put_location_failure_unchanged
    by (metis prod.collapse)
  then show ?thesis
    unfolding player_input_def by (subst setValue_resolve, subst resolve_direct [OF assms(1)]) (simp only: bindR_simps)
qed

text \<open>
  What \<open>perPlayerSet_valid\<close> and \<open>valueSet_perPlayer_valid\<close> expect of their three players: every variable has its
  initial value, is set, one player after the other, and has its new value.
\<close>

definition set_test :: "PlayerID \<Rightarrow> PlayerID \<Rightarrow> PlayerID \<Rightarrow> bool" where
  "set_test a b c \<longleftrightarrow>
     (\<forall>p\<in>{a, b, c}. getValue (variables_state [a, b, c]) (player_input p ''input'') = Inr (get_ok 13)) \<and>
     (\<exists>g1 g2 g3.
        setValue (variables_state [a, b, c]) (player_input a ''input'') 45 = Inr (SetSuccess, g1) \<and>
        setValue g1 (player_input b ''input'') 55 = Inr (SetSuccess, g2) \<and>
        setValue g2 (player_input c ''input'') 10 = Inr (SetSuccess, g3) \<and>
        getValue g3 (player_input a ''input'') = Inr (get_ok 45) \<and>
        getValue g3 (player_input b ''input'') = Inr (get_ok 55) \<and>
        getValue g3 (player_input c ''input'') = Inr (get_ok 10))"

lemma test_sets:
  assumes "a \<noteq> b" "a \<noteq> c" "b \<noteq> c"
  shows "set_test a b c"
proof -
  let ?gs = "variables_state [a, b, c]"
  have s: "store ?gs (PlayerVar q ''input'') = (if q \<in> {a, b, c} then Some 13 else None)" for q
    by (simp add: test_store del: store.simps)
  obtain g1 where g1: "setValue ?gs (player_input a ''input'') 45 = Inr (SetSuccess, g1)"
    "store g1 = (store ?gs)(PlayerVar a ''input'' \<mapsto> 45)" using test_set [of ?gs a 45] assms by (auto simp: s simp del: store.simps)
  obtain g2 where g2: "setValue g1 (player_input b ''input'') 55 = Inr (SetSuccess, g2)"
    "store g2 = (store g1)(PlayerVar b ''input'' \<mapsto> 55)" using test_set [of g1 b 55] g1(2) assms by (auto simp: s simp del: store.simps)
  obtain g3 where g3: "setValue g2 (player_input c ''input'') 10 = Inr (SetSuccess, g3)"
    "store g3 = (store g2)(PlayerVar c ''input'' \<mapsto> 10)" using test_set [of g2 c 10] g2(2) g1(2) assms by (auto simp: s simp del: store.simps)
  have "getValue g3 (player_input a ''input'') = Inr (get_ok 45)" "getValue g3 (player_input b ''input'') = Inr (get_ok 55)"
    "getValue g3 (player_input c ''input'') = Inr (get_ok 10)"
    using assms by (simp_all add: test_get g3(2) g2(2) g1(2) del: store.simps)
  moreover have "\<forall>p\<in>{a, b, c}. getValue ?gs (player_input p ''input'') = Inr (get_ok 13)"
    using test_name [of "''input''" "[a, b, c]"] by simp
  ultimately show ?thesis unfolding set_test_def using g1(1) g2(1) g3(1) by blast
qed

lemma test_players:
  assumes "iteration_order ord"
  shows "getPlayerIDs ord (variables_state []) = Inr []"
    "\<exists>ids. getPlayerIDs ord (variables_state [123, 456, 789]) = Inr ids \<and> mset ids = {#123, 456, 789#}"
proof -
  have wf: "gs_wf (variables_state ids)" for ids
    unfolding variables_state_def test_state_def
    by (simp, rule gs_wf_mkGameState) (simp_all add: variables_game_def um_wf_def)
  have players: "players (variables_state ids) = set ids" for ids by (simp add: variables_state_def test_state_def)
  show "getPlayerIDs ord (variables_state []) = Inr []"
    by (rule getPlayerIDs_spec [OF assms wf, of "[]"]) (use players [of "[]"] in simp)
  show "\<exists>ids. getPlayerIDs ord (variables_state [123, 456, 789]) = Inr ids \<and> mset ids = {#123, 456, 789#}"
  proof (rule getPlayerIDs_spec [OF assms wf, of "[123, 456, 789]"])
    fix ids assume "getPlayerIDs ord (variables_state [123, 456, 789]) = Inr ids" "distinct ids"
      "set ids = players (variables_state [123, 456, 789])"
    moreover from this have "mset ids = mset [123, 456, 789]" using players by (subst set_eq_iff_mset_eq_distinct [symmetric]) simp_all
    ultimately show ?thesis by simp
  qed
qed

lemma test_globals:
  "getValue (variables_state []) ''debug_target'' = Inr (get_ok (- 40))"
  "getValue (variables_state []) ''nonexistent_variable'' = Inr get_failed"
  "\<exists>gs. setValue (variables_state []) ''debug_target'' 20 = Inr (SetSuccess, gs) \<and>
        getValue gs ''debug_target'' = Inr (get_ok 20)"
  "setValue (variables_state []) ''nonexistent_variable'' 20 = Inr (SetFailure, variables_state [])"
  by (simp_all add: variables_state_def test_running variables_game_def)

text \<open>The games with a \<open>foreach\<close>, for any players: before and after.\<close>

lemma counting_before:
  assumes "test_state gd ids = counting_start v w ids []" "CHR ''$'' \<notin> set v"
  shows "getValue (game (test_state gd ids)) ''debug_target'' = Inr (get_ok 0)"
    "p \<in> set ids \<Longrightarrow> getValue (game (test_state gd ids)) (''players.'' @ to_string p @ CHR ''.'' # v) = Inr (get_ok w)"
  using counting_start_state(1) [of v w ids "[]"]
  by (simp_all add: assms(1) getValue_resolve resolve_debug_target resolve_direct [OF assms(2)] counting_store_def
      del: store.simps getValue_debug_target append.simps)

lemma counting_test:
  assumes "iteration_order ord" "gd_topLevelRules gd = counting_rules e v m" "test_state gd ids = counting_start v w ids []"
    and "CHR ''.'' \<notin> set e" "CHR ''$'' \<notin> set v" "card (set ids) + 2 < 2 ^ 31" "sint w + 1 < 2 ^ 31"
  shows "after_test ord gd ids ''debug_target'' (int (card (set ids) + 2))"
    "p \<in> set ids \<Longrightarrow> after_test ord gd ids (''players.'' @ to_string p @ CHR ''.'' # v) (sint w + 1)"
proof -
  obtain st where st: "executeRules ord 0 (gd_topLevelRules gd) (test_state gd ids) = Inr (RuleSuccess, st)"
    "store (game st) = counting_store v (w + 1) (set ids) (card (set ids) + 2)"
    using counting_execute [OF assms(1,4-7), of 0 m "[]"] assms(2,3) by auto
  have "getValue (game st) ''debug_target'' = Inr (get_ok (word_of_int (int (card (set ids) + 2))))"
    using st(2) by (simp add: getValue_resolve resolve_debug_target counting_store_def del: store.simps getValue_debug_target)
  moreover have "getValue (game st) (''players.'' @ to_string p @ CHR ''.'' # v) = Inr (get_ok (word_of_int (sint w + 1)))"
    if "p \<in> set ids"
    using st(2) that
    by (simp add: getValue_resolve resolve_direct [OF assms(5)] counting_store_def del: store.simps append.simps)
  ultimately show "after_test ord gd ids ''debug_target'' (int (card (set ids) + 2))"
    "p \<in> set ids \<Longrightarrow> after_test ord gd ids (''players.'' @ to_string p @ CHR ''.'' # v) (sint w + 1)"
    using st(1) by (auto simp: after_test_def)
qed

text \<open>What the two tests of a \<open>foreach\<close> look at, with their three players.\<close>

definition foreach_test :: "(string list \<Rightarrow> string list) \<Rightarrow> GameData \<Rightarrow> string \<Rightarrow> int \<Rightarrow> int \<Rightarrow> bool" where
  "foreach_test ord gd v before after \<longleftrightarrow>
     getValue (game (test_state gd [123, 456, 789])) ''debug_target'' = Inr (get_ok 0) \<and>
     after_test ord gd [123, 456, 789] ''debug_target'' 5 \<and>
     (\<forall>p \<in> {123, 456, 789}.
        getValue (game (test_state gd [123, 456, 789])) (''players.'' @ to_string p @ CHR ''.'' # v) =
          Inr (get_ok (word_of_int before)) \<and>
        after_test ord gd [123, 456, 789] (''players.'' @ to_string p @ CHR ''.'' # v) after)"

lemma foreach_test_counting:
  assumes "iteration_order ord" "gd_topLevelRules gd = counting_rules e v m"
    and "test_state gd [123, 456, 789] = counting_start v w [123, 456, 789] []"
    and "CHR ''.'' \<notin> set e" "CHR ''$'' \<notin> set v" "sint w + 1 < 2 ^ 31"
  shows "foreach_test ord gd v (sint w) (sint w + 1)"
proof -
  have "card (set [123, 456, 789 :: PlayerID]) = 3" by simp
  then show ?thesis
    using counting_test [OF assms(1-5) _ assms(6)] counting_before [OF assms(3,5)]
    by (simp add: foreach_test_def del: getValue_debug_target append.simps)
qed

lemma foreach_tests:
  assumes "iteration_order ord"
  shows "foreach_test ord shipped_game ''input'' 0 1" "foreach_test ord gamer_game ''Money'' 100 101"
proof -
  have "sint (100 :: int32) = 100" "sint (0 :: int32) = 0" by simp_all
  then show "foreach_test ord shipped_game ''input'' 0 1" "foreach_test ord gamer_game ''Money'' 100 101"
    using foreach_test_counting [OF assms, of shipped_game "''player''" "''input''" "''This is player's ID: {player}''" 0]
      foreach_test_counting [OF assms, of gamer_game "''gamer''" "''Money''" "''This is gamer's ID: {gamer}''" 100]
    by (simp_all add: test_state_def counting_start_def shipped_game_def gamer_game_def shipped_rules_counting)
qed

section \<open>The input rule\<close>

text \<open>An element by itself, without a variable, names nothing: the lookup runs past the end of the name.\<close>

lemma resolve_element:
  assumes "CHR ''.'' \<notin> set e" "scope gs e = Some pid"
  shows "resolve gs (''players.$'' @ e) = Inl PastEndIterator"
proof -
  have "substName gs (''players'' @ CHR ''.'' # CHR ''$'' # e) = Some (''players'' @ CHR ''.'' # to_string pid)"
    using assms by (subst substName_Cons, simp) (simp add: substName_def substComponent_def split_on_notin)
  moreover have "sublist ''players'' (''players.$'' @ e)" by (rule prefix_imp_sublist) simp
  moreover have "extractPlayerVariableInfo (''players'' @ CHR ''.'' # to_string pid) = Inl PastEndIterator"
    by (subst extract_spec, subst split_on_append) (simp_all add: split_on_notin stoul_to_string)
  ultimately show ?thesis by (simp add: resolve_def parseRuntimeVariables_eq)
qed

lemma input_rules_undefined:
  assumes "iteration_order ord" "gs_wf (game st)" "players (game st) \<noteq> {}" "scope (game st) ''player'' = None"
  shows "executeRules ord n input_rules st = Inl PastEndIterator"
proof -
  let ?m = "st\<lparr>messages := messages st @ [''Msg: About to collect input'']\<rparr>"
  let ?body = "[InputTextRule ''players.$player'' ''Please enter a number.'' (scoped_name ''player'' ''input''),
     GlobalMessageRule ''This was the input: {player.input}'']"
  have "executeRule ord n (ForEachRule ''players'' ''player'' ?body) ?m = Inl PastEndIterator"
  proof (rule getPlayerIDs_spec [OF assms(1,2)])
    fix ids assume ids: "getPlayerIDs ord (game st) = Inr ids" "distinct ids" "set ids = players (game st)"
    then obtain p ps where p: "ids = p # ps" using assms(3) by (cases ids) auto
    obtain gs where set: "setActiveScopeVariable (game st) ''player'' p = (SetSuccess, gs)"
      using setActive_ok [OF assms(4)] by blast
    have "resolve gs ''players.$player'' = Inl PastEndIterator"
      using resolve_element [of "''player''" gs p] setActive_spec [OF set] by simp
    then have "executeRules ord n ?body (?m\<lparr>game := gs\<rparr>) = Inl PastEndIterator"
      by (simp add: executeInputTextRule_def getValue_resolve)
    with ids(1) p set show ?thesis by simp
  qed
  then show ?thesis by (simp add: input_rules_def executeGlobalMessageRule_def del: executeRule.simps(5))
qed

section \<open>Properties\<close>

text \<open>
  C33. What the repository's unit tests expect holds of the model, each test with its own players: of \<open>ParserTests\<close>
  and \<open>GameRuleTests\<close>, the documents and texts they call valid are, the invalid ones and the missing ones are not,
  and the variables have the values they expect before and after the rules, for any order of iteration; of
  \<open>GameStateTests\<close>, the players, and every \<open>getValue\<close> and \<open>setValue\<close>, those that must fail included.
\<close>

theorem unit_tests_hold:
  assumes "iteration_order ord"
  shows "map test_parse [''gameSpec_addGlblMsg_basic.json'', ''gameSpec_addGlblMsg_advanced.json'',
       ''gameSpec_addGlblMsg_invalid.json'', ''notAFilePath.json'', ''gameSpec_inputOutput_basic.json'',
       ''gameSpec_forEach_basic.json'', ''gameSpec_forEach_differentElemName.json'',
       ''gameSpec_gameStateVariables_basic.json''] =
     map Inr [add_game, advanced_game, invalidGameData, invalidGameData, input_game, shipped_game, gamer_game,
       variables_game] \<and>
   map isValid [add_game, advanced_game, invalidGameData, input_game, shipped_game, gamer_game, variables_game] =
     [True, True, False, True, True, True, True] \<and>
   after_test ord add_game [] ''debug_target'' 1 \<and>
   after_test ord advanced_game [] ''differently_named_variable'' (- 90) \<and>
   after_test ord advanced_game [] ''another_variable'' 100 \<and>
   after_test ord advanced_game [] ''largeVariable'' 246912 \<and>
   foreach_test ord shipped_game ''input'' 0 1 \<and>
   foreach_test ord gamer_game ''Money'' 100 101 \<and>
   getValue (variables_state []) ''debug_target'' = Inr (get_ok (- 40)) \<and>
   getValue (variables_state []) ''nonexistent_variable'' = Inr get_failed \<and>
   (\<exists>gs. setValue (variables_state []) ''debug_target'' 20 = Inr (SetSuccess, gs) \<and>
         getValue gs ''debug_target'' = Inr (get_ok 20)) \<and>
   setValue (variables_state []) ''nonexistent_variable'' 20 = Inr (SetFailure, variables_state []) \<and>
   getValue (variables_state [123, 456, 789]) ''players.123.input'' = Inr (get_ok 13) \<and>
   getValue (variables_state [123, 456, 789]) ''players.456.input'' = Inr (get_ok 13) \<and>
   getValue (variables_state [123, 456, 789]) ''players.789.input'' = Inr (get_ok 13) \<and>
   getValue (variables_state [123, 456, 789]) ''players.123456789.input'' = Inr get_failed \<and>
   getValue (variables_state [123, 456, 789]) (player_input 123 ''nonexistent_variable'') = Inr get_failed \<and>
   setValue (variables_state [123, 456, 789]) ''players.123456789.input'' 13 =
     Inr (SetFailure, variables_state [123, 456, 789]) \<and>
   setValue (variables_state [123, 456, 789]) (player_input 123 ''nonexistent_variable'') 13 =
     Inr (SetFailure, variables_state [123, 456, 789]) \<and>
   set_test 123 456 789 \<and> set_test 123 94195760792208 789 \<and>
   getPlayerIDs ord (variables_state []) = Inr [] \<and>
   (\<exists>ids. getPlayerIDs ord (variables_state [123, 456, 789]) = Inr ids \<and> mset ids = {#123, 456, 789#}) \<and>
   parseJsonFile_serverConfig (jval_lib test_files) ''../social-gaming/test/json/testServerConfig.json'' = config_doc \<and>
   parseJsonFile_serverConfig (jval_lib test_files) ''../social-gaming/test/json/invalid.json'' = JNull \<and>
   parseJsonString_serverConfig (jval_lib [t \<mapsto> zen_game]) t = JNull \<and>
   parseJsonString_serverConfig (jval_lib [t \<mapsto> config_doc]) t = config_doc"
proof -
  have missing: "test_parse ''notAFilePath.json'' = Inr invalidGameData"
    by (simp add: parseJsonFile_gameSpec_def parseJson_def safeParse_def test_files_def)
  have ids: "player_input 123 ''input'' = ''players.123.input''" "player_input 456 ''input'' = ''players.456.input''"
    "player_input 789 ''input'' = ''players.789.input''" "player_input 123456789 ''input'' = ''players.123456789.input''"
    by (simp_all add: player_input_def to_string_def nat_to_string.simps digit_char_def)
  have config: "parseJsonFile_serverConfig (jval_lib test_files) ''../social-gaming/test/json/testServerConfig.json'' = config_doc"
    by (simp add: parseJsonFile_serverConfig_def parseJson_def safeParse_def test_files_def config_doc_def
        validateJsonObject_def validateJsonContent_serverConfig_def validate_root_iff SC_ROOT_ELEMS_def)
  have names: "getValue (variables_state [123, 456, 789]) ''players.123.input'' = Inr (get_ok 13)"
    "getValue (variables_state [123, 456, 789]) ''players.456.input'' = Inr (get_ok 13)"
    "getValue (variables_state [123, 456, 789]) ''players.789.input'' = Inr (get_ok 13)"
    "getValue (variables_state [123, 456, 789]) ''players.123456789.input'' = Inr get_failed"
    "getValue (variables_state [123, 456, 789]) (player_input 123 ''nonexistent_variable'') = Inr get_failed"
    using test_name [of "''input''" "[123, 456, 789]" 123] test_name [of "''input''" "[123, 456, 789]" 456]
      test_name [of "''input''" "[123, 456, 789]" 789] test_name [of "''input''" "[123, 456, 789]" 123456789]
      test_name [of "''nonexistent_variable''" "[123, 456, 789]" 123] unfolding ids by simp_all
  have fails: "setValue (variables_state [123, 456, 789]) ''players.123456789.input'' 13 =
      Inr (SetFailure, variables_state [123, 456, 789])"
    "setValue (variables_state [123, 456, 789]) (player_input 123 ''nonexistent_variable'') 13 =
      Inr (SetFailure, variables_state [123, 456, 789])"
    using test_set_fails [of "''input''" 123456789 "[123, 456, 789]" 13]
      test_set_fails [of "''nonexistent_variable''" 123 "[123, 456, 789]" 13] unfolding ids by simp_all
  have sets: "set_test 123 456 789" "set_test 123 94195760792208 789" by (rule test_sets; simp)+
  have configs: "parseJsonFile_serverConfig (jval_lib test_files) ''../social-gaming/test/json/invalid.json'' = JNull"
    "parseJsonString_serverConfig (jval_lib [t \<mapsto> zen_game]) t = JNull"
    "parseJsonString_serverConfig (jval_lib [t \<mapsto> config_doc]) t = config_doc"
    by (simp_all add: parseJsonFile_serverConfig_def parseJsonString_serverConfig_def parseJson_def safeParse_def
        test_files_def config_doc_def zen_game_def validateJsonObject_def validateJsonContent_serverConfig_def
        validate_root_iff SC_ROOT_ELEMS_def)
  have docs: "map test_parse [''gameSpec_addGlblMsg_basic.json'', ''gameSpec_addGlblMsg_advanced.json'',
       ''gameSpec_addGlblMsg_invalid.json'', ''notAFilePath.json'', ''gameSpec_inputOutput_basic.json'',
       ''gameSpec_forEach_basic.json'', ''gameSpec_forEach_differentElemName.json'',
       ''gameSpec_gameStateVariables_basic.json''] =
     map Inr [add_game, advanced_game, invalidGameData, invalidGameData, input_game, shipped_game, gamer_game,
       variables_game]"
    using add_game_read advanced_game_read invalid_game_read missing input_game_parsed shipped_game_read gamer_game_read
      variables_game_read by simp
  have valid: "map isValid [add_game, advanced_game, invalidGameData, input_game, shipped_game, gamer_game, variables_game] =
     [True, True, False, True, True, True, True]"
    by (simp add: add_game_def advanced_game_def invalidGameData_def input_game_def shipped_game_def gamer_game_def
        variables_game_def)
  show ?thesis
    by (intro conjI; rule docs valid basicAddTest manyAddGlobalMsgRules foreach_tests [OF assms]
        test_globals names fails sets test_players [OF assms] config configs)
qed

text \<open>With the players walked in the reverse order of their map.\<close>

theorem unit_tests_hold_witness:
  "test_parse ''gameSpec_forEach_differentElemName.json'' = Inr gamer_game \<and>
   foreach_test rev gamer_game ''Money'' 100 101 \<and> after_test rev add_game [] ''debug_target'' 1 \<and>
   set_test 123 94195760792208 789"
  using unit_tests_hold [OF iteration_order_rev] by simp

text \<open>
  C32. The document with an input rule is accepted as a valid game, and playing it is undefined: with at
  least one player, and in any order, the first prompt looks up the name of a player without a variable
  and moves an iterator past its end.
\<close>

theorem input_game_undefined:
  assumes "iteration_order ord" "ids \<noteq> []"
  shows "test_parse ''gameSpec_inputOutput_basic.json'' = Inr input_game \<and> isValid input_game \<and>
    executeRules ord n (gd_topLevelRules input_game) (test_state input_game ids) = Inl PastEndIterator"
proof -
  have "gs_wf (game (test_state input_game ids))"
    unfolding test_state_def by (simp, rule gs_wf_mkGameState) (simp_all add: input_game_def um_wf_def)
  then have "executeRules ord n input_rules (test_state input_game ids) = Inl PastEndIterator"
    using assms(2) by (intro input_rules_undefined [OF assms(1)]) (simp_all add: test_state_def)
  then show ?thesis using input_game_parsed by (simp add: input_game_def)
qed

theorem input_game_undefined_witness:
  "executeRules rev 0 input_rules (test_state input_game [7, 8]) = Inl PastEndIterator"
  using input_game_undefined [OF iteration_order_rev, of "[7, 8]" 0] by (simp add: input_game_def)

end
