(* ===== verification/Log_Config.thy ===== *)
theory Log_Config
  imports Numbers
begin

text \<open>
  The prefix of log lines (\<open>log/config/logconfig.cpp\<close>). What glog hands to the callback is a record of
  the fields the code reads; the stream is the text written to it, with the default fill character
  and field width.
\<close>

section \<open>Code\<close>

record LogMessageTime =
  tm_year :: int32
  tm_month :: int32
  tm_day :: int32
  tm_hour :: int32
  tm_min :: int32
  tm_sec :: int32

record LogMessageInfo =
  severity :: string
  filename :: string
  line_number :: int32
  time :: LogMessageTime

definition getFullSeverity :: "char \<Rightarrow> string" where
  "getFullSeverity c =
     (if c = CHR ''I'' then ''INFO''
      else if c = CHR ''W'' then ''WARNING''
      else if c = CHR ''E'' then ''ERROR''
      else if c = CHR ''F'' then ''FATAL''
      else ''INFO'')"

text \<open>\<open>std::setw\<close> pads the next output on the left with the fill character, a blank.\<close>

definition setw :: "nat \<Rightarrow> int32 \<Rightarrow> string" where
  "setw w v = replicate (w - length (int_to_string v)) CHR '' '' @ int_to_string v"

text \<open>The severity is a C string, whose first character is its terminator when it is empty.\<close>

definition customPrefix :: "string \<Rightarrow> LogMessageInfo \<Rightarrow> fault + string" where
  "customPrefix s l =
     bindR (add_int 1900 (tm_year (time l))) (\<lambda>year.
     bindR (add_int 1 (tm_month (time l))) (\<lambda>month.
       Inr (s @ ''['' @ getFullSeverity ((severity l @ [CHR 0x00]) ! 0) @ '': '' @
            setw 4 year @ ''-'' @ setw 2 month @ ''-'' @ setw 2 (tm_day (time l)) @ ''T'' @
            setw 2 (tm_hour (time l)) @ '':'' @ setw 2 (tm_min (time l)) @ '':'' @ setw 2 (tm_sec (time l)) @
            ''Z '' @ filename l @ '':'' @ int_to_string (line_number l) @ '']'' @ ''  '')))"

section \<open>Columns\<close>

lemma nat_to_string_short:
  "n < 10 \<Longrightarrow> length (nat_to_string n) = 1"
  "10 \<le> n \<Longrightarrow> n < 100 \<Longrightarrow> length (nat_to_string n) = 2"
  by (simp_all add: nat_to_string.simps [of n] nat_to_string.simps [of "n div 10"])

lemma nat_to_string_year:
  assumes "1000 \<le> n" "n < 10000"
  shows "length (nat_to_string n) = 4"
proof -
  have "10 \<le> n div 10" "10 \<le> n div 100" "n div 100 < 100" using assms by linarith+
  then show ?thesis
    using assms(1) nat_to_string_short(2) [of "n div 100"]
    by (simp add: nat_to_string.simps [of n] nat_to_string.simps [of "n div 10"] div_mult2_eq [symmetric])
qed

lemma int_to_string_nonneg: "0 \<le> sint v \<Longrightarrow> int_to_string v = nat_to_string (nat (sint v))"
  by (simp add: int_to_string_def)

lemma setw_two: "0 \<le> sint v \<Longrightarrow> sint v < 100 \<Longrightarrow> length (setw 2 v) = 2"
  using nat_to_string_short [of "nat (sint v)"]
  by (cases "sint v < 10") (simp_all add: setw_def int_to_string_nonneg)

lemma setw_four: "1000 \<le> sint v \<Longrightarrow> sint v < 10000 \<Longrightarrow> length (setw 4 v) = 4"
  using nat_to_string_year [of "nat (sint v)"] by (simp add: setw_def int_to_string_nonneg)

text \<open>A time as \<open>struct tm\<close> has it, of a year with four digits.\<close>

definition valid_time :: "LogMessageTime \<Rightarrow> bool" where
  "valid_time t \<longleftrightarrow>
     - 900 \<le> sint (tm_year t) \<and> sint (tm_year t) < 8100 \<and> 0 \<le> sint (tm_month t) \<and> sint (tm_month t) < 12 \<and>
     1 \<le> sint (tm_day t) \<and> sint (tm_day t) \<le> 31 \<and> 0 \<le> sint (tm_hour t) \<and> sint (tm_hour t) < 24 \<and>
     0 \<le> sint (tm_min t) \<and> sint (tm_min t) < 60 \<and> 0 \<le> sint (tm_sec t) \<and> sint (tm_sec t) \<le> 60"

lemma add_int_small:
  assumes "- (2 ^ 31) \<le> sint a + sint b" "sint a + sint b < 2 ^ 31"
  shows "\<exists>c. add_int a b = Inr c \<and> sint c = sint a + sint b"
proof -
  have "\<exists>c. add_int a b = Inr c" using assms by (auto simp: add_int_def)
  then show ?thesis using add_int_sint by blast
qed

section \<open>Properties\<close>

text \<open>
  For every valid time the prefix is produced without a fault, and its time takes the
  same nineteen columns, whatever the date: one sees the numbers aligned. The columns are filled with
  blanks, so a number below ten is not written as the format with \<open>T\<close> and \<open>Z\<close> has it.
\<close>

theorem log_prefix_columns:
  assumes "valid_time (time l)"
  shows "\<exists>stamp. customPrefix s l =
      Inr (s @ ''['' @ getFullSeverity ((severity l @ [CHR 0x00]) ! 0) @ '': '' @ stamp @ ''Z '' @
           filename l @ '':'' @ int_to_string (line_number l) @ '']  '') \<and>
    length stamp = 19 \<and>
    (sint (tm_day (time l)) < 10 \<longrightarrow> stamp ! 8 = CHR '' '')"
proof -
  let ?t = "time l"
  note v = assms [unfolded valid_time_def]
  obtain y where y: "add_int 1900 (tm_year ?t) = Inr y" "sint y = 1900 + sint (tm_year ?t)"
    using add_int_small [of 1900 "tm_year ?t"] v by auto
  obtain m where m: "add_int 1 (tm_month ?t) = Inr m" "sint m = 1 + sint (tm_month ?t)"
    using add_int_small [of 1 "tm_month ?t"] v by auto
  let ?stamp = "setw 4 y @ ''-'' @ setw 2 m @ ''-'' @ setw 2 (tm_day ?t) @ ''T'' @
      setw 2 (tm_hour ?t) @ '':'' @ setw 2 (tm_min ?t) @ '':'' @ setw 2 (tm_sec ?t)"
  have len: "length (setw 4 y) = 4" "length (setw 2 m) = 2" "length (setw 2 (tm_day ?t)) = 2"
    "length (setw 2 (tm_hour ?t)) = 2" "length (setw 2 (tm_min ?t)) = 2" "length (setw 2 (tm_sec ?t)) = 2"
    using v y(2) m(2) by (simp_all add: setw_two setw_four)
  have "setw 2 (tm_day ?t) ! 0 = CHR '' ''" if "sint (tm_day ?t) < 10"
    using that v nat_to_string_short(1) [of "nat (sint (tm_day ?t))"] by (simp add: setw_def int_to_string_nonneg)
  then have "sint (tm_day ?t) < 10 \<longrightarrow> ?stamp ! 8 = CHR '' ''" using len by (simp add: nth_append)
  then show ?thesis
    using y(1) m(1) len by (intro exI [of _ ?stamp]) (simp add: customPrefix_def)
qed

theorem log_prefix_columns_witness:
  "\<exists>stamp. customPrefix [] \<lparr>severity = ''WARNING'', filename = ''main.cpp'', line_number = 7,
     time = \<lparr>tm_year = 121, tm_month = 2, tm_day = 5, tm_hour = 9, tm_min = 30, tm_sec = 0\<rparr>\<rparr> =
       Inr (''[WARNING: '' @ stamp @ ''Z main.cpp:'' @ int_to_string 7 @ '']  '') \<and>
     length stamp = 19 \<and> stamp ! 8 = CHR '' ''"
  using log_prefix_columns [of "\<lparr>severity = ''WARNING'', filename = ''main.cpp'', line_number = 7,
     time = \<lparr>tm_year = 121, tm_month = 2, tm_day = 5, tm_hour = 9, tm_min = 30, tm_sec = 0\<rparr>\<rparr>" "[]"]
  by (auto simp: valid_time_def getFullSeverity_def)

end
