(* ===== verification/Spec2Isabelle.thy ===== *)
theory Spec2Isabelle
  imports Program_Main Lobby_Progress Web_Server Unit_Tests Log_Config
begin

text \<open>
  A verification development of the social gaming program: a server that runs games described by
  JSON specifications for players connected by web sockets, and the terminal client that joins it.

  \<^bold>\<open>Parts of the program and how they interact.\<close> \<open>main\<close> either configures and runs a
  \<open>GameServer\<close> or joins a lobby as a client, which shows a chat window in the terminal. \<open>GameServer::setupConfig\<close> reads the server's
  configuration (\<open>ServerConfig\<close>) and, through it, the game's specification: \<open>JsonParser\<close> reads and
  validates a document, \<open>VariableParser\<close> and \<open>RuleParser\<close> turn its members into variables and rules,
  and \<open>GameData\<close> carries them. \<open>GameServer::run\<close> polls the network server, processes the messages
  it received and broadcasts the answers; the network server calls back when clients come and go.
  The command \<open>/execute\<close> builds a \<open>GameState\<close> for the connected players and executes the rules
  (\<open>GameRules\<close>) on it.

  \<^bold>\<open>Theories.\<close>
  \<^item> \<open>Prelude\<close>: faults, computations that may fault, and splitting and joining of strings.
  \<^item> \<open>Numbers\<close>: the C++ integers as words, signed addition with its overflow, \<open>std::to_string\<close>,
    \<open>std::stoul\<close>, \<open>find\<close> and \<open>substr\<close> of \<open>std::string\<close> on positions that wrap around.
  \<^item> \<open>Unordered_Map\<close>: \<open>std::unordered_map\<close> as an association list, with the order of iteration as a
    parameter, and the locale \<open>keyed_store\<close> of stores of existing keys.
  \<^item> \<open>Game_State\<close>: \<open>src/GameState\<close>. The record \<open>GameState\<close> has the three maps of the class; each method
    is a definition of its name. The abstract state is \<open>store\<close>, a map from locations to values, and
    \<open>resolve\<close> says which location a name denotes.
  \<^item> \<open>Game_Rules\<close>, \<open>Rule_Termination\<close>, \<open>Rule_Semantics\<close>: \<open>src/GameRules\<close>. A class of rules is a
    constructor of \<open>rule\<close>, its \<open>executeRuleImpl\<close> an equation of \<open>executeRule\<close>. \<open>Rule_Effects\<close>: a reference
    semantics of rules that counts what they add up to, and when they succeed. \<open>Counting_Game\<close>: the games of
    the repository that loop over the players.
  \<^item> \<open>Json_Library\<close>: the JSON library as a record of its member functions, the documented behaviour
    the proofs use (\<open>json_throws\<close>, \<open>json_types\<close>, \<open>json_nesting\<close>) and a concrete instance.
  \<^item> \<open>Rule_Parser\<close>, \<open>Json_Parser\<close>: \<open>src/JsonParser\<close> and \<open>src/GameData\<close>. \<open>Rule_Documents\<close>: the inverse of
    the parsers, a printer of games as documents.
  \<^item> \<open>Server_Config\<close>: \<open>src/ServerConfig\<close> and the client's \<open>parseInviteCode\<close>.
  \<^item> \<open>Net_Server\<close>: channels, the map of channels and the message queue of
    \<open>lib/networking/src/Server.cpp\<close>; the locales \<open>connection_tracker\<close> and \<open>broadcaster\<close> state what the
    server and an application promise each other. \<open>Http_Session\<close>: the HTTP sessions of the same file.
    \<open>Web_Server\<close>: acceptor, sessions and channels as one system.
  \<^item> \<open>Game_Server\<close>, \<open>Server_Behaviour\<close>: \<open>src/GameServer\<close> and \<open>src/User\<close>. \<open>Chat_Server\<close>:
    \<open>tools/chatserver\<close>. Both interpret the two locales on their own handlers. \<open>Game_Room\<close>: the game server
    as an abstract chat room, which it refines.
  \<^item> \<open>Playable_Game\<close>: any game that passes a check of its names, played on the server.
    \<open>Shipped_Game\<close>: the configuration and the game of the repository, from the documents to what the
    players see. \<open>Unit_Tests\<close>: the documents of the unit tests, and what the tests expect.
  \<^item> \<open>Net_Client\<close>: \<open>lib/networking/src/Client.cpp\<close> and the loop of \<open>executeJoinLobby\<close> of \<open>src/main.cpp\<close>
    over entered lines. \<open>Client_Server_Link\<close>: a channel of the server and its client as one system; the
    locale \<open>refinement_map\<close> is interpreted on it. \<open>Link_Delivery\<close>: that what is sent
    can arrive. \<open>Lobby_Session\<close>: the main loops of the game server and of a lobby over such a link.
    \<open>Lobby_Party\<close>: the server with any number of lobbies. \<open>Lobby_Progress\<close>: each of them can catch up.
  \<^item> \<open>Chat_Window\<close>: \<open>src/GameClient\<close>, and its copy in \<open>tools/chatclient\<close>. The curses and form libraries
    are a record of what their calls do; \<open>form_library\<close> states what is documented of them.
    \<open>Chat_Client\<close>: the window in the loop of \<open>executeJoinLobby\<close>, and \<open>tools/chatclient/chatclient.cpp\<close>.
  \<^item> \<open>Log_Config\<close>: \<open>log/config\<close>, the prefix of log lines. \<open>Program_Main\<close>: the \<open>main\<close> functions of the
    program and of the chat server, with the reading of their page.

  \<^bold>\<open>How code is represented.\<close> A function that can throw or whose behaviour can be undefined returns a
  sum, with the fault on the left: standard exceptions (\<open>InvalidArgument\<close>, \<open>OutOfRange\<close>, \<open>TypeError\<close>),
  iterators moved past the end, signed overflow, reads of indeterminate values. \<open>OutOfFuel\<close> is the
  model's own: rule loops and rule lists take a natural number as fuel. For rules, an outcome other
  than \<open>OutOfFuel\<close> is the same with any more fuel, rules without a loop need none, and the counting
  loop needs as much as it has iterations; for the parser, the nesting depth of the JSON value is
  enough. A loop that runs forever in the code is one for which no fuel suffices. Asynchronous
  operations are started and not completed until an event completes them, and an event is enabled
  only when its operation is outstanding; which events happen, and in which order, is left open.
  A channel is identified by its address, as the code identifies connections. Of the network is assumed that an
  end reads what the other end's writes have handed to the stream, in order. The loops of the programs end as
  they do in the code: \<open>system_step\<close> and \<open>party_step\<close> have their conditions, exceptions and faults.

  \<^bold>\<open>What is taken for granted of connections.\<close> The theorems that join the two ends of a connection speak of it as
  long as the object of the server's channel is not released, and the client has not misused its stream
  (\<open>cl_misused\<close>): a stream must not be given a write while it is not open or another is outstanding, which the
  server observes and the client does not (\<open>lobby_sends_overlap\<close>, \<open>lobby_misuses_stream\<close>).

  \<^bold>\<open>What the lemmas show.\<close>
  \<^item> Games. The game state refines a store, whatever name is used; its names are substituted and taken
    apart as specified, and the names on which the code runs past the end of a string are characterised.
    Rules keep the frame of the state and restore the scope when they succeed; \<open>forEach\<close> updates every player
    once in any order of iteration; statically checked names exclude every fault but overflow; loops end,
    overflow or diverge as stated. Rules that succeed add to every variable what a count over the players says,
    in any order, and while there is room in the range of \<open>int\<close> they succeed exactly when a check passes.
  \<^item> Documents. The parsers return on every document, accept exactly the documents of the expected shape, and
    deliver rules that terminate; a game written down as a document is read back.
  \<^item> Server. The network server writes in order with one write outstanding, and its applications' clients are
    exactly its registered connections; a socket passes from an HTTP session to one channel, as long as the
    session was asked for nothing the server does not have. The game server keeps its users in step, processes
    each message once, and answers everybody: seen from its players it is a chat room, in which whoever came
    earlier has been told all that a later arrival has. A game that fits its players is played to its end for
    everybody connected, one with an undeclared target is cut off before it.
  \<^item> Clients. A connection is a duplex of two queues, in which nothing is stuck while it is open. The chat window is
    a line editor, unless the terminal changes its width, and the client sends the lines completed in it. What the
    lobbies of one server display fits together, and each can catch up with its answers while the server runs.
  \<^item> Together. The theorems of this theory join the parts: names written in a specification reach the
    players' variables, and parsed games terminate; those of \<open>Shipped_Game\<close> and \<open>Program_Main\<close> follow the
    program from its files and its terminal to what it sends.

  \<^bold>\<open>Not modelled.\<close> Boost, nlohmann::json, ncurses and glog are parameters or left out, log lines
  included, except that the lines a game logs with \<open>GlobalMessageRule\<close> are kept. The welcome text, the
  web and mobile clients and the text on unit testing are not modelled. An exception thrown by \<open>update\<close> is a
  flag of the iteration; memory exhaustion and documents with numbers too large for the library are not
  considered. The copy of the chat window under \<open>tools/chatclient\<close> has the same code and no definitions of its own;
  class declarations and the calls that only forward to the implementation classes have none either.
\<close>

section \<open>From a specification to the players' variables\<close>

text \<open>
  C26. Inside a \<open>foreach\<close> over the players with element \<open>e\<close>, the name \<open>e.v\<close> written in the
  specification denotes at run time the variable \<open>v\<close> of the player the loop is at: the parser's
  alias and the interpreter's scope variable fit together.
\<close>

theorem element_name_reads_player:
  assumes "map_of al e = Some (''players'' @ ''.$'' @ e)" "CHR ''.'' \<notin> set e" "CHR ''$'' \<notin> set v"
    and "list_all (\<lambda>c. map_of al c = None) (split_on CHR ''.'' v)" "scope gs e = Some pid"
  shows "getValue gs (processScopedVariables al (e @ CHR ''.'' # v)) =
         Inr (result_of (store gs (PlayerVar pid v)))"
proof -
  have "processScopedVariables al (e @ CHR ''.'' # v) = scoped_name e v"
    using assms(1,2,4) by (intro processScoped_element) (simp_all add: list_all_iff)
  then show ?thesis
    using resolve_scoped [OF assms(2,3,5)] by (simp add: getValue_resolve scoped_name_def)
qed

theorem element_name_reads_player_witness:
  "getValue two_players (processScopedVariables [(''p'', ''players.$p'')] ''p.score'') = Inr (get_ok 5)"
proof -
  have "getValue two_players (processScopedVariables [(''p'', ''players.$p'')] (''p'' @ CHR ''.'' # ''score'')) =
      Inr (result_of (store two_players (PlayerVar 7 ''score'')))"
    by (rule element_name_reads_player) (use two_players_names(1) in \<open>simp_all add: until_def\<close>)
  then show ?thesis using two_players_names(2) by (simp del: store.simps)
qed

text \<open>
  C25. A game read from a file never hangs the server: if the specification parses to valid game data,
  executing it returns or faults whatever the users, with an outcome no fuel can change.
\<close>

theorem parsed_game_terminates:
  assumes "parseJsonFile_gameSpec J k path = Inr gd" "isValid gd" "json_throws J" "gs_gameData g = gd"
  shows "executeGame ord n g \<noteq> Inl OutOfFuel \<and> executeGame ord n g = executeGame ord 0 g"
proof -
  have "list_all loop_free (gd_topLevelRules gd)"
    using gameSpec_valid [OF assms(1-3)] by (auto simp: game_data_ok_def list_all_iff parser_shape_loop_free)
  then have "executeRules ord m (gd_topLevelRules gd) st \<noteq> Inl OutOfFuel"
    "executeRules ord m (gd_topLevelRules gd) st = executeRules ord 0 (gd_topLevelRules gd) st" for m st
    using loop_free_fuel(2) loop_free_fuel_irrelevant by blast+
  then show ?thesis
    using assms(4) by (auto simp: executeGame_def Let_def bindR_eq_Inl case_prod_beta intro: bindR_cong)
qed

theorem parsed_game_terminates_witness:
  "executeGame id 3 (app one_client) \<noteq> Inl OutOfFuel \<and>
   executeGame id 3 (app one_client) = executeGame id 0 (app one_client)"
  using parsed_game_terminates [OF basic_game_parsed _ jval_throws, of "app one_client"] one_client_game by simp

end
